(* ===== verification/Prelude.thy ===== *)
theory Prelude
  imports Main "HOL-Library.Word"
begin

text \<open>
  The shared layer of the development: the failure values a C run can end in, the error
  monad over them, checked array access, little-endian byte encodings with the contract
  every fixed-width encoding obeys (locale \<open>codec\<close>), and generic list lemmas.
\<close>

named_theorems err_simps \<open>unfolding rules of the error monad\<close>
named_theorems enc_simps \<open>lengths and round trips of byte encodings\<close>

section \<open>C values and failures\<close>

type_synonym byte = "8 word"
type_synonym address = "64 word"

text \<open>
  A run of the C code either yields a value or stops: with an exit status, with an MPI
  abort code, on a failed \<open>assert\<close>, or with an undefined behaviour that the value names.
\<close>

datatype c_error =
    Null_Deref
  | Use_After_Free
  | Bad_Free
  | Out_Of_Bounds
  | Uninitialised
  | Int_Overflow
  | Assert_Failed
  | Exit_With int
  | Abort_With int
  | Short_Input
  | Out_Of_Fuel

type_synonym 'a result = "c_error + 'a"

fun bindE :: "'a result \<Rightarrow> ('a \<Rightarrow> 'b result) \<Rightarrow> 'b result" where
  bindE_Inl: "bindE (Inl e) f = Inl e"
| bindE_Inr: "bindE (Inr x) f = f x"

declare bindE_Inl [err_simps] bindE_Inr [err_simps]

lemma bindE_eq_Inr_iff [err_simps]:
  "bindE m f = Inr y \<longleftrightarrow> (\<exists>x. m = Inr x \<and> f x = Inr y)"
  by (cases m) auto

lemma bindE_E:
  assumes "bindE m f = Inr y"
  obtains x where "m = Inr x" "f x = Inr y"
  using assms by (auto simp: bindE_eq_Inr_iff)

lemma bindE_right [simp]: "bindE m Inr = m"
  by (cases m) auto

lemma bindE_assoc: "bindE (bindE m f) g = bindE m (\<lambda>x. bindE (f x) g)"
  by (cases m) auto

lemma bindE_cong [fundef_cong]:
  "m = m' \<Longrightarrow> (\<And>x. m' = Inr x \<Longrightarrow> f x = f' x) \<Longrightarrow> bindE m f = bindE m' f'"
  by (cases m') auto

definition guardE :: "bool \<Rightarrow> c_error \<Rightarrow> unit result" where
  "guardE b e = (if b then Inr () else Inl e)"

lemma guardE_eq_Inr_iff [err_simps]: "guardE b e = Inr u \<longleftrightarrow> b"
  by (simp add: guardE_def)

lemma guardE_True [err_simps]: "b \<Longrightarrow> guardE b e = Inr ()"
  by (simp add: guardE_def)

lemma guardE_False [err_simps]: "\<not> b \<Longrightarrow> guardE b e = Inl e"
  by (simp add: guardE_def)

definition some_or :: "c_error \<Rightarrow> 'a option \<Rightarrow> 'a result" where
  "some_or e x = (case x of None \<Rightarrow> Inl e | Some v \<Rightarrow> Inr v)"

lemma some_or_Some [err_simps]: "some_or e (Some v) = Inr v"
  by (simp add: some_or_def)

lemma some_or_None [err_simps]: "some_or e None = Inl e"
  by (simp add: some_or_def)

lemma some_or_eq_Inr_iff [err_simps]: "some_or e x = Inr v \<longleftrightarrow> x = Some v"
  by (cases x) (auto simp: some_or_def)

section \<open>Checked array access\<close>

text \<open>An array index of the C code is an \<open>int\<close>; outside the array it is undefined.\<close>

definition aget :: "'a list \<Rightarrow> int \<Rightarrow> 'a result" where
  "aget xs i = (if 0 \<le> i \<and> nat i < length xs then Inr (xs ! nat i) else Inl Out_Of_Bounds)"

definition aset :: "'a list \<Rightarrow> int \<Rightarrow> 'a \<Rightarrow> 'a list result" where
  "aset xs i v = (if 0 \<le> i \<and> nat i < length xs then Inr (xs[nat i := v]) else Inl Out_Of_Bounds)"

lemma aget_Inr [err_simps]: "aget xs i = Inr v \<longleftrightarrow> 0 \<le> i \<and> nat i < length xs \<and> v = xs ! nat i"
  by (auto simp: aget_def)

lemma aset_Inr [err_simps]:
  "aset xs i v = Inr ys \<longleftrightarrow> 0 \<le> i \<and> nat i < length xs \<and> ys = xs[nat i := v]"
  by (auto simp: aset_def)

lemma aget_of_nat [simp]: "n < length xs \<Longrightarrow> aget xs (int n) = Inr (xs ! n)"
  by (simp add: aget_def)

lemma aset_of_nat [simp]: "n < length xs \<Longrightarrow> aset xs (int n) v = Inr (xs[n := v])"
  by (simp add: aset_def)

section \<open>Little-endian byte encodings\<close>

primrec bytes_of_nat :: "nat \<Rightarrow> nat \<Rightarrow> byte list" where
  "bytes_of_nat 0 x = []"
| "bytes_of_nat (Suc n) x = word_of_nat (x mod 256) # bytes_of_nat n (x div 256)"

primrec nat_of_bytes :: "byte list \<Rightarrow> nat" where
  "nat_of_bytes [] = 0"
| "nat_of_bytes (b # bs) = unat b + 256 * nat_of_bytes bs"

lemma length_bytes_of_nat [simp]: "length (bytes_of_nat n x) = n"
  by (induction n arbitrary: x) auto

lemma nat_of_bytes_of_nat: "nat_of_bytes (bytes_of_nat n x) = x mod 256 ^ n"
proof (induction n arbitrary: x)
  case 0
  then show ?case by simp
next
  case (Suc n)
  have "unat (word_of_nat (x mod 256) :: byte) = x mod 256"
    by (simp add: unat_of_nat)
  then have "nat_of_bytes (bytes_of_nat (Suc n) x) = x mod 256 + 256 * (x div 256 mod 256 ^ n)"
    using Suc by simp
  also have "\<dots> = x mod 256 ^ Suc n"
    by (simp add: mod_mult2_eq)
  finally show ?case .
qed

lemma unat_byte_less: "unat (b :: byte) < 256"
  using unsigned_less [of b] by simp

lemma nat_of_bytes_less: "nat_of_bytes bs < 256 ^ length bs"
proof (induction bs)
  case Nil
  then show ?case by simp
next
  case (Cons b bs)
  have "unat b < 256" by (rule unat_byte_less)
  then show ?case using Cons by simp
qed

lemma bytes_of_nat_of_bytes: "bytes_of_nat (length bs) (nat_of_bytes bs) = bs"
proof (induction bs)
  case Nil
  then show ?case by simp
next
  case (Cons b bs)
  have "unat b < 256" by (rule unat_byte_less)
  then show ?case using Cons by simp
qed

lemma nat_of_bytes_append: "nat_of_bytes (xs @ ys) = nat_of_bytes xs + 256 ^ length xs * nat_of_bytes ys"
  by (induction xs) (auto simp: algebra_simps)

lemma take_bytes_of_nat: "n \<le> m \<Longrightarrow> take n (bytes_of_nat m x) = bytes_of_nat n x"
proof (induction m arbitrary: n x)
  case 0
  then show ?case by simp
next
  case (Suc m)
  then show ?case by (cases n) auto
qed

lemma drop_bytes_of_nat: "drop n (bytes_of_nat m x) = bytes_of_nat (m - n) (x div 256 ^ n)"
proof (induction m arbitrary: n x)
  case 0
  then show ?case by simp
next
  case (Suc m)
  then show ?case by (cases n) (auto simp: div_mult2_eq)
qed

text \<open>\<open>int\<close> and \<open>MPI_INT\<close> are four bytes, \<open>size_t\<close>, pointers and \<open>address\<close> eight.\<close>

definition enc_int :: "32 word \<Rightarrow> byte list" where
  "enc_int w = bytes_of_nat 4 (unat w)"

definition dec_int :: "byte list \<Rightarrow> 32 word" where
  "dec_int bs = word_of_nat (nat_of_bytes bs)"

definition enc_addr :: "64 word \<Rightarrow> byte list" where
  "enc_addr w = bytes_of_nat 8 (unat w)"

definition dec_addr :: "byte list \<Rightarrow> 64 word" where
  "dec_addr bs = word_of_nat (nat_of_bytes bs)"

text \<open>
  The contract of a fixed-width encoding, and what its clients (files, broadcasts, memory)
  derive from it once.
\<close>

locale codec =
  fixes enc :: "'a \<Rightarrow> byte list" and dec :: "byte list \<Rightarrow> 'a" and width :: nat
  assumes enc_length: "length (enc x) = width"
    and dec_enc: "dec (enc x) = x"
begin

lemma take_enc: "take width (enc x @ rest) = enc x"
  by (simp add: enc_length)

lemma drop_enc: "drop width (enc x @ rest) = rest"
  by (simp add: enc_length)

lemma dec_take_enc: "dec (take width (enc x @ rest)) = x"
  by (simp only: take_enc dec_enc)

lemma enc_inject: "enc x = enc y \<longleftrightarrow> x = y"
  by (metis dec_enc)

lemma enc_append_inject: "enc x @ r = enc y @ s \<longleftrightarrow> x = y \<and> r = s"
  by (auto simp: enc_inject append_eq_append_conv enc_length)

end

lemma unat_int_less: "unat (w :: 32 word) < 4294967296"
  using unsigned_less [of w] by simp

lemma unat_addr_less: "unat (w :: 64 word) < 18446744073709551616"
  using unsigned_less [of w] by simp

lemma word_of_nat_unat_mod:
  "word_of_nat (unat (w :: 32 word) mod 4294967296) = w"
  "word_of_nat (unat (v :: 64 word) mod 18446744073709551616) = v"
  by (simp_all add: unat_int_less unat_addr_less)

interpretation int_codec: codec enc_int dec_int 4
  by unfold_locales
    (simp_all add: enc_int_def dec_int_def nat_of_bytes_of_nat word_of_nat_unat_mod)

interpretation addr_codec: codec enc_addr dec_addr 8
  by unfold_locales (simp_all add: enc_addr_def dec_addr_def nat_of_bytes_of_nat word_of_nat_unat_mod)

lemmas codec_bytes [enc_simps] =
  int_codec.enc_length int_codec.dec_enc addr_codec.enc_length addr_codec.dec_enc

end
