(* ===== verification/Decimal.thy ===== *)
theory Decimal
  imports Prelude
begin

text \<open>
  Decimal text: what \<open>sprintf("%d")\<close> and Go's \<open>strconv.Itoa\<close> print, and what the
  \<open>fscanf("%d")\<close> calls of the map-file parser read back.
\<close>

section \<open>Printing\<close>

definition digit :: "nat \<Rightarrow> char" where
  "digit d = char_of (48 + d)"

fun nat_string :: "nat \<Rightarrow> string" where
  "nat_string n = (if n < 10 then [digit n] else nat_string (n div 10) @ [digit (n mod 10)])"

declare nat_string.simps [simp del]

definition int_string :: "int \<Rightarrow> string" where
  "int_string i = (if i < 0 then CHR ''-'' # nat_string (nat (- i)) else nat_string (nat i))"

section \<open>Scanning\<close>

definition is_space :: "char \<Rightarrow> bool" where
  "is_space ch \<longleftrightarrow> (let n = of_char ch :: nat in n = 32 \<or> (9 \<le> n \<and> n \<le> 13))"

definition is_digit :: "char \<Rightarrow> bool" where
  "is_digit ch \<longleftrightarrow> (let n = of_char ch :: nat in 48 \<le> n \<and> n \<le> 57)"

definition digits_value :: "string \<Rightarrow> nat" where
  "digits_value s = foldl (\<lambda>v ch. 10 * v + (of_char ch - 48)) 0 s"

definition fits_int :: "int \<Rightarrow> bool" where
  "fits_int v \<longleftrightarrow> - 2147483648 \<le> v \<and> v < 2147483648"

text \<open>
  One \<open>%d\<close>: skip white space, take an optional sign and the digits. Without a digit nothing
  is stored (\<open>None\<close>) and the characters looked at are gone. A number an \<open>int\<close> cannot hold
  is undefined behaviour.
\<close>

definition fscanf_d :: "string \<Rightarrow> (int option \<times> string) result" where
  "fscanf_d s =
     (let s1 = dropWhile is_space s;
          neg = (s1 \<noteq> [] \<and> hd s1 = CHR ''-'');
          s2 = (if s1 \<noteq> [] \<and> (hd s1 = CHR ''-'' \<or> hd s1 = CHR ''+'') then tl s1 else s1);
          ds = takeWhile is_digit s2;
          v = (if neg then - int (digits_value ds) else int (digits_value ds))
      in if ds = [] then Inr (None, s2)
         else if fits_int v then Inr (Some v, dropWhile is_digit s2)
         else Inl Int_Overflow)"

text \<open>
  A format of \<open>n\<close> integers separated by white space: the scan stops at the first one that
  does not match, the rest of the variables keep what they had.
\<close>

primrec fscanf_ds :: "nat \<Rightarrow> string \<Rightarrow> (int list \<times> string) result" where
  "fscanf_ds 0 s = Inr ([], s)"
| "fscanf_ds (Suc n) s =
     bindE (fscanf_d s) (\<lambda>(v, s1).
       case v of None \<Rightarrow> Inr ([], s1)
       | Some i \<Rightarrow> bindE (fscanf_ds n s1) (\<lambda>(vs, s2). Inr (i # vs, s2)))"

text \<open>A local variable a scan may have left unset.\<close>

definition scanned :: "int list \<Rightarrow> nat \<Rightarrow> int result" where
  "scanned vs i = (if i < length vs then Inr (vs ! i) else Inl Uninitialised)"

section \<open>Printing and scanning back\<close>

lemma of_char_digit: "d < 10 \<Longrightarrow> of_char (digit d) = (48 + d :: nat)"
  by (simp add: digit_def)

lemma digit_is_digit [simp]: "d < 10 \<Longrightarrow> is_digit (digit d)"
  by (simp add: is_digit_def of_char_digit Let_def)

lemma nat_string_nonempty [simp]: "nat_string n \<noteq> []"
  by (simp add: nat_string.simps [of n])

lemma nat_string_digits: "\<forall>ch \<in> set (nat_string n). is_digit ch"
proof (induction n rule: nat_string.induct)
  case (1 n)
  then show ?case by (simp add: nat_string.simps [of n])
qed

lemma digits_value_snoc: "digits_value (s @ [ch]) = 10 * digits_value s + (of_char ch - 48)"
  by (simp add: digits_value_def)

lemma digits_value_nat_string [simp]: "digits_value (nat_string n) = n"
proof (induction n rule: nat_string.induct)
  case (1 n)
  then show ?case
    by (cases "n < 10")
      (simp_all add: nat_string.simps [of n] digits_value_snoc of_char_digit, simp add: digits_value_def of_char_digit)
qed

lemma digit_marks:
  "is_digit ch \<Longrightarrow> \<not> is_space ch" "is_digit ch \<Longrightarrow> ch \<noteq> CHR ''-''" "is_digit ch \<Longrightarrow> ch \<noteq> CHR ''+''"
  by (auto simp: is_digit_def is_space_def Let_def)

text \<open>The text that follows a printed number must not go on with a digit.\<close>

definition ends_number :: "string \<Rightarrow> bool" where
  "ends_number s \<longleftrightarrow> (case s of [] \<Rightarrow> True | ch # _ \<Rightarrow> \<not> is_digit ch)"

lemma take_digits:
  assumes "\<forall>ch \<in> set ds. is_digit ch" and "ends_number s"
  shows "takeWhile is_digit (ds @ s) = ds" "dropWhile is_digit (ds @ s) = s"
  using assms by (auto simp: ends_number_def takeWhile_append dropWhile_append split: list.splits)

lemma nat_string_head:
  obtains ch r where "nat_string n = ch # r" "is_digit ch"
proof (cases "nat_string n")
  case Nil
  then show ?thesis by simp
next
  case (Cons ch r)
  then show ?thesis using that nat_string_digits [of n] by simp
qed

lemma fscanf_d_int_string:
  assumes "fits_int i" and "ends_number s" and "\<forall>ch \<in> set w. is_space ch"
  shows "fscanf_d (w @ int_string i @ s) = Inr (Some i, s)"
proof -
  obtain ch r where n: "nat_string (nat \<bar>i\<bar>) = ch # r" "is_digit ch" by (rule nat_string_head)
  have skip: "dropWhile is_space (w @ c # t) = c # t" if "\<not> is_space c" for c t
    using assms(3) that by (simp add: dropWhile_append)
  have sp: "\<not> is_space CHR ''-''" by (simp add: is_space_def)
  note td = take_digits [OF nat_string_digits [of "nat \<bar>i\<bar>"] assms(2)]
  show ?thesis
  proof (cases "i < 0")
    case True
    then have "int_string i = CHR ''-'' # nat_string (nat \<bar>i\<bar>)" by (simp add: int_string_def)
    then show ?thesis
      using True assms(1) td by (simp add: fscanf_d_def skip sp Let_def)
  next
    case False
    then have i: "int_string i = nat_string (nat \<bar>i\<bar>)" by (simp add: int_string_def)
    then have "dropWhile is_space (w @ int_string i @ s) = nat_string (nat \<bar>i\<bar>) @ s"
      using n by (simp add: skip digit_marks)
    moreover have "int (digits_value (ch # r)) = i"
      using False digits_value_nat_string [of "nat \<bar>i\<bar>"] unfolding n(1) by simp
    ultimately show ?thesis
      using False assms(1) td n digit_marks [OF n(2)] by (simp add: fscanf_d_def Let_def)
  qed
qed

end
