(* ===== verification/Memory.thy ===== *)
theory Memory
  imports Prelude
begin

text \<open>
  The process memory the library copies around: a byte-addressed 64-bit space, the block
  list of the C allocator, and what \<open>malloc\<close>, \<open>free\<close>, \<open>fread\<close> and \<open>PMPI_Bcast\<close> do
  to them. The address \<open>malloc\<close> picks is the parameter \<open>alloc\<close>; what a broadcast delivers
  to a receiver is the parameter \<open>rx\<close>.
\<close>

section \<open>Byte ranges\<close>

definition read_bytes :: "(address \<Rightarrow> byte) \<Rightarrow> address \<Rightarrow> nat \<Rightarrow> byte list" where
  "read_bytes m a n = map (\<lambda>i. m (a + word_of_nat i)) [0..<n]"

definition write_bytes :: "(address \<Rightarrow> byte) \<Rightarrow> address \<Rightarrow> byte list \<Rightarrow> address \<Rightarrow> byte" where
  "write_bytes m a bs = (\<lambda>x. let d = unat (x - a) in if d < length bs then bs ! d else m x)"

text \<open>Two ranges that share no address, wrap-around included.\<close>

definition apart :: "address \<Rightarrow> nat \<Rightarrow> address \<Rightarrow> nat \<Rightarrow> bool" where
  "apart a n b k \<longleftrightarrow> a \<noteq> b \<and> n \<le> unat (b - a) \<and> k \<le> unat (a - b)"

definition load_addr :: "(address \<Rightarrow> byte) \<Rightarrow> address \<Rightarrow> address" where
  "load_addr m a = dec_addr (read_bytes m a 8)"

definition store_addr :: "(address \<Rightarrow> byte) \<Rightarrow> address \<Rightarrow> address \<Rightarrow> address \<Rightarrow> byte" where
  "store_addr m a v = write_bytes m a (enc_addr v)"

section \<open>The allocator\<close>

record memory =
  mem :: "address \<Rightarrow> byte"
  allocs :: "(address \<times> nat) list"

type_synonym allocator = "(address \<times> nat) list \<Rightarrow> nat \<Rightarrow> address"

definition fresh_block :: "(address \<times> nat) list \<Rightarrow> address \<Rightarrow> nat \<Rightarrow> bool" where
  "fresh_block bl p n \<longleftrightarrow> p \<noteq> 0 \<and> unat p + n < 2 ^ 64 \<and> list_all (\<lambda>(q, k). apart p n q k) bl"

text \<open>\<open>malloc\<close> returns a block apart from every live one, or \<open>NULL\<close>.\<close>

definition c_malloc :: "allocator \<Rightarrow> nat \<Rightarrow> 'a memory_scheme \<Rightarrow> address \<times> 'a memory_scheme" where
  "c_malloc alloc n st =
     (let p = alloc (allocs st) n
      in if fresh_block (allocs st) p n then (p, st\<lparr>allocs := (p, n) # allocs st\<rparr>) else (0, st))"

definition c_free :: "address \<Rightarrow> 'a memory_scheme \<Rightarrow> 'a memory_scheme result" where
  "c_free p st =
     (if p = 0 then Inr st
      else if p \<in> fst ` set (allocs st)
      then Inr (st\<lparr>allocs := filter (\<lambda>(q, _). q \<noteq> p) (allocs st)\<rparr>)
      else Inl Bad_Free)"

section \<open>Files and broadcasts\<close>

text \<open>
  \<open>fread\<close> of a scalar: the exact number of bytes or a short read. \<open>fread\<close> into a buffer
  copies what is there.
\<close>

definition fread_exact :: "nat \<Rightarrow> byte list \<Rightarrow> (byte list \<times> byte list) result" where
  "fread_exact n fs = (if length fs < n then Inl Short_Input else Inr (take n fs, drop n fs))"

definition fread_buf :: "nat \<Rightarrow> byte list \<Rightarrow> byte list \<times> byte list" where
  "fread_buf n fs = (take n fs, drop n fs)"

text \<open>
  One \<open>PMPI_Bcast\<close> call with root 0, seen from one process: the root hands its buffer
  out, another process gets the next delivered buffer \<open>rx\<close>, which has to have the count
  the call names.
\<close>

definition PMPI_Bcast :: "nat \<Rightarrow> byte list \<Rightarrow> byte list list \<Rightarrow>
    (byte list \<times> byte list list \<times> byte list list) result" where
  "PMPI_Bcast rank buf rx =
     (if rank = 0 then Inr (buf, rx, [buf])
      else case rx of
        [] \<Rightarrow> Inl Short_Input
      | b # bs \<Rightarrow> if length b = length buf then Inr (b, bs, []) else Inl Short_Input)"

text \<open>
  A stage of a transfer: from the process's rank in the communicator, the buffers delivered
  to it and its state, to the new state, the buffers not yet consumed and the buffers it
  broadcast. Two stages run one after the other.
\<close>

type_synonym 's phase =
  "nat \<Rightarrow> byte list list \<Rightarrow> 's \<Rightarrow> ('s \<times> byte list list \<times> byte list list) result"

definition then_phase :: "'s phase \<Rightarrow> 's phase \<Rightarrow> 's phase" where
  "then_phase f g me rx st =
     bindE (f me rx st) (\<lambda>(st1, rx1, tx1).
     bindE (g me rx1 st1) (\<lambda>(st2, rx2, tx2). Inr (st2, rx2, tx1 @ tx2)))"

text \<open>A byte count kept in an \<open>int\<close>; MPI refuses a negative one (error handler: abort 300).\<close>

definition int_count :: "64 word \<Rightarrow> int" where
  "int_count w = sint (ucast w :: 32 word)"

lemma sint_small:
  assumes "unat (w :: 32 word) < 2147483648"
  shows "sint w = int (unat w)"
proof -
  have "int (unat w) < 2147483648" using assms by linarith
  then have u: "uint w < 2147483648" by simp
  have "0 \<le> uint w" by simp
  then have "- 2147483648 \<le> uint w" by linarith
  then have "signed_take_bit 31 (uint w) = uint w"
    using u by (intro signed_take_bit_int_eq_self) simp_all
  then show ?thesis by (simp add: sint_uint)
qed

lemma ucast_small: "unat (d :: 64 word) < 4294967296 \<Longrightarrow> unat (ucast d :: 32 word) = unat d"
  by (simp add: unsigned_ucast_eq take_bit_nat_eq_self)

lemma int_count_small [simp]: "unat w < 2147483648 \<Longrightarrow> int_count w = int (unat w)"
  by (simp add: int_count_def sint_small ucast_small)

lemma int_count_0 [simp]: "int_count 0 = 0"
  by (simp add: int_count_def)

section \<open>Reading what was written\<close>

lemma length_read_bytes [simp]: "length (read_bytes m a n) = n"
  by (simp add: read_bytes_def)

lemma read_bytes_nth: "i < n \<Longrightarrow> read_bytes m a n ! i = m (a + word_of_nat i)"
  by (simp add: read_bytes_def)

lemma read_write_bytes:
  assumes "n = length bs" and "n \<le> 2 ^ 64"
  shows "read_bytes (write_bytes m a bs) a n = bs"
proof (rule nth_equalityI)
  show "length (read_bytes (write_bytes m a bs) a n) = length bs"
    using assms by simp
next
  fix i
  assume "i < length (read_bytes (write_bytes m a bs) a n)"
  then have i: "i < length bs" using assms by simp
  then have "unat (word_of_nat i :: address) = i"
    using assms by (simp add: unat_of_nat)
  with i assms show "read_bytes (write_bytes m a bs) a n ! i = bs ! i"
    by (simp add: read_bytes_nth write_bytes_def)
qed

lemma apart_offset:
  assumes "apart a n b k" and "j < k"
  shows "n \<le> unat (b + word_of_nat j - a)"
proof -
  let ?d = "b - a"
  have d: "n \<le> unat ?d" "k \<le> unat (a - b)" "?d \<noteq> 0"
    using assms by (auto simp: apart_def)
  have "unat (a - b) = 2 ^ 64 - unat ?d"
    using d(3) by (auto simp: unat_sub_if' word_unat_eq_iff split: if_splits)
  then have "unat ?d + j < 2 ^ 64"
    using assms(2) d(2) unat_addr_less [of ?d] by simp
  then have "unat (?d + word_of_nat j) = unat ?d + j"
    by (simp add: unat_word_ariths unat_of_nat)
  moreover have "b + word_of_nat j - a = ?d + word_of_nat j"
    by (simp add: algebra_simps)
  ultimately show ?thesis using d(1) by (simp only:)
qed

lemma write_bytes_other: "length bs \<le> unat (x - a) \<Longrightarrow> write_bytes m a bs x = m x"
  by (simp add: write_bytes_def)

lemma read_write_apart:
  assumes "apart a (length bs) b k"
  shows "read_bytes (write_bytes m a bs) b k = read_bytes m b k"
  using assms by (auto simp: read_bytes_def write_bytes_other apart_offset)

lemma write_write_apart:
  assumes "apart a (length xs) b (length ys)"
  shows "write_bytes (write_bytes m a xs) b ys = write_bytes (write_bytes m b ys) a xs"
proof
  fix x
  have "length xs \<le> unat (x - a)" if "unat (x - b) < length ys"
    using apart_offset [OF assms that] by simp
  then show "write_bytes (write_bytes m a xs) b ys x = write_bytes (write_bytes m b ys) a xs x"
    by (auto simp: write_bytes_def Let_def)
qed

lemma apart_sym: "apart a n b k \<Longrightarrow> apart b k a n"
  by (auto simp: apart_def)

lemma apart_mono: "apart a n b k \<Longrightarrow> n' \<le> n \<Longrightarrow> k' \<le> k \<Longrightarrow> apart a n' b k'"
  by (auto simp: apart_def)

lemma load_store_addr [simp]: "load_addr (store_addr m a v) a = v"
  by (simp add: load_addr_def store_addr_def read_write_bytes enc_simps)

lemma load_store_apart: "apart a 8 b 8 \<Longrightarrow> load_addr (store_addr m a v) b = load_addr m b"
  by (simp add: load_addr_def store_addr_def read_write_apart enc_simps)

lemma load_write_apart: "apart a (length bs) b 8 \<Longrightarrow> load_addr (write_bytes m a bs) b = load_addr m b"
  by (simp add: load_addr_def read_write_apart)

lemma read_store_apart: "apart a 8 b k \<Longrightarrow> read_bytes (store_addr m a v) b k = read_bytes m b k"
  by (simp add: store_addr_def read_write_apart enc_simps)

section \<open>The allocator contract\<close>

lemma c_malloc_fresh:
  assumes "c_malloc alloc n st = (p, st')" and "p \<noteq> 0"
  shows "fresh_block (allocs st) p n" and "st' = st\<lparr>allocs := (p, n) # allocs st\<rparr>"
  using assms by (auto simp: c_malloc_def Let_def split: if_splits)

lemma c_malloc_cases:
  obtains (null) "c_malloc alloc n st = (0, st)"
  | (block) p where "p = alloc (allocs st) n" "fresh_block (allocs st) p n" "p \<noteq> 0"
      "c_malloc alloc n st = (p, st\<lparr>allocs := (p, n) # allocs st\<rparr>)"
proof (cases "fresh_block (allocs st) (alloc (allocs st) n) n")
  case True
  then show ?thesis by (intro block) (auto simp: c_malloc_def fresh_block_def Let_def)
next
  case False
  then show ?thesis by (intro null) (simp add: c_malloc_def Let_def)
qed

lemma c_free_malloc:
  assumes "c_malloc alloc n st = (p, st')" and "p \<noteq> 0"
  shows "c_free p st' = Inr st"
proof -
  have "\<forall>(q, k) \<in> set (allocs st). q \<noteq> p"
    using c_malloc_fresh(1) [OF assms] by (auto simp: fresh_block_def apart_def list_all_iff)
  then have "filter (\<lambda>(q, _). q \<noteq> p) (allocs st) = allocs st"
    by (auto simp: filter_id_conv)
  then show ?thesis
    using assms c_malloc_fresh(2) [OF assms] by (simp add: c_free_def)
qed

lemma PMPI_Bcast_root [simp]: "PMPI_Bcast 0 buf rx = Inr (buf, rx, [buf])"
  by (simp add: PMPI_Bcast_def)

lemma PMPI_Bcast_recv [simp]:
  "rank \<noteq> 0 \<Longrightarrow> length b = length buf \<Longrightarrow> PMPI_Bcast rank buf (b # rx) = Inr (b, rx, [])"
  by (simp add: PMPI_Bcast_def)

text \<open>
  A stage delivers when what the root broadcasts is exactly what every other process
  consumes; the sender ends in \<open>s'\<close>, a receiver in \<open>r'\<close>. Stages that deliver compose.
\<close>

definition delivers :: "'s phase \<Rightarrow> 's \<Rightarrow> 's \<Rightarrow> 's \<Rightarrow> 's \<Rightarrow> bool" where
  "delivers f s s' r r' \<longleftrightarrow> (\<exists>tx. (\<forall>rx. f 0 rx s = Inr (s', rx, tx)) \<and>
     (\<forall>me rest. me \<noteq> 0 \<longrightarrow> f me (tx @ rest) r = Inr (r', rest, [])))"

lemma delivers_then:
  assumes "delivers f s s1 r r1" and "delivers g s1 s2 r1 r2"
  shows "delivers (then_phase f g) s s2 r r2"
proof -
  obtain tx where f: "\<And>rx. f 0 rx s = Inr (s1, rx, tx)"
      "\<And>me rest. me \<noteq> 0 \<Longrightarrow> f me (tx @ rest) r = Inr (r1, rest, [])"
    using assms(1) by (auto simp: delivers_def)
  obtain ty where g: "\<And>rx. g 0 rx s1 = Inr (s2, rx, ty)"
      "\<And>me rest. me \<noteq> 0 \<Longrightarrow> g me (ty @ rest) r1 = Inr (r2, rest, [])"
    using assms(2) by (auto simp: delivers_def)
  show ?thesis
    unfolding delivers_def by (intro exI [of _ "tx @ ty"]) (simp add: then_phase_def f g)
qed

lemma fread_exact_append:
  "length xs = n \<Longrightarrow> fread_exact n (xs @ ys) = Inr (xs, ys)"
  by (simp add: fread_exact_def)

lemma fread_buf_append:
  "length xs = n \<Longrightarrow> fread_buf n (xs @ ys) = (xs, ys)"
  by (simp add: fread_buf_def)

end
