(* ===== verification/Shared.thy ===== *)
theory Shared
  imports Memory
begin

text \<open>
  The types of \<open>src/shared.h\<close>: the enumerations, the \<open>Node\<close> every process keeps about
  itself, the \<open>Job\<close> entries of the replication map, the three registers \<open>Context\<close> that
  travel with a stack image, and the tag encoding of point-to-point messages.
\<close>

section \<open>Enumerations\<close>

datatype NodeTransitState = NODE_DATA_NONE | NODE_DATA_SENDER | NODE_DATA_RECEIVER

datatype NodeCheckpointMaster = NO | YES

datatype CkptRestore = RESTORE_NO | RESTORE_YES

text \<open>Communicator handles are opaque names; only \<open>MPI_COMM_NULL\<close> is special.\<close>

datatype MPI_Comm = MPI_COMM_NULL | Comm_Handle nat

section \<open>Nodes, jobs, contexts\<close>

record Node =
  job_id :: int
  rank :: int
  static_rank :: int
  age :: int
  jobs_count :: int
  node_transit_state :: NodeTransitState
  node_checkpoint_master :: NodeCheckpointMaster
  rep_mpi_comm_world :: MPI_Comm
  world_job_comm :: MPI_Comm
  active_comm :: MPI_Comm

record Job =
  job_job_id :: int
  worker_count :: int
  rank_list :: "int list"

record Context =
  rip :: address
  rsp :: address
  rbp :: address

definition SET_TAG :: "int \<Rightarrow> int \<Rightarrow> int" where
  "SET_TAG r tag = 100 * (r + 1) + tag"

text \<open>The layout of \<open>struct ContextContainer\<close> on the wire and in a checkpoint file.\<close>

definition enc_Context :: "Context \<Rightarrow> byte list" where
  "enc_Context c = enc_addr (rip c) @ enc_addr (rsp c) @ enc_addr (rbp c)"

definition dec_Context :: "byte list \<Rightarrow> Context" where
  "dec_Context bs =
     \<lparr>rip = dec_addr (take 8 bs), rsp = dec_addr (take 8 (drop 8 bs)),
      rbp = dec_addr (take 8 (drop 16 bs))\<rparr>"

section \<open>Laws\<close>

interpretation ctx_codec: codec enc_Context dec_Context 24
  by unfold_locales (simp_all add: enc_Context_def dec_Context_def enc_simps)

lemmas ctx_codec_bytes [enc_simps] = ctx_codec.enc_length ctx_codec.dec_enc

text \<open>The workers a job still counts: the live prefix of its rank array.\<close>

definition workers :: "Job \<Rightarrow> int list" where
  "workers j = take (nat (worker_count j)) (rank_list j)"

lemma SET_TAG_same_rank: "SET_TAG r t = SET_TAG r t' \<longleftrightarrow> t = t'"
  by (simp add: SET_TAG_def)

end
