(* ===== verification/Registers.thy ===== *)
theory Registers
  imports Shared
begin

text \<open>
  The saved-register part of \<open>src/replication/rep.c\<close>: glibc's pointer mangling, the
  accessors of \<open>jmp_buf\<close>, and the hexadecimal reader of \<open>/proc/self/maps\<close>. The pointer
  guard (the word at \<open>fs:0x30\<close>) belongs to the process and is an argument.
\<close>

unbundle bit_operations_syntax

section \<open>Pointer mangling and jump buffers\<close>

definition PTR_ENCRYPT :: "64 word \<Rightarrow> 64 word \<Rightarrow> 64 word" where
  "PTR_ENCRYPT ptr_guard v = word_rotl 17 (v XOR ptr_guard)"

definition PTR_DECRYPT :: "64 word \<Rightarrow> 64 word \<Rightarrow> 64 word" where
  "PTR_DECRYPT ptr_guard v = word_rotr 17 v XOR ptr_guard"

record jmp_buf =
  jmpbuf :: "64 word list"
  mask_was_saved :: int
  saved_mask :: "byte list"

definition JB_RBP :: nat where "JB_RBP = 1"
definition JB_RSP :: nat where "JB_RSP = 6"
definition JB_PC :: nat where "JB_PC = 7"

definition wf_jmp_buf :: "jmp_buf \<Rightarrow> bool" where
  "wf_jmp_buf c \<longleftrightarrow> length (jmpbuf c) = 8"

definition getPC :: "64 word \<Rightarrow> jmp_buf \<Rightarrow> address" where
  "getPC g c = PTR_DECRYPT g (jmpbuf c ! JB_PC)"

definition getRBP :: "64 word \<Rightarrow> jmp_buf \<Rightarrow> address" where
  "getRBP g c = PTR_DECRYPT g (jmpbuf c ! JB_RBP)"

definition getRSP :: "64 word \<Rightarrow> jmp_buf \<Rightarrow> address" where
  "getRSP g c = PTR_DECRYPT g (jmpbuf c ! JB_RSP)"

definition setPC :: "64 word \<Rightarrow> jmp_buf \<Rightarrow> address \<Rightarrow> jmp_buf" where
  "setPC g c a = c\<lparr>jmpbuf := (jmpbuf c)[JB_PC := PTR_ENCRYPT g a]\<rparr>"

definition setRBP :: "64 word \<Rightarrow> jmp_buf \<Rightarrow> address \<Rightarrow> jmp_buf" where
  "setRBP g c a = c\<lparr>jmpbuf := (jmpbuf c)[JB_RBP := PTR_ENCRYPT g a]\<rparr>"

definition setRSP :: "64 word \<Rightarrow> jmp_buf \<Rightarrow> address \<Rightarrow> jmp_buf" where
  "setRSP g c a = c\<lparr>jmpbuf := (jmpbuf c)[JB_RSP := PTR_ENCRYPT g a]\<rparr>"

definition copy_jmp_buf :: "jmp_buf \<Rightarrow> jmp_buf \<Rightarrow> jmp_buf" where
  "copy_jmp_buf src dest =
     dest\<lparr>jmpbuf := foldl (\<lambda>d i. d[i := jmpbuf src ! i]) (jmpbuf dest) [0..<8],
          mask_was_saved := mask_was_saved src\<rparr>"

section \<open>The hexadecimal reader\<close>

definition parseChar :: "char \<Rightarrow> 32 word" where
  "parseChar ch =
     (let n = of_char ch :: nat
      in if 48 \<le> n \<and> n \<le> 57 then word_of_nat (n - 48)
         else if 97 \<le> n \<and> n \<le> 102 then word_of_nat (10 + n - 97)
         else if 65 \<le> n \<and> n \<le> 70 then word_of_nat (10 + n - 65)
         else 30)"

text \<open>The string ends at its NUL, so the first character of an empty string is NUL.\<close>

fun charArray2Long :: "string \<Rightarrow> address" where
  "charArray2Long [] = ucast (parseChar (CHR 0x00))"
| "charArray2Long (ch # s) =
     foldl (\<lambda>r d. push_bit 4 r + ucast (parseChar d)) (ucast (parseChar ch)) s"

text \<open>The NUL-terminated string that starts at a position of a character buffer.\<close>

definition c_string :: "char list \<Rightarrow> string" where
  "c_string buf = takeWhile (\<lambda>ch. ch \<noteq> CHR 0x00) buf"

text \<open>
  The loop over one line: a minus becomes NUL and marks the second number, the first
  blank becomes NUL and ends the loop. \<open>n\<close> counts the characters left.
\<close>

fun split_line :: "nat \<Rightarrow> nat \<Rightarrow> char list \<Rightarrow> nat option \<Rightarrow> char list \<times> nat option" where
  "split_line 0 i line secondAddr = (line, secondAddr)"
| "split_line (Suc n) i line secondAddr =
     (if line ! i = CHR ''-'' then split_line n (Suc i) (line[i := CHR 0x00]) (Some (Suc i))
      else if line ! i = CHR '' '' then (line[i := CHR 0x00], secondAddr)
      else split_line n (Suc i) line secondAddr)"

definition map_line_range :: "char list \<Rightarrow> (address \<times> address) result" where
  "map_line_range line =
     (case split_line (length line) 0 line None of
        (buf, None) \<Rightarrow> Inl Null_Deref
      | (buf, Some k) \<Rightarrow> Inr (charArray2Long (c_string buf), charArray2Long (c_string (drop k buf))))"

text \<open>
  The loop over the lines: the locals \<open>dataSegStart\<close> and \<open>dataSegEnd\<close> (0 at first) after it.
  Line 2 sets them.
\<close>

primrec maps_loop :: "int \<Rightarrow> address \<times> address \<Rightarrow> char list list \<Rightarrow> (address \<times> address) result" where
  "maps_loop lineNumber seg [] = Inr seg"
| "maps_loop lineNumber seg (line # ls) =
     bindE (if lineNumber = 2 then map_line_range line else Inr seg) (\<lambda>seg1. maps_loop (lineNumber + 1) seg1 ls)"

text \<open>
  The function itself drops the two locals: it returns 1 when the file does not open (\<open>None\<close>)
  and 0 otherwise.
\<close>

definition readProcMapFile :: "char list list option \<Rightarrow> int result" where
  "readProcMapFile maps =
     (case maps of
        None \<Rightarrow> Inr 1
      | Some ls \<Rightarrow> bindE (maps_loop 1 (0, 0) ls) (\<lambda>_. Inr 0))"

section \<open>Registers: the accessor contract\<close>

lemma PTR_DECRYPT_ENCRYPT [simp]: "PTR_DECRYPT g (PTR_ENCRYPT g v) = v"
  by (simp add: PTR_DECRYPT_def PTR_ENCRYPT_def xor.assoc)

lemma PTR_ENCRYPT_DECRYPT [simp]: "PTR_ENCRYPT g (PTR_DECRYPT g v) = v"
  by (simp add: PTR_DECRYPT_def PTR_ENCRYPT_def xor.assoc)

text \<open>What a register of a jump buffer promises its users.\<close>

locale register =
  fixes getR :: "64 word \<Rightarrow> jmp_buf \<Rightarrow> address"
    and setR :: "64 word \<Rightarrow> jmp_buf \<Rightarrow> address \<Rightarrow> jmp_buf"
  assumes get_set: "wf_jmp_buf c \<Longrightarrow> getR g (setR g c a) = a"
    and set_get: "wf_jmp_buf c \<Longrightarrow> setR g c (getR g c) = c"
    and set_set: "setR g (setR g c a) b = setR g c b"
    and set_wf: "wf_jmp_buf c \<Longrightarrow> wf_jmp_buf (setR g c a)"
begin

lemma set_inject: "wf_jmp_buf c \<Longrightarrow> setR g c a = setR g c b \<longleftrightarrow> a = b"
  by (metis get_set)

text \<open>A value moved between two processes with different guards arrives unchanged.\<close>

lemma move: "wf_jmp_buf d \<Longrightarrow> getR g' (setR g' d (getR g c)) = getR g c"
  by (rule get_set)

end

lemmas reg_defs =
  getPC_def getRBP_def getRSP_def setPC_def setRBP_def setRSP_def
  JB_PC_def JB_RBP_def JB_RSP_def wf_jmp_buf_def

interpretation pc_reg: register getPC setPC
  by unfold_locales (simp_all add: reg_defs)

interpretation rbp_reg: register getRBP setRBP
  by unfold_locales (simp_all add: reg_defs)

interpretation rsp_reg: register getRSP setRSP
  by unfold_locales (simp_all add: reg_defs)

lemma set_other [simp]:
  "getPC g (setRBP g' c a) = getPC g c" "getPC g (setRSP g' c a) = getPC g c"
  "getRBP g (setPC g' c a) = getRBP g c" "getRBP g (setRSP g' c a) = getRBP g c"
  "getRSP g (setPC g' c a) = getRSP g c" "getRSP g (setRBP g' c a) = getRSP g c"
  by (simp_all add: reg_defs)

lemmas reg_get_set [simp] = pc_reg.get_set rbp_reg.get_set rsp_reg.get_set
lemmas reg_wf [simp] = pc_reg.set_wf rbp_reg.set_wf rsp_reg.set_wf

lemma foldl_copy:
  "n \<le> length xs \<Longrightarrow> n \<le> length ys \<Longrightarrow>
   foldl (\<lambda>d i. d[i := xs ! i]) ys [0..<n] = take n xs @ drop n ys"
proof (induction n)
  case 0
  then show ?case by simp
next
  case (Suc n)
  have "drop n ys = ys ! n # drop (Suc n) ys"
    using Suc.prems by (simp add: Cons_nth_drop_Suc)
  then show ?case
    using Suc by (simp add: list_update_append take_Suc_conv_app_nth)
qed

lemma copy_jmp_buf_eq:
  "wf_jmp_buf src \<Longrightarrow> wf_jmp_buf dest \<Longrightarrow>
   copy_jmp_buf src dest = dest\<lparr>jmpbuf := jmpbuf src, mask_was_saved := mask_was_saved src\<rparr>"
  using foldl_copy [of 8 "jmpbuf src" "jmpbuf dest"]
  by (simp add: copy_jmp_buf_def wf_jmp_buf_def)

section \<open>Hexadecimal numbers as printed by the kernel\<close>

definition hex_digit :: "nat \<Rightarrow> char" where
  "hex_digit d = (if d < 10 then char_of (48 + d) else char_of (87 + d))"

fun hex_string :: "nat \<Rightarrow> string" where
  "hex_string n = (if n < 16 then [hex_digit n] else hex_string (n div 16) @ [hex_digit (n mod 16)])"

declare hex_string.simps [simp del]

lemma hex_digit_cases:
  assumes "d < 16"
  shows "(d < 10 \<and> of_char (hex_digit d) = 48 + d) \<or> (10 \<le> d \<and> of_char (hex_digit d) = 87 + d)"
  using assms by (auto simp: hex_digit_def)

lemma parseChar_hex_digit: "d < 16 \<Longrightarrow> parseChar (hex_digit d) = word_of_nat d"
  using hex_digit_cases [of d] by (auto simp: parseChar_def Let_def)

lemma hex_digit_not_mark:
  assumes "d < 16"
  shows "hex_digit d \<noteq> CHR ''-''" "hex_digit d \<noteq> CHR '' ''" "hex_digit d \<noteq> CHR 0x00"
proof -
  have "of_char (hex_digit d) \<ge> (48 :: nat)"
    using hex_digit_cases [OF assms] by auto
  then show "hex_digit d \<noteq> CHR ''-''" "hex_digit d \<noteq> CHR '' ''" "hex_digit d \<noteq> CHR 0x00"
    by auto
qed

lemma hex_string_nonempty: "hex_string n \<noteq> []"
  by (subst hex_string.simps) simp

lemma hex_string_chars: "c \<in> set (hex_string n) \<Longrightarrow> \<exists>d < 16. c = hex_digit d"
proof (induction n rule: hex_string.induct)
  case (1 n)
  show ?case
  proof (cases "n < 16")
    case True
    with 1 show ?thesis by (auto simp: hex_string.simps [of n])
  next
    case False
    with 1 have "c \<in> set (hex_string (n div 16)) \<or> c = hex_digit (n mod 16)"
      by (auto simp: hex_string.simps [of n])
    moreover have "n mod 16 < 16" by simp
    ultimately show ?thesis using 1 False by blast
  qed
qed

lemma hex_string_clean:
  assumes "c \<in> set (hex_string n)"
  shows "c \<noteq> CHR ''-'' \<and> c \<noteq> CHR '' '' \<and> c \<noteq> CHR 0x00"
proof -
  obtain d where "d < 16" "c = hex_digit d"
    using hex_string_chars [OF assms] by auto
  then show ?thesis using hex_digit_not_mark [of d] by simp
qed

lemma charArray2Long_snoc:
  "s \<noteq> [] \<Longrightarrow> charArray2Long (s @ [c]) = push_bit 4 (charArray2Long s) + ucast (parseChar c)"
  by (cases s) auto

lemma hex_step:
  "push_bit 4 (word_of_nat (n div 16)) + ucast (word_of_nat (n mod 16) :: 32 word)
     = (word_of_nat n :: address)"
proof -
  have "unat (word_of_nat (n mod 16) :: 32 word) = n mod 16"
    by (simp add: unat_of_nat)
  then have "(ucast (word_of_nat (n mod 16) :: 32 word) :: address) = word_of_nat (n mod 16)"
    by (metis of_nat_unat)
  moreover have "push_bit 4 (word_of_nat (n div 16)) = (word_of_nat (n div 16 * 16) :: address)"
    by (simp add: push_bit_eq_mult)
  ultimately show ?thesis
    by (metis div_mult_mod_eq of_nat_add)
qed

text \<open>
  The hexadecimal reader inverts the kernel's printing: a number below \<open>2^64\<close> printed
  in lower-case hexadecimal is read back exactly.
\<close>

lemma charArray2Long_hex_string: "charArray2Long (hex_string n) = word_of_nat n"
proof (induction n rule: hex_string.induct)
  case (1 n)
  show ?case
  proof (cases "n < 16")
    case True
    then show ?thesis
      using hex_step [of n] by (simp add: hex_string.simps [of n] parseChar_hex_digit)
  next
    case False
    have "n mod 16 < 16" by simp
    with 1 False show ?thesis
      using hex_step [of n]
      by (simp add: hex_string.simps [of n] charArray2Long_snoc hex_string_nonempty parseChar_hex_digit)
  qed
qed

lemma split_line_skip:
  assumes "\<forall>j < k. line ! (i + j) \<noteq> CHR ''-'' \<and> line ! (i + j) \<noteq> CHR '' ''"
  shows "split_line (k + n) i line sa = split_line n (i + k) line sa"
  using assms
proof (induction k arbitrary: i)
  case 0
  then show ?case by simp
next
  case (Suc k)
  then have "line ! i \<noteq> CHR ''-''" "line ! i \<noteq> CHR '' ''"
    by force+
  moreover have "split_line (k + n) (Suc i) line sa = split_line n (Suc i + k) line sa"
    using Suc.prems by (intro Suc.IH) (metis Suc_less_eq add_Suc add_Suc_right)
  ultimately show ?case by simp
qed

lemma split_line_range:
  assumes a: "\<forall>c \<in> set a. c \<noteq> CHR ''-'' \<and> c \<noteq> CHR '' ''"
    and b: "\<forall>c \<in> set b. c \<noteq> CHR ''-'' \<and> c \<noteq> CHR '' ''"
  shows "split_line (length (a @ CHR ''-'' # b @ CHR '' '' # r)) 0 (a @ CHR ''-'' # b @ CHR '' '' # r) None
     = (a @ CHR 0x00 # b @ CHR 0x00 # r, Some (Suc (length a)))"
proof -
  let ?l = "a @ CHR ''-'' # b @ CHR '' '' # r"
  let ?m = "a @ CHR 0x00 # b @ CHR '' '' # r"
  have "split_line (length ?l) 0 ?l None = split_line (Suc (length b + Suc (length r))) (length a) ?l None"
    using split_line_skip [of "length a" ?l 0 "Suc (length b + Suc (length r))" None] a
    by (simp add: nth_append)
  also have "\<dots> = split_line (length b + Suc (length r)) (Suc (length a)) ?m (Some (Suc (length a)))"
    by (simp add: nth_append list_update_append)
  also have "\<dots> = split_line (Suc (length r)) (Suc (length a) + length b) ?m (Some (Suc (length a)))"
    using b by (intro split_line_skip) (auto simp: nth_append)
  also have "\<dots> = (a @ CHR 0x00 # b @ CHR 0x00 # r, Some (Suc (length a)))"
    by (simp add: nth_append list_update_append)
  finally show ?thesis .
qed

lemma c_string_append_nul:
  "\<forall>c \<in> set a. c \<noteq> CHR 0x00 \<Longrightarrow> c_string (a @ CHR 0x00 # r) = a"
  by (simp add: c_string_def)

text \<open>
  The kernel prints an address with at least eight digits, filling up with zeros, and with
  as many digits as it takes when eight are not enough.
\<close>

definition kernel_address :: "address \<Rightarrow> string" where
  "kernel_address a = (let s = hex_string (unat a) in replicate (8 - length s) CHR ''0'' @ s)"

lemma charArray2Long_zero: "s \<noteq> [] \<Longrightarrow> charArray2Long (CHR ''0'' # s) = charArray2Long s"
  by (cases s) (simp_all add: parseChar_def)

lemma charArray2Long_zeros: "s \<noteq> [] \<Longrightarrow> charArray2Long (replicate n CHR ''0'' @ s) = charArray2Long s"
  by (induction n) (simp_all add: charArray2Long_zero del: charArray2Long.simps)

lemma kernel_address_read: "charArray2Long (kernel_address a) = a"
  by (simp add: kernel_address_def Let_def charArray2Long_zeros hex_string_nonempty charArray2Long_hex_string)

lemma kernel_address_clean: "c \<in> set (kernel_address a) \<Longrightarrow> c \<noteq> CHR ''-'' \<and> c \<noteq> CHR '' '' \<and> c \<noteq> CHR 0x00"
  using hex_string_clean [of c "unat a"] by (auto simp: kernel_address_def Let_def)

text \<open>The data segment of the comment in \<open>dataseg.c\<close> has six digits and is printed with eight.\<close>

lemma kernel_address_pads: "kernel_address 0x601380 = ''00601380''" "kernel_address 0x7ffd12345000 = ''7ffd12345000''"
proof -
  have "replicate 2 CHR ''0'' = ''00''" by (simp add: numeral_2_eq_2)
  then show "kernel_address 0x601380 = ''00601380''" "kernel_address 0x7ffd12345000 = ''7ffd12345000''"
    by (simp_all add: kernel_address_def hex_string.simps hex_digit_def char_of_eq_iff)
qed

text \<open>
  The reader of \<open>/proc/self/maps\<close> finds the two bounds of a range line as the kernel
  writes it: low bound, minus, high bound, blank, the rest.
\<close>

lemma map_line_range_kernel:
  "map_line_range (kernel_address lo @ CHR ''-'' # kernel_address hi @ CHR '' '' # rest) = Inr (lo, hi)"
  using split_line_range [of "kernel_address lo" "kernel_address hi" rest]
  by (simp add: map_line_range_def c_string_append_nul kernel_address_clean kernel_address_read)

lemma maps_loop_later: "2 < n \<Longrightarrow> maps_loop n seg ls = Inr seg"
  by (induction ls arbitrary: n) simp_all

text \<open>
  C28: \<open>readProcMapFile\<close> recovers both bounds of the second mapping from the line as the kernel
  prints it (lower-case hexadecimal, filled up with zeros to eight digits, then the rest of
  the line), for all addresses of 64 bits and whatever the other lines hold: these are the
  values of \<open>dataSegStart\<close> and \<open>dataSegEnd\<close> after its loop. The function keeps them in these two
  locals only and returns 0.
\<close>

theorem readProcMapFile_kernel:
  "let maps = first # (kernel_address lo @ CHR ''-'' # kernel_address hi @ CHR '' '' # rest) # others
   in maps_loop 1 (0, 0) maps = Inr (lo, hi) \<and> readProcMapFile (Some maps) = Inr 0"
  by (simp add: readProcMapFile_def map_line_range_kernel maps_loop_later)

end
