(* ===== verification/Heapseg.thy ===== *)
theory Heapseg
  imports Shared
begin

text \<open>
  \<open>src/replication/heapseg.c\<close>: the doubly linked registry of allocations and the transfer
  of the heap segment to a replica. List cells live in a typed store \<open>cells\<close>, user data in
  the byte memory; both draw addresses from the same allocator, so a second \<open>free\<close> and a
  use after \<open>free\<close> are failures of the model. Loops over the list carry fuel, because a
  corrupted list may be cyclic.
\<close>

section \<open>State\<close>

record Malloc_container =
  container_address :: address
  linked_address :: address
  allocated_address :: address
  msize :: "64 word"

record Malloc_list =
  container :: Malloc_container
  next_ptr :: address
  prev_ptr :: address

datatype Memory_state = CONTIGUOUS | DISCONTIGUOUS

record heap = memory +
  cells :: "address \<Rightarrow> Malloc_list option"
  head :: address
  tail :: address
  total_malloc_allocation_size :: "64 word"
  malloc_number_of_allocations :: "32 word"
  mem_state :: Memory_state

definition sizeof_Malloc_list :: nat where "sizeof_Malloc_list = 48"
definition sizeof_Malloc_container :: nat where "sizeof_Malloc_container = 32"

definition enc_container :: "Malloc_container \<Rightarrow> byte list" where
  "enc_container c = enc_addr (container_address c) @ enc_addr (linked_address c)
     @ enc_addr (allocated_address c) @ enc_addr (msize c)"

definition dec_container :: "byte list \<Rightarrow> Malloc_container" where
  "dec_container bs =
     \<lparr>container_address = dec_addr (take 8 bs), linked_address = dec_addr (take 8 (drop 8 bs)),
      allocated_address = dec_addr (take 8 (drop 16 bs)), msize = dec_addr (take 8 (drop 24 bs))\<rparr>"

text \<open>Access to a list cell through a pointer.\<close>

definition get_cell :: "address \<Rightarrow> 'a heap_scheme \<Rightarrow> Malloc_list result" where
  "get_cell p st = (if p = 0 then Inl Null_Deref else some_or Use_After_Free (cells st p))"

definition upd_cell :: "address \<Rightarrow> (Malloc_list \<Rightarrow> Malloc_list) \<Rightarrow> 'a heap_scheme \<Rightarrow> 'a heap_scheme result" where
  "upd_cell p f st = bindE (get_cell p st) (\<lambda>x. Inr (st\<lparr>cells := (cells st)(p \<mapsto> f x)\<rparr>))"

definition free_cell :: "address \<Rightarrow> 'a heap_scheme \<Rightarrow> 'a heap_scheme result" where
  "free_cell p st = bindE (c_free p st) (\<lambda>st'. Inr (st'\<lparr>cells := (cells st')(p := None)\<rparr>))"

section \<open>The registry operations\<close>

definition rep_append :: "allocator \<Rightarrow> Malloc_container \<Rightarrow> 'a heap_scheme \<Rightarrow> 'a heap_scheme result" where
  "rep_append alloc c st =
     (case c_malloc alloc sizeof_Malloc_list st of (element, st1) \<Rightarrow>
        if element = 0 then Inl Null_Deref
        else
          let st2 = st1\<lparr>cells := (cells st1)(element \<mapsto>
                \<lparr>container = c, next_ptr = 0, prev_ptr = tail st1\<rparr>)\<rparr>
          in if head st2 = 0 then Inr (st2\<lparr>head := element, tail := element\<rparr>)
             else bindE (upd_cell (tail st2) (\<lambda>x. x\<lparr>next_ptr := element\<rparr>) st2)
                    (\<lambda>st3. Inr (st3\<lparr>tail := element\<rparr>)))"

definition rep_remove :: "address \<Rightarrow> 'a heap_scheme \<Rightarrow> 'a heap_scheme result" where
  "rep_remove p st =
     bindE (get_cell p st) (\<lambda>element.
       let prev = prev_ptr element
       in if next_ptr element = 0 \<and> prev_ptr element = 0
          then bindE (free_cell p st) (\<lambda>st1. Inr (st1\<lparr>head := 0, tail := 0\<rparr>))
          else
            bindE (if next_ptr element \<noteq> 0
                   then upd_cell (next_ptr element) (\<lambda>x. x\<lparr>prev_ptr := prev\<rparr>) st else Inr st)
              (\<lambda>st1. bindE
                (if prev \<noteq> 0
                 then bindE (get_cell p st1) (\<lambda>el1. upd_cell prev (\<lambda>x. x\<lparr>next_ptr := next_ptr el1\<rparr>) st1)
                 else Inr st1)
                (\<lambda>st2. free_cell p st2)))"

text \<open>What the display loop logs, from \<open>temp\<close> on.\<close>

primrec display_loop :: "nat \<Rightarrow> address \<Rightarrow> 'a heap_scheme \<Rightarrow> (address \<times> 64 word) list result" where
  "display_loop 0 temp st = Inl Out_Of_Fuel"
| "display_loop (Suc fuel) temp st =
     (if temp = 0 then Inr []
      else bindE (get_cell temp st) (\<lambda>x.
             bindE (display_loop fuel (next_ptr x) st)
               (\<lambda>out. Inr ((container_address (container x), msize (container x)) # out))))"

definition rep_display :: "nat \<Rightarrow> 'a heap_scheme \<Rightarrow> (address \<times> 64 word) list result" where
  "rep_display fuel st = display_loop fuel (head st) st"

primrec clear_loop :: "nat \<Rightarrow> address \<Rightarrow> 'a heap_scheme \<Rightarrow> 'a heap_scheme result" where
  "clear_loop 0 temp st = Inl Out_Of_Fuel"
| "clear_loop (Suc fuel) temp st =
     (if temp = 0 then Inr st
      else bindE (get_cell temp st) (\<lambda>x.
             bindE (free_cell temp (st\<lparr>head := temp\<rparr>)) (clear_loop fuel (next_ptr x))))"

definition rep_clear :: "nat \<Rightarrow> 'a heap_scheme \<Rightarrow> 'a heap_scheme result" where
  "rep_clear fuel st =
     bindE (get_cell (head st) st) (\<lambda>x.
     bindE (c_free (allocated_address (container x)) st) (\<lambda>st1.
     bindE (clear_loop fuel (head st1) st1) (\<lambda>st2.
       Inr (st2\<lparr>head := 0, tail := 0, malloc_number_of_allocations := 0\<rparr>))))"

primrec clear_discontiguous_loop :: "nat \<Rightarrow> address \<Rightarrow> 'a heap_scheme \<Rightarrow> 'a heap_scheme result" where
  "clear_discontiguous_loop 0 temp st = Inl Out_Of_Fuel"
| "clear_discontiguous_loop (Suc fuel) temp st =
     (if temp = 0 then Inr st
      else bindE (get_cell temp st) (\<lambda>x.
             bindE (c_free (allocated_address (container x)) (st\<lparr>head := temp\<rparr>)) (\<lambda>st1.
               bindE (free_cell temp st1) (clear_discontiguous_loop fuel (next_ptr x)))))"

definition rep_clear_discontiguous :: "nat \<Rightarrow> 'a heap_scheme \<Rightarrow> 'a heap_scheme result" where
  "rep_clear_discontiguous fuel st =
     bindE (clear_discontiguous_loop fuel (head st) st) (\<lambda>st1.
       Inr (st1\<lparr>head := 0, tail := 0, malloc_number_of_allocations := 0\<rparr>))"

definition rep_assign_malloc_context :: "allocator \<Rightarrow> address \<Rightarrow> address \<Rightarrow> 'a heap_scheme \<Rightarrow> 'a heap_scheme result" where
  "rep_assign_malloc_context alloc source dest st =
     bindE (guardE (source \<noteq> 0 \<and> dest \<noteq> 0) Null_Deref) (\<lambda>_.
     let cont = \<lparr>container_address = dest, linked_address = source,
                 allocated_address = load_addr (mem st) source, msize = 0\<rparr>;
         st1 = st\<lparr>malloc_number_of_allocations := malloc_number_of_allocations st + 1\<rparr>
     in bindE (rep_append alloc cont st1) (\<lambda>st2.
          Inr (st2\<lparr>mem := store_addr (mem st2) dest (load_addr (mem st2) source)\<rparr>)))"

definition rep_malloc :: "allocator \<Rightarrow> address \<Rightarrow> 64 word \<Rightarrow> 'a heap_scheme \<Rightarrow> 'a heap_scheme result" where
  "rep_malloc alloc cadr sz st =
     bindE (guardE (cadr \<noteq> 0) Null_Deref) (\<lambda>_.
     case c_malloc alloc (unat sz) st of (p, st1) \<Rightarrow>
       let st2 = st1\<lparr>mem := store_addr (mem st1) cadr p\<rparr>;
           cont = \<lparr>container_address = cadr, linked_address = 0,
                   allocated_address = load_addr (mem st2) cadr, msize = sz\<rparr>;
           st3 = st2\<lparr>total_malloc_allocation_size := total_malloc_allocation_size st2 + sz,
                     malloc_number_of_allocations := malloc_number_of_allocations st2 + 1\<rparr>
       in rep_append alloc cont st3)"

primrec free_loop :: "nat \<Rightarrow> address \<Rightarrow> address \<Rightarrow> 'a heap_scheme \<Rightarrow> 'a heap_scheme result" where
  "free_loop 0 temp cont_add st = Inl Out_Of_Fuel"
| "free_loop (Suc fuel) temp cont_add st =
     (if temp = 0 then Inr st
      else bindE (get_cell temp st) (\<lambda>x.
             if container_address (container x) = cont_add
             then bindE (c_free (allocated_address (container x)) st) (rep_remove temp)
             else free_loop fuel (next_ptr x) cont_add st))"

definition rep_free :: "nat \<Rightarrow> address \<Rightarrow> 'a heap_scheme \<Rightarrow> 'a heap_scheme result" where
  "rep_free fuel cont_add st = free_loop fuel (head st) cont_add st"

section \<open>The registry as a list\<close>

text \<open>
  \<open>dllseg h p q as\<close>: from pointer \<open>q\<close>, whose predecessor is \<open>p\<close>, the cells \<open>as\<close> are
  linked forwards and backwards and the last one has no successor.
\<close>

primrec dllseg :: "(address \<Rightarrow> Malloc_list option) \<Rightarrow> address \<Rightarrow> address \<Rightarrow> address list \<Rightarrow> bool" where
  "dllseg h p q [] \<longleftrightarrow> q = 0"
| "dllseg h p q (a # as) \<longleftrightarrow> q = a \<and> a \<noteq> 0 \<and>
     (case h a of None \<Rightarrow> False | Some x \<Rightarrow> prev_ptr x = p \<and> dllseg h a (next_ptr x) as)"

definition registry :: "'a heap_scheme \<Rightarrow> address list \<Rightarrow> bool" where
  "registry st as \<longleftrightarrow> dllseg (cells st) 0 (head st) as \<and>
     tail st = (if as = [] then 0 else last as) \<and> distinct as \<and>
     list_all (\<lambda>a. a \<in> fst ` set (allocs st)) as"

definition entries :: "'a heap_scheme \<Rightarrow> address list \<Rightarrow> Malloc_container list" where
  "entries st as = map (\<lambda>a. container (the (cells st a))) as"

definition registers :: "'a heap_scheme \<Rightarrow> Malloc_container list \<Rightarrow> bool" where
  "registers st cs \<longleftrightarrow> (\<exists>as. registry st as \<and> entries st as = cs)"

lemma dllseg_upd_notin: "a \<notin> set as \<Longrightarrow> dllseg (h(a := v)) p q as = dllseg h p q as"
  by (induction as arbitrary: p q) (auto split: option.splits)

lemma dllseg_cell: "dllseg h p q as \<Longrightarrow> a \<in> set as \<Longrightarrow> \<exists>x. h a = Some x"
  by (induction as arbitrary: p q) (auto split: option.splits)

lemma dllseg_nonnull: "dllseg h p q as \<Longrightarrow> a \<in> set as \<Longrightarrow> a \<noteq> 0"
  by (induction as arbitrary: p q) (auto split: option.splits)

lemma dllseg_start: "dllseg h p q as \<Longrightarrow> q = 0 \<longleftrightarrow> as = []"
  by (cases as) auto

lemma dllseg_unique: "dllseg h p q as \<Longrightarrow> dllseg h p q bs \<Longrightarrow> as = bs"
proof (induction as arbitrary: p q bs)
  case Nil
  then show ?case by (cases bs) auto
next
  case (Cons a as)
  then show ?case by (cases bs) (auto split: option.splits)
qed

lemma dllseg_append:
  "dllseg h p q (as @ b # bs) \<Longrightarrow>
     dllseg h (if as = [] then p else last as) b (b # bs) \<and>
     (as \<noteq> [] \<longrightarrow> (\<exists>x. h (last as) = Some x \<and> next_ptr x = b))"
proof (induction as arbitrary: p q)
  case Nil
  then show ?case by simp
next
  case (Cons a as)
  then obtain y where y: "h a = Some y" "dllseg h a (next_ptr y) (as @ b # bs)"
    by (auto split: option.splits)
  have "as = [] \<Longrightarrow> next_ptr y = b" using y(2) by simp
  then show ?case using Cons.IH [OF y(2)] y(1) by (cases "as = []") (simp_all del: dllseg.simps)
qed

lemma dllseg_snoc:
  assumes "dllseg h p q as" and "as \<noteq> []" and "e \<notin> set as" and "e \<noteq> 0"
    and "h (last as) = Some x" and "distinct as"
  shows "dllseg (h(e \<mapsto> \<lparr>container = c, next_ptr = 0, prev_ptr = last as\<rparr>,
                    last as \<mapsto> x\<lparr>next_ptr := e\<rparr>)) p q (as @ [e])"
  using assms
proof (induction as arbitrary: p q)
  case Nil
  then show ?case by simp
next
  case (Cons a as)
  show ?case
  proof (cases "as = []")
    case True
    with Cons.prems show ?thesis by (auto split: option.splits)
  next
    case False
    define h' where "h' = h(e \<mapsto> \<lparr>container = c, next_ptr = 0, prev_ptr = last as\<rparr>,
        last as \<mapsto> x\<lparr>next_ptr := e\<rparr>)"
    have l: "last (a # as) = last as" using False by simp
    have "last as \<in> set as" using False by simp
    with Cons.prems have "a \<noteq> last as" "a \<noteq> e" by auto
    then have "h' a = h a" by (simp add: h'_def)
    moreover obtain y where y: "h a = Some y" "prev_ptr y = p" "dllseg h a (next_ptr y) as"
      using Cons.prems(1) by (auto split: option.splits)
    moreover have "dllseg h' a (next_ptr y) (as @ [e])"
      unfolding h'_def using Cons.prems y False by (intro Cons.IH) auto
    ultimately have "dllseg h' p q ((a # as) @ [e])"
      using Cons.prems(1) by simp
    then show ?thesis by (simp only: l h'_def)
  qed
qed

lemma registry_Nil: "registry st [] \<longleftrightarrow> head st = 0 \<and> tail st = 0"
  by (simp add: registry_def)

lemma registry_unique: "registry st as \<Longrightarrow> registry st bs \<Longrightarrow> as = bs"
  by (auto simp: registry_def dest: dllseg_unique)

lemma registers_unique: "registers st cs \<Longrightarrow> registers st ds \<Longrightarrow> cs = ds"
  by (auto simp: registers_def dest: registry_unique)

lemma registry_cong:
  "cells st = cells st' \<Longrightarrow> head st = head st' \<Longrightarrow> tail st = tail st' \<Longrightarrow>
   fst ` set (allocs st) \<subseteq> fst ` set (allocs st') \<Longrightarrow> registry st as \<Longrightarrow> registry st' as"
  by (auto simp: registry_def list_all_iff)

text \<open>A malloced block is no cell of the list.\<close>

lemma fresh_notin_registry: "registry st as \<Longrightarrow> fresh_block (allocs st) e n \<Longrightarrow> e \<notin> set as"
  by (auto simp: registry_def fresh_block_def apart_def list_all_iff) fastforce

section \<open>Appending\<close>

text \<open>The state \<open>rep_append\<close> ends in, when the allocator gives it the cell \<open>e\<close>.\<close>

definition appended :: "address \<Rightarrow> Malloc_container \<Rightarrow> 'a heap_scheme \<Rightarrow> 'a heap_scheme" where
  "appended e c st =
     st\<lparr>allocs := (e, sizeof_Malloc_list) # allocs st,
        cells := (let h = (cells st)(e \<mapsto> \<lparr>container = c, next_ptr = 0, prev_ptr = tail st\<rparr>)
                  in if head st = 0 then h
                     else h(tail st \<mapsto> (the (h (tail st)))\<lparr>next_ptr := e\<rparr>)),
        head := (if head st = 0 then e else head st), tail := e\<rparr>"

lemma registry_tail_cell:
  assumes "registry st as" and "head st \<noteq> 0"
  obtains x where "cells st (tail st) = Some x" "tail st \<noteq> 0" "tail st = last as" "as \<noteq> []"
proof -
  have "as \<noteq> []" using assms by (auto simp: registry_def)
  then have l: "last as \<in> set as" and t: "tail st = last as" and d: "dllseg (cells st) 0 (head st) as"
    using assms(1) by (auto simp: registry_def)
  show ?thesis
    using dllseg_cell [OF d l] dllseg_nonnull [OF d l] t \<open>as \<noteq> []\<close> that by auto
qed

lemma rep_append_eq:
  assumes "registry st as" and "fresh_block (allocs st) (alloc (allocs st) sizeof_Malloc_list) sizeof_Malloc_list"
  shows "rep_append alloc c st = Inr (appended (alloc (allocs st) sizeof_Malloc_list) c st)"
proof -
  define e where "e = alloc (allocs st) sizeof_Malloc_list"
  have e: "fresh_block (allocs st) e sizeof_Malloc_list" "e \<noteq> 0"
    using assms by (auto simp: e_def fresh_block_def)
  have m: "c_malloc alloc sizeof_Malloc_list st = (e, st\<lparr>allocs := (e, sizeof_Malloc_list) # allocs st\<rparr>)"
    using e(1) by (simp add: c_malloc_def e_def Let_def)
  show ?thesis
  proof (cases "head st = 0")
    case True
    then show ?thesis
      using e(2) m by (simp add: rep_append_def appended_def Let_def e_def [symmetric])
  next
    case False
    obtain x where x: "cells st (tail st) = Some x" "tail st \<noteq> 0" "tail st = last as" "as \<noteq> []"
      using registry_tail_cell [OF assms(1) False] by metis
    have "tail st \<noteq> e"
      using fresh_notin_registry [OF assms(1) e(1)] x by auto
    with x False e(2) m show ?thesis
      by (simp add: rep_append_def appended_def Let_def upd_cell_def get_cell_def some_or_def
          e_def [symmetric])
  qed
qed

lemma rep_append_null:
  "\<not> fresh_block (allocs st) (alloc (allocs st) sizeof_Malloc_list) sizeof_Malloc_list \<Longrightarrow>
   rep_append alloc c st = Inl Null_Deref"
  by (simp add: rep_append_def c_malloc_def Let_def)

lemma registry_appended:
  assumes "registry st as" and "fresh_block (allocs st) e n"
  shows "registry (appended e c st) (as @ [e])"
    and "entries (appended e c st) (as @ [e]) = entries st as @ [c]"
proof -
  have e: "e \<noteq> 0" "e \<notin> set as"
    using assms fresh_notin_registry by (auto simp: fresh_block_def)
  have "registry (appended e c st) (as @ [e]) \<and> entries (appended e c st) (as @ [e]) = entries st as @ [c]"
  proof (cases "as = []")
    case True
    with assms(1) e show ?thesis
      by (auto simp: registry_def appended_def entries_def Let_def)
  next
    case False
    then have h: "head st \<noteq> 0" using assms(1) by (auto simp: registry_def dest: dllseg_start)
    obtain x where x: "cells st (tail st) = Some x" "tail st \<noteq> 0" "tail st = last as"
      using assms(1) h by (rule registry_tail_cell)
    have ne: "last as \<noteq> e" using e False by auto
    have "dllseg ((cells st)(e \<mapsto> \<lparr>container = c, next_ptr = 0, prev_ptr = last as\<rparr>,
                    last as \<mapsto> x\<lparr>next_ptr := e\<rparr>)) 0 (head st) (as @ [e])"
      using assms(1) False e x by (intro dllseg_snoc) (auto simp: registry_def)
    with assms(1) h x ne e show ?thesis
      by (auto simp: registry_def appended_def entries_def Let_def list_all_iff)
  qed
  then show "registry (appended e c st) (as @ [e])"
    "entries (appended e c st) (as @ [e]) = entries st as @ [c]" by auto
qed

text \<open>
  The contract of an allocation log: an append that returns has added exactly its
  argument at the end, and steps that do not touch the log keep it.
\<close>

locale alloc_log =
  fixes push :: "'c \<Rightarrow> 's \<Rightarrow> 's result" and logged :: "'s \<Rightarrow> 'c list \<Rightarrow> bool"
    and same_log :: "'s \<Rightarrow> 's \<Rightarrow> bool"
  assumes push_logged: "logged s cs \<Longrightarrow> push c s = Inr s' \<Longrightarrow> logged s' (cs @ [c])"
    and logged_unique: "logged s cs \<Longrightarrow> logged s ds \<Longrightarrow> cs = ds"
    and same_logged: "same_log s t \<Longrightarrow> logged s cs \<Longrightarrow> logged t cs"
begin

lemma step_push: "logged s cs \<Longrightarrow> same_log s t \<Longrightarrow> push c t = Inr u \<Longrightarrow> logged u (cs @ [c])"
  by (blast intro: push_logged same_logged)

lemma push_never_forgets:
  "logged s cs \<Longrightarrow> push c s = Inr s' \<Longrightarrow> logged s' ds \<Longrightarrow> set cs \<subseteq> set ds \<and> c \<in> set ds"
  by (drule (1) push_logged) (auto dest: logged_unique)

end

definition same_registry :: "'a heap_scheme \<Rightarrow> 'a heap_scheme \<Rightarrow> bool" where
  "same_registry st st' \<longleftrightarrow> cells st = cells st' \<and> head st = head st' \<and> tail st = tail st' \<and>
     fst ` set (allocs st) \<subseteq> fst ` set (allocs st')"

interpretation reg_log: alloc_log "rep_append alloc" registers same_registry for alloc
proof unfold_locales
  fix s s' :: "'a heap_scheme" and cs c
  assume "registers s cs" and r: "rep_append alloc c s = Inr s'"
  then obtain as where as: "registry s as" "entries s as = cs"
    by (auto simp: registers_def)
  let ?e = "alloc (allocs s) sizeof_Malloc_list"
  have f: "fresh_block (allocs s) ?e sizeof_Malloc_list"
    using r rep_append_null by fastforce
  with as(1) r have "s' = appended ?e c s"
    by (simp add: rep_append_eq)
  then show "registers s' (cs @ [c])"
    using registry_appended [OF as(1) f] as(2) unfolding registers_def by metis
next
  fix s :: "'a heap_scheme" and cs ds
  assume "registers s cs" "registers s ds"
  then show "cs = ds" by (rule registers_unique)
next
  fix s t :: "'a heap_scheme" and cs
  assume "same_registry s t" "registers s cs"
  then show "registers t cs"
    unfolding registers_def same_registry_def entries_def by (metis registry_cong)
qed

section \<open>Walking and freeing\<close>

lemma get_cell_Some: "p \<noteq> 0 \<Longrightarrow> cells st p = Some x \<Longrightarrow> get_cell p st = Inr x"
  by (simp add: get_cell_def some_or_def)

lemma dllseg_step:
  assumes "dllseg (cells st) p q (a # as)"
  obtains x where "q = a" "a \<noteq> 0" "get_cell a st = Inr x" "cells st a = Some x" "prev_ptr x = p"
    "dllseg (cells st) a (next_ptr x) as"
  using assms that by (auto simp: get_cell_def some_or_def split: option.splits)

lemma display_loop_eq:
  "dllseg (cells st) p q as \<Longrightarrow> length as < fuel \<Longrightarrow>
   display_loop fuel q st = Inr (map (\<lambda>c. (container_address c, msize c)) (entries st as))"
proof (induction as arbitrary: p q fuel)
  case Nil
  then show ?case by (cases fuel) (auto simp: entries_def)
next
  case (Cons a as)
  obtain x where x: "q = a" "a \<noteq> 0" "get_cell a st = Inr x" "cells st a = Some x"
      "dllseg (cells st) a (next_ptr x) as"
    using Cons.prems(1) by (rule dllseg_step)
  obtain n where n: "fuel = Suc n" "length as < n" using Cons.prems(2) by (cases fuel) auto
  show ?case
    using Cons.IH [OF x(5) n(2)] x n(1) by (simp add: entries_def)
qed

lemma free_loop_found:
  assumes "dllseg (cells st) p q (as @ a # bs)" and "length as < fuel"
    and "\<forall>c \<in> set (entries st as). container_address c \<noteq> ca"
    and "cells st a = Some x" and "container_address (container x) = ca"
  shows "free_loop fuel q ca st = bindE (c_free (allocated_address (container x)) st) (rep_remove a)"
  using assms
proof (induction as arbitrary: p q fuel)
  case Nil
  then show ?case by (cases fuel) (auto simp: get_cell_Some)
next
  case (Cons b as)
  obtain n where n: "fuel = Suc n" "length as < n" using Cons.prems(2) by (cases fuel) auto
  obtain y where y: "q = b" "b \<noteq> 0" "get_cell b st = Inr y" "cells st b = Some y"
      "dllseg (cells st) b (next_ptr y) (as @ a # bs)"
    using dllseg_step [of st p q b "as @ a # bs"] Cons.prems(1) by auto
  have "container_address (container y) \<noteq> ca"
    using Cons.prems(3) y(4) by (simp add: entries_def)
  moreover have "free_loop n (next_ptr y) ca st
      = bindE (c_free (allocated_address (container x)) st) (rep_remove a)"
    using Cons.prems by (intro Cons.IH [OF y(5) n(2)]) (auto simp: entries_def)
  ultimately show ?case using y n(1) by simp
qed

lemma free_loop_absent:
  "dllseg (cells st) p q as \<Longrightarrow> length as < fuel \<Longrightarrow>
   \<forall>c \<in> set (entries st as). container_address c \<noteq> ca \<Longrightarrow> free_loop fuel q ca st = Inr st"
proof (induction as arbitrary: p q fuel)
  case Nil
  then show ?case by (cases fuel) auto
next
  case (Cons b as)
  obtain n where n: "fuel = Suc n" "length as < n" using Cons.prems(2) by (cases fuel) auto
  obtain y where y: "q = b" "b \<noteq> 0" "get_cell b st = Inr y" "cells st b = Some y"
      "dllseg (cells st) b (next_ptr y) as"
    using Cons.prems(1) by (rule dllseg_step)
  then show ?case
    using Cons.IH [OF y(5) n(2)] Cons.prems(3) n(1) by (simp add: entries_def)
qed

text \<open>Freeing a block that is no cell leaves the list alone.\<close>

definition freed :: "address \<Rightarrow> 'a memory_scheme \<Rightarrow> 'a memory_scheme" where
  "freed p st = st\<lparr>allocs := filter (\<lambda>(q, _). q \<noteq> p) (allocs st)\<rparr>"

lemma c_free_live: "p \<noteq> 0 \<Longrightarrow> p \<in> fst ` set (allocs st) \<Longrightarrow> c_free p st = Inr (freed p st)"
  by (simp add: c_free_def freed_def)

lemma freed_fields [simp]:
  "cells (freed p st) = cells st" "head (freed p st) = head st" "tail (freed p st) = tail st"
  "mem (freed p st) = mem st" "mem_state (freed p st) = mem_state st"
  "malloc_number_of_allocations (freed p st) = malloc_number_of_allocations st"
  "total_malloc_allocation_size (freed p st) = total_malloc_allocation_size st"
  "entries (freed p st) as = entries st as"
  by (simp_all add: freed_def entries_def)

lemma in_allocs_freed: "q \<in> fst ` set (allocs (freed p st)) \<longleftrightarrow> q \<in> fst ` set (allocs st) \<and> q \<noteq> p"
  by (force simp: freed_def)

lemma registry_freed: "registry st as \<Longrightarrow> p \<notin> set as \<Longrightarrow> registry (freed p st) as"
  by (auto simp: registry_def list_all_iff in_allocs_freed)

lemma dllseg_relink:
  assumes "dllseg h p q (as @ a # b # bs)" and "as \<noteq> []" and "distinct (as @ a # b # bs)"
    and "h b = Some w" and "h (last as) = Some l"
  shows "dllseg (h(b \<mapsto> w\<lparr>prev_ptr := last as\<rparr>, last as \<mapsto> l\<lparr>next_ptr := b\<rparr>, a := None)) p q (as @ b # bs)"
  using assms
proof (induction as arbitrary: p q)
  case Nil
  then show ?case by simp
next
  case (Cons x as)
  define h' where "h' = h(b \<mapsto> w\<lparr>prev_ptr := last (x # as)\<rparr>, last (x # as) \<mapsto> l\<lparr>next_ptr := b\<rparr>, a := None)"
  obtain y where y: "q = x" "x \<noteq> 0" "h x = Some y" "prev_ptr y = p" "dllseg h x (next_ptr y) (as @ a # b # bs)"
    using Cons.prems(1) by (auto split: option.splits)
  have "dllseg h' p q ((x # as) @ b # bs)"
  proof (cases "as = []")
    case True
    then obtain z where z: "h a = Some z" "dllseg h a (next_ptr z) (b # bs)" "next_ptr y = a"
      using y(5) by (auto split: option.splits)
    then have b: "next_ptr z = b" "b \<noteq> 0" "dllseg h b (next_ptr w) bs"
      using Cons.prems(4) by auto
    have "x \<noteq> b" "x \<noteq> a" "b \<noteq> a" using Cons.prems(3) True by auto
    moreover have "dllseg h' b (next_ptr w) bs"
      using b(3) Cons.prems(3) True unfolding h'_def by (simp add: dllseg_upd_notin)
    ultimately show ?thesis
      using y True Cons.prems(5) b by (simp add: h'_def)
  next
    case False
    then have l: "last (x # as) = last as" "last as \<in> set as" by auto
    have "x \<noteq> b" "x \<noteq> last as" "x \<noteq> a" using Cons.prems(3) l(2) by auto
    then have "h' x = Some y" using y(3) l(1) by (simp add: h'_def)
    moreover have "dllseg h' x (next_ptr y) (as @ b # bs)"
      unfolding h'_def l(1) using Cons.prems False y(5) by (intro Cons.IH) auto
    ultimately show ?thesis using y by simp
  qed
  then show ?case by (simp only: h'_def)
qed

text \<open>The state an interior removal ends in.\<close>

lemma rep_remove_interior:
  assumes "registry st (as @ a # b # bs)" and "as \<noteq> []"
  obtains st' where "rep_remove a st = Inr st'" "registry st' (as @ b # bs)"
    "entries st' (as @ b # bs) = entries st (as @ b # bs)" "mem st' = mem st"
    "allocs st' = allocs (freed a st)"
    "malloc_number_of_allocations st' = malloc_number_of_allocations st"
proof -
  let ?l = "last as"
  have d: "dllseg (cells st) 0 (head st) (as @ a # b # bs)" and dist: "distinct (as @ a # b # bs)"
    and al: "\<forall>c \<in> set (as @ a # b # bs). c \<in> fst ` set (allocs st)"
    and t: "tail st = last (as @ a # b # bs)"
    using assms(1) by (auto simp: registry_def list_all_iff)
  obtain xl where xl: "cells st ?l = Some xl" "next_ptr xl = a" and da: "dllseg (cells st) ?l a (a # b # bs)"
    using dllseg_append [OF d] assms(2) by auto
  obtain xa where xa: "a \<noteq> 0" "cells st a = Some xa" "prev_ptr xa = ?l" "dllseg (cells st) a (next_ptr xa) (b # bs)"
    using da by (rule dllseg_step)
  obtain xb where xb: "next_ptr xa = b" "b \<noteq> 0" "cells st b = Some xb"
    using xa(4) by (rule dllseg_step)
  have l: "?l \<in> set as" "?l \<noteq> 0" using assms(2) dllseg_nonnull [OF d, of ?l] by auto
  then have ne: "?l \<noteq> a" "?l \<noteq> b" "a \<noteq> b" "a \<noteq> ?l" "b \<noteq> ?l" "b \<noteq> a" using dist by auto
  define h' where "h' = (cells st)(b \<mapsto> xb\<lparr>prev_ptr := ?l\<rparr>, ?l \<mapsto> xl\<lparr>next_ptr := b\<rparr>, a := None)"
  define st' where "st' = (freed a st)\<lparr>cells := h'\<rparr>"
  have "rep_remove a st = Inr st'"
    using xa xb xl l ne al by (simp add: rep_remove_def Let_def upd_cell_def get_cell_def some_or_def
        free_cell_def c_free_def st'_def h'_def freed_def)
  moreover have "registry st' (as @ b # bs)"
    using dllseg_relink [OF d assms(2) dist xb(3) xl(1)] al dist t
    by (auto simp: registry_def st'_def h'_def list_all_iff in_allocs_freed)
  moreover have "entries st' (as @ b # bs) = entries st (as @ b # bs)"
    using xl(1) xb(3) dist by (auto simp: entries_def st'_def h'_def)
  ultimately show ?thesis by (rule that) (simp_all add: st'_def freed_def)
qed

section \<open>Clearing\<close>

text \<open>
  The blocks the entries point to, and ownership: every entry has a live block of its own
  that is no list cell.
\<close>

definition blocks :: "'a heap_scheme \<Rightarrow> address list \<Rightarrow> address list" where
  "blocks st as = map allocated_address (entries st as)"

definition owns :: "'a heap_scheme \<Rightarrow> address list \<Rightarrow> bool" where
  "owns st as \<longleftrightarrow> distinct (as @ blocks st as) \<and>
     list_all (\<lambda>p. p \<noteq> 0 \<and> p \<in> fst ` set (allocs st)) (as @ blocks st as)"

definition without :: "address list \<Rightarrow> (address \<times> nat) list \<Rightarrow> (address \<times> nat) list" where
  "without ps al = filter (\<lambda>(q, _). q \<notin> set ps) al"

lemma without_without: "without ps (without qs al) = without (qs @ ps) al"
  by (auto simp: without_def intro: filter_cong)

lemma without_set: "set ps = set qs \<Longrightarrow> without ps al = without qs al"
  by (simp add: without_def)

lemma in_without: "q \<in> fst ` set (without ps al) \<longleftrightarrow> q \<in> fst ` set al \<and> q \<notin> set ps"
  by (force simp: without_def)

lemma freed_without: "freed p st = st\<lparr>allocs := without [p] (allocs st)\<rparr>"
  by (simp add: freed_def without_def)

lemma allocs_freed: "allocs (freed p st) = without [p] (allocs st)"
  by (simp add: freed_without)

lemma clear_discontiguous_loop_eq:
  assumes "dllseg (cells st) p q as" and "owns st as" and "length as < fuel"
  shows "clear_discontiguous_loop fuel q st =
     Inr (st\<lparr>allocs := without (as @ blocks st as) (allocs st),
             cells := (\<lambda>x. if x \<in> set as then None else cells st x),
             head := (if as = [] then head st else last as)\<rparr>)"
  using assms
proof (induction as arbitrary: p q st fuel)
  case Nil
  have "without [] al = al" for al by (simp add: without_def)
  with Nil show ?case by (cases fuel) (auto simp: blocks_def entries_def)
next
  case (Cons a as)
  obtain n where n: "fuel = Suc n" "length as < n" using Cons.prems(3) by (cases fuel) auto
  obtain x where x: "q = a" "a \<noteq> 0" "get_cell a st = Inr x" "cells st a = Some x"
      "dllseg (cells st) a (next_ptr x) as"
    using Cons.prems(1) by (rule dllseg_step)
  define b where "b = allocated_address (container x)"
  define st1 where "st1 = st\<lparr>head := a, allocs := without [b, a] (allocs st), cells := (cells st)(a := None)\<rparr>"
  have bl: "blocks st (a # as) = b # blocks st as"
    using x(4) by (simp add: blocks_def entries_def b_def)
  have own: "distinct (a # as @ b # blocks st as)" "b \<noteq> 0" "b \<in> fst ` set (allocs st)"
      "a \<in> fst ` set (allocs st)" "list_all (\<lambda>p. p \<noteq> 0 \<and> p \<in> fst ` set (allocs st)) (as @ blocks st as)"
    using Cons.prems(2) by (auto simp: owns_def bl)
  have bl1: "blocks st1 as = blocks st as"
    using own(1) by (auto simp: blocks_def entries_def st1_def)
  have "allocs st1 = without [b, a] (allocs st)" by (simp add: st1_def)
  then have "owns st1 as"
    using own by (auto simp: owns_def bl1 list_all_iff in_without)
  moreover have "dllseg (cells st1) a (next_ptr x) as"
    using x(5) own(1) by (simp add: st1_def dllseg_upd_notin)
  ultimately have IH: "clear_discontiguous_loop n (next_ptr x) st1 =
     Inr (st1\<lparr>allocs := without (as @ blocks st as) (allocs st1),
              cells := (\<lambda>y. if y \<in> set as then None else cells st1 y),
              head := (if as = [] then head st1 else last as)\<rparr>)"
    using Cons.IH n(2) bl1 by fastforce
  have w: "without (as @ blocks st as) (allocs st1) = without ((a # as) @ blocks st (a # as)) (allocs st)"
    unfolding st1_def bl by (simp add: without_without) (rule without_set, auto)
  have c: "(\<lambda>y. if y \<in> set as then None else cells st1 y) = (\<lambda>y. if y \<in> set (a # as) then None else cells st y)"
    by (auto simp: st1_def)
  have "c_free b (st\<lparr>head := a\<rparr>) = Inr (freed b (st\<lparr>head := a\<rparr>))"
    using own by (intro c_free_live) auto
  moreover have "c_free a (freed b (st\<lparr>head := a\<rparr>)) = Inr (freed a (freed b (st\<lparr>head := a\<rparr>)))"
    using own x(2) by (intro c_free_live) (simp_all add: in_allocs_freed)
  then have "free_cell a (freed b (st\<lparr>head := a\<rparr>)) = Inr st1"
    by (simp add: free_cell_def freed_without without_without st1_def)
  ultimately have "clear_discontiguous_loop fuel q st = clear_discontiguous_loop n (next_ptr x) st1"
    using x n(1) by (simp add: b_def)
  also have "\<dots> = Inr (st\<lparr>allocs := without ((a # as) @ blocks st (a # as)) (allocs st),
             cells := (\<lambda>x. if x \<in> set (a # as) then None else cells st x),
             head := (if a # as = [] then head st else last (a # as))\<rparr>)"
    unfolding IH w c by (simp add: st1_def)
  finally show ?case .
qed

lemma rep_clear_discontiguous_eq:
  assumes "registry st as" and "owns st as" and "length as < fuel"
  shows "rep_clear_discontiguous fuel st =
     Inr (st\<lparr>allocs := without (as @ blocks st as) (allocs st),
             cells := (\<lambda>x. if x \<in> set as then None else cells st x),
             head := 0, tail := 0, malloc_number_of_allocations := 0\<rparr>)"
  using clear_discontiguous_loop_eq [of st 0 "head st" as fuel] assms
  by (simp add: rep_clear_discontiguous_def registry_def)

section \<open>Properties of the registry\<close>

lemma same_registry_mem [simp]:
  "same_registry st (st\<lparr>mem := m\<rparr>)"
  "same_registry st (st\<lparr>total_malloc_allocation_size := t, malloc_number_of_allocations := k\<rparr>)"
  "same_registry st (st\<lparr>malloc_number_of_allocations := k\<rparr>)"
  by (simp_all add: same_registry_def)

lemma registersI: "registry st as \<Longrightarrow> registers st (entries st as)"
  by (auto simp: registers_def)

lemma rep_append_fresh:
  assumes "registers st cs" and "fresh_block (allocs st) (alloc (allocs st) sizeof_Malloc_list) sizeof_Malloc_list"
  shows "rep_append alloc c st = Inr (appended (alloc (allocs st) sizeof_Malloc_list) c st)"
  using assms rep_append_eq by (auto simp: registers_def)

lemma appended_fields [simp]:
  "mem (appended e c st) = mem st" "allocs (appended e c st) = (e, sizeof_Malloc_list) # allocs st"
  "malloc_number_of_allocations (appended e c st) = malloc_number_of_allocations st"
  "total_malloc_allocation_size (appended e c st) = total_malloc_allocation_size st"
  "heap.more (appended e c st) = heap.more st"
  by (simp_all add: appended_def)

text \<open>
  A call \<open>rep_malloc(&v, n)\<close> whose two \<open>malloc\<close> calls succeed stores the new block in
  \<open>v\<close>, appends exactly one entry for it at the end of the registry, and counts it in
  both the number and the total size of allocations.
\<close>

lemma rep_malloc_registers:
  assumes "registers st cs" and "v \<noteq> 0"
    and "fresh_block (allocs st) p (unat n)" and "p = alloc (allocs st) (unat n)"
    and "fresh_block ((p, unat n) # allocs st) e sizeof_Malloc_list"
    and "e = alloc ((p, unat n) # allocs st) sizeof_Malloc_list"
  shows "\<exists>st'. rep_malloc alloc v n st = Inr st' \<and>
     registers st' (cs @ [\<lparr>container_address = v, linked_address = 0, allocated_address = p, msize = n\<rparr>]) \<and>
     load_addr (mem st') v = p \<and> (p, unat n) \<in> set (allocs st') \<and>
     malloc_number_of_allocations st' = malloc_number_of_allocations st + 1 \<and>
     total_malloc_allocation_size st' = total_malloc_allocation_size st + n"
proof -
  let ?c = "\<lparr>container_address = v, linked_address = 0, allocated_address = p, msize = n\<rparr>"
  define st1 where "st1 = st\<lparr>allocs := (p, unat n) # allocs st, mem := store_addr (mem st) v p,
    total_malloc_allocation_size := total_malloc_allocation_size st + n,
    malloc_number_of_allocations := malloc_number_of_allocations st + 1\<rparr>"
  have "c_malloc alloc (unat n) st = (p, st\<lparr>allocs := (p, unat n) # allocs st\<rparr>)"
    using assms(3,4) by (simp add: c_malloc_def Let_def)
  then have r: "rep_malloc alloc v n st = rep_append alloc ?c st1"
    using assms(2) by (simp add: rep_malloc_def Let_def err_simps st1_def)
  have "same_registry st st1" by (auto simp: same_registry_def st1_def)
  then have reg: "registers st1 cs" using assms(1) by (rule reg_log.same_logged)
  have app: "rep_append alloc ?c st1 = Inr (appended e ?c st1)"
    using rep_append_fresh [OF reg] assms(5,6) by (simp add: st1_def)
  then have "registers (appended e ?c st1) (cs @ [?c])"
    by (rule reg_log.push_logged [OF reg])
  then show ?thesis using r app by (simp add: st1_def)
qed

text \<open>A bump allocator and an empty process heap, for concrete runs.\<close>

definition bump :: allocator where
  "bump bl n = (case bl of [] \<Rightarrow> 4096 | (p, k) # _ \<Rightarrow> p + word_of_nat k + 16)"

definition empty_heap :: heap where
  "empty_heap = \<lparr>mem = (\<lambda>_. 0), allocs = [], cells = (\<lambda>_. None), head = 0, tail = 0,
     total_malloc_allocation_size = 0, malloc_number_of_allocations = 0, mem_state = DISCONTIGUOUS\<rparr>"

text \<open>
  \<open>rep_free\<close> of an entry that has neighbours on both sides gives its block and its list
  cell back and leaves a well-formed registry with exactly the other entries, in order.
\<close>

lemma rep_free_interior:
  assumes "registry st (as @ a # b # bs)" and "as \<noteq> []" and "length as < fuel"
    and "\<forall>c \<in> set (entries st as). container_address c \<noteq> v"
    and "cells st a = Some x" and "container_address (container x) = v"
    and "p = allocated_address (container x)" and "p \<noteq> 0" and "p \<in> fst ` set (allocs st)"
    and "p \<notin> set (as @ a # b # bs)"
  shows "\<exists>st'. rep_free fuel v st = Inr st' \<and> registry st' (as @ b # bs) \<and>
     entries st' (as @ b # bs) = entries st (as @ b # bs) \<and>
     allocs st' = without [p, a] (allocs st)"
proof -
  have d: "dllseg (cells st) 0 (head st) (as @ a # b # bs)"
    using assms(1) by (simp add: registry_def)
  have f: "rep_free fuel v st = rep_remove a (freed p st)"
    using free_loop_found [OF d assms(3,4,5,6)] assms(7,8,9) c_free_live [of p st]
    by (simp add: rep_free_def)
  have "registry (freed p st) (as @ a # b # bs)"
    using assms(1,10) by (rule registry_freed)
  then obtain st' where "rep_remove a (freed p st) = Inr st'" "registry st' (as @ b # bs)"
      "entries st' (as @ b # bs) = entries (freed p st) (as @ b # bs)"
      "allocs st' = allocs (freed a (freed p st))"
    using assms(2) by (rule rep_remove_interior)
  then show ?thesis
    using f by (auto simp: allocs_freed without_without)
qed

text \<open>A registry of three allocations for the variables at 64, 72 and 80.\<close>

definition three_heap :: heap where
  "three_heap = \<lparr>mem = (\<lambda>_. 0),
     allocs = [(4096, 8), (4112, 48), (4176, 8), (4192, 48), (4256, 8), (4272, 48)],
     cells = [4112 \<mapsto> \<lparr>container = \<lparr>container_address = 64, linked_address = 0,
                 allocated_address = 4096, msize = 8\<rparr>, next_ptr = 4192, prev_ptr = 0\<rparr>,
              4192 \<mapsto> \<lparr>container = \<lparr>container_address = 72, linked_address = 0,
                 allocated_address = 4176, msize = 8\<rparr>, next_ptr = 4272, prev_ptr = 4112\<rparr>,
              4272 \<mapsto> \<lparr>container = \<lparr>container_address = 80, linked_address = 0,
                 allocated_address = 4256, msize = 8\<rparr>, next_ptr = 0, prev_ptr = 4192\<rparr>],
     head = 4112, tail = 4272, total_malloc_allocation_size = 24,
     malloc_number_of_allocations = 3, mem_state = DISCONTIGUOUS\<rparr>"

lemma three_heap_registry: "registry three_heap [4112, 4192, 4272]"
  by (simp add: registry_def three_heap_def)

text \<open>
  C29: \<open>rep_free\<close> of the oldest entry while others remain does not move \<open>head\<close>: the list head
  is left pointing at the freed cell, and the next walk over the registry (the display
  that every heap transfer starts with) is a use after free.
\<close>

theorem rep_free_head_dangles:
  assumes "registry st (a # b # bs)" and "0 < fuel"
    and "cells st a = Some x" and "container_address (container x) = v"
    and "p = allocated_address (container x)" and "p \<noteq> 0" and "p \<in> fst ` set (allocs st)"
    and "p \<notin> set (a # b # bs)"
  shows "\<exists>st'. rep_free fuel v st = Inr st' \<and> head st' = a \<and> cells st' a = None \<and>
     rep_display (Suc n) st' = Inl Use_After_Free"
proof -
  have d: "dllseg (cells st) 0 (head st) ([] @ a # b # bs)" and ne: "a \<noteq> b"
    and al: "a \<in> fst ` set (allocs st)"
    using assms(1) by (auto simp: registry_def)
  have f: "rep_free fuel v st = rep_remove a (freed p st)"
    using free_loop_found [OF d, of fuel v x] assms c_free_live [of p st]
    by (simp add: rep_free_def entries_def)
  obtain y where y: "head st = a" "a \<noteq> 0" "prev_ptr x = 0" "next_ptr x = b" "b \<noteq> 0" "cells st b = Some y"
    using d assms(3) by (auto split: option.splits)
  define st1 where "st1 = (freed p st)\<lparr>cells := (cells st)(b \<mapsto> y\<lparr>prev_ptr := 0\<rparr>)\<rparr>"
  have "a \<in> fst ` set (allocs st1)" using al assms(8) by (auto simp: st1_def in_allocs_freed)
  then have "c_free a st1 = Inr (freed a st1)" using y(2) by (intro c_free_live)
  then have "rep_remove a (freed p st) = Inr ((freed a st1)\<lparr>cells := (cells st1)(a := None)\<rparr>)"
    using y assms(3) ne by (simp add: rep_remove_def upd_cell_def get_cell_def some_or_def
        free_cell_def st1_def)
  then show ?thesis
    using f y by (simp add: rep_display_def get_cell_def some_or_def st1_def)
qed

theorem rep_free_head_dangles_witness:
  "\<exists>st'. rep_free 9 64 three_heap = Inr st' \<and> head st' = 4112 \<and> cells st' 4112 = None \<and>
     rep_display (Suc 9) st' = Inl Use_After_Free"
  by (rule rep_free_head_dangles [OF three_heap_registry, where x = "the (cells three_heap 4112)" and p = 4096])
    (simp_all add: three_heap_def)



text \<open>
  An entry made by \<open>rep_assign_malloc_context\<close> shares its block with the source entry,
  so clearing a registry of one allocation and one such alias frees the block twice.
\<close>

lemma clear_aliased_double_free:
  assumes "registry st [a, b]" and "cells st a = Some x" and "cells st b = Some y"
    and "allocated_address (container x) = p" and "allocated_address (container y) = p"
    and "p \<noteq> 0" and "p \<in> fst ` set (allocs st)" and "p \<notin> {a, b}"
  shows "rep_clear_discontiguous (Suc (Suc n)) st = Inl Bad_Free"
proof -
  have h: "head st = a" "a \<noteq> 0" "next_ptr x = b" "b \<noteq> 0" "a \<noteq> b" "a \<in> fst ` set (allocs st)"
    using assms(1-3) by (auto simp: registry_def)
  have 1: "c_free p (st\<lparr>head := a\<rparr>) = Inr (freed p (st\<lparr>head := a\<rparr>))"
    using assms by (intro c_free_live) auto
  have 2: "c_free a (freed p (st\<lparr>head := a\<rparr>)) = Inr (freed a (freed p (st\<lparr>head := a\<rparr>)))"
    using h assms(8) by (intro c_free_live) (auto simp: in_allocs_freed)
  let ?s = "(freed a (freed p (st\<lparr>head := a\<rparr>)))\<lparr>cells := (cells st)(a := None), head := b\<rparr>"
  have "p \<notin> fst ` set (allocs (freed a (freed p (st\<lparr>head := a\<rparr>))))"
    by (simp add: in_allocs_freed)
  then have 3: "c_free p ?s = Inl Bad_Free" using assms(6) by (simp add: c_free_def)
  show ?thesis
    using 1 2 3 h assms(2-5)
    by (simp add: rep_clear_discontiguous_def get_cell_def some_or_def free_cell_def)
qed

definition alias_heap :: heap where
  "alias_heap = three_heap\<lparr>cells := [4112 \<mapsto> \<lparr>container = \<lparr>container_address = 64, linked_address = 0,
                 allocated_address = 4096, msize = 8\<rparr>, next_ptr = 4192, prev_ptr = 0\<rparr>,
              4192 \<mapsto> \<lparr>container = \<lparr>container_address = 72, linked_address = 64,
                 allocated_address = 4096, msize = 0\<rparr>, next_ptr = 0, prev_ptr = 4112\<rparr>],
     tail := 4192, malloc_number_of_allocations := 2\<rparr>"

lemma clear_aliased_double_free_witness:
  "rep_clear_discontiguous (Suc (Suc 7)) alias_heap = Inl Bad_Free"
  by (rule clear_aliased_double_free [of alias_heap 4112 4192
        "the (cells alias_heap 4112)" "the (cells alias_heap 4192)" 4096])
    (simp_all add: alias_heap_def three_heap_def registry_def)

end
