(* ===== verification/Heap_Transfer.thy ===== *)
theory Heap_Transfer
  imports Heapseg
begin

text \<open>
  \<open>transfer_heap_seg\<close> of \<open>src/replication/heapseg.c\<close>: the broadcast of the registered
  allocations from the sender (rank 0 of the job communicator) to a replica. One definition
  covers both roles, as in the code; the lemmas run the sender, feed what it broadcast to a
  receiver and compare the two heaps.
\<close>

section \<open>The transfer of the heap segment\<close>

text \<open>
  One pass of the loop per registered allocation. \<open>temp\<close> and \<open>cont\<close> are the locals of the
  C function; on the root \<open>cont\<close> never gets an \<open>allocated_address\<close>, so whatever was on the
  stack is broadcast with it.
\<close>

primrec transfer_loop :: "allocator \<Rightarrow> nat \<Rightarrow> nat \<Rightarrow> address \<Rightarrow> Malloc_container \<Rightarrow>
    byte list list \<Rightarrow> 'a heap_scheme \<Rightarrow> ('a heap_scheme \<times> byte list list \<times> byte list list) result" where
  "transfer_loop alloc me 0 temp cont rx st = Inr (st, rx, [])"
| "transfer_loop alloc me (Suc n) temp cont rx st =
     bindE (if me = 0
            then bindE (get_cell temp st) (\<lambda>x.
                   Inr (cont\<lparr>container_address := container_address (container x),
                             linked_address := linked_address (container x),
                             msize := msize (container x)\<rparr>, next_ptr x))
            else Inr (cont, temp))
       (\<lambda>(cont1, temp1).
     bindE (PMPI_Bcast me (enc_container cont1) rx) (\<lambda>(cbytes, rx1, tx1).
       let cont2 = dec_container cbytes
       in if msize cont2 = 0 \<and> linked_address cont2 \<noteq> 0
          then bindE (if me \<noteq> 0
                      then bindE (guardE (container_address cont2 \<noteq> 0) Null_Deref) (\<lambda>_.
                             Inr (st\<lparr>mem := store_addr (mem st) (container_address cont2)
                                       (load_addr (mem st) (linked_address cont2))\<rparr>))
                      else Inr st)
                 (\<lambda>st1. bindE (transfer_loop alloc me n temp1 cont2 rx1 st1)
                          (\<lambda>(st2, rx2, tx2). Inr (st2, rx2, tx1 @ tx2)))
          else
            bindE (guardE (container_address cont2 \<noteq> 0) Null_Deref) (\<lambda>_.
            case (if me = 0 then (load_addr (mem st) (container_address cont2), st)
                  else c_malloc alloc (unat (msize cont2)) st) of (heap_start, st1) \<Rightarrow>
            bindE (guardE (heap_start \<noteq> 0 \<or> msize cont2 = 0) Null_Deref) (\<lambda>_.
            bindE (guardE (0 \<le> int_count (msize cont2)) (Abort_With 300)) (\<lambda>_.
            bindE (PMPI_Bcast me (read_bytes (mem st1) heap_start (nat (int_count (msize cont2)))) rx1)
              (\<lambda>(hbytes, rx2, tx2).
            bindE (if me \<noteq> 0
                   then let m1 = write_bytes (mem st1) heap_start hbytes;
                            m2 = store_addr m1 (container_address cont2) heap_start;
                            cont3 = cont2\<lparr>allocated_address := load_addr m2 (container_address cont2)\<rparr>
                        in bindE (rep_append alloc cont3 (st1\<lparr>mem := m2\<rparr>)) (\<lambda>st2. Inr (st2, cont3))
                   else Inr (st1, cont2))
              (\<lambda>(st2, cont3).
                 bindE (transfer_loop alloc me n temp1 cont3 rx2 st2)
                   (\<lambda>(st3, rx3, tx3). Inr (st3, rx3, tx1 @ tx2 @ tx3)))))))))"

text \<open>
  The whole transfer on the process of rank \<open>me\<close> in \<open>job_comm\<close>. The total size is a
  \<open>size_t\<close> broadcast as one \<open>MPI_INT\<close>: its low four bytes travel.
\<close>

definition transfer_heap_seg :: "allocator \<Rightarrow> nat \<Rightarrow> Malloc_container \<Rightarrow> 'a heap_scheme phase" where
  "transfer_heap_seg alloc fuel cont me rx st =
     (let temp = head st; total = enc_addr (total_malloc_allocation_size st)
      in bindE (PMPI_Bcast me (take 4 total) rx) (\<lambda>(tbytes, rx1, tx1).
         let st1 = st\<lparr>total_malloc_allocation_size := dec_addr (tbytes @ drop 4 total)\<rparr>
         in bindE (if me \<noteq> 0
                   then (if mem_state st1 = CONTIGUOUS then rep_clear fuel st1
                         else rep_clear_discontiguous fuel st1)
                   else Inr st1) (\<lambda>st2.
            bindE (rep_display fuel st2) (\<lambda>_.
            bindE (PMPI_Bcast me (enc_int (malloc_number_of_allocations st2)) rx1) (\<lambda>(nbytes, rx2, tx2).
            let st3 = st2\<lparr>malloc_number_of_allocations := dec_int nbytes\<rparr>
            in bindE (transfer_loop alloc me (nat (sint (malloc_number_of_allocations st3))) temp cont rx2 st3)
                 (\<lambda>(st4, rx3, tx3). Inr (st4, rx3, tx1 @ tx2 @ tx3)))))))"

section \<open>What the sender broadcasts\<close>

definition is_link :: "Malloc_container \<Rightarrow> bool" where
  "is_link c \<longleftrightarrow> msize c = 0 \<and> linked_address c \<noteq> 0"

interpretation cont_codec: codec enc_container dec_container 32
  by unfold_locales (simp_all add: enc_container_def dec_container_def enc_simps)

lemmas cont_codec_bytes [enc_simps] = cont_codec.enc_length cont_codec.dec_enc

text \<open>The bytes of one entry: its description and, unless it is an alias, its block.\<close>

definition payload :: "address \<Rightarrow> (address \<Rightarrow> byte) \<Rightarrow> Malloc_container \<Rightarrow> byte list list" where
  "payload g m c = enc_container (c\<lparr>allocated_address := g\<rparr>) #
     (if is_link c then [] else [read_bytes m (load_addr m (container_address c)) (unat (msize c))])"

definition sendable :: "(address \<Rightarrow> byte) \<Rightarrow> Malloc_container \<Rightarrow> bool" where
  "sendable m c \<longleftrightarrow> container_address c \<noteq> 0 \<and> unat (msize c) < 2147483648 \<and>
     (is_link c \<or> load_addr m (container_address c) \<noteq> 0 \<or> msize c = 0)"

lemma sender_loop:
  assumes "dllseg (cells st) p q as" and "list_all (sendable (mem st)) (entries st as)"
  shows "transfer_loop alloc 0 (length as) q cont rx st =
     Inr (st, rx, concat (map (payload (allocated_address cont) (mem st)) (entries st as)))"
  using assms
proof (induction as arbitrary: p q cont)
  case Nil
  then show ?case by (simp add: entries_def)
next
  case (Cons a as)
  obtain x where x: "q = a" "a \<noteq> 0" "get_cell a st = Inr x" "cells st a = Some x"
      "dllseg (cells st) a (next_ptr x) as"
    using Cons.prems(1) by (rule dllseg_step)
  let ?c = "(container x)\<lparr>allocated_address := allocated_address cont\<rparr>"
  have e: "entries st (a # as) = container x # entries st as"
    using x(4) by (simp add: entries_def)
  have IH: "transfer_loop alloc 0 (length as) (next_ptr x) ?c rx st =
     Inr (st, rx, concat (map (payload (allocated_address cont) (mem st)) (entries st as)))"
    using Cons.IH [OF x(5), of ?c] Cons.prems(2) e by simp
  have c: "cont\<lparr>container_address := container_address (container x),
        linked_address := linked_address (container x), msize := msize (container x)\<rparr> = ?c"
    by simp
  show ?case
    using x IH Cons.prems(2)
    by (auto simp: e c payload_def [of _ _ "container x"] sendable_def [of _ "container x"]
        is_link_def enc_simps err_simps)
qed

section \<open>What the receiver builds\<close>

text \<open>The effect of one received entry on the replica's state.\<close>

definition install :: "allocator \<Rightarrow> (address \<Rightarrow> byte) \<Rightarrow> Malloc_container \<Rightarrow> 'a heap_scheme \<Rightarrow> 'a heap_scheme" where
  "install alloc m c st =
     (if is_link c
      then st\<lparr>mem := store_addr (mem st) (container_address c) (load_addr (mem st) (linked_address c))\<rparr>
      else let n = unat (msize c); q = alloc (allocs st) n;
               st1 = st\<lparr>allocs := (q, n) # allocs st,
                 mem := store_addr (write_bytes (mem st) q
                   (read_bytes m (load_addr m (container_address c)) n)) (container_address c) q\<rparr>
           in appended (alloc (allocs st1) sizeof_Malloc_list) (c\<lparr>allocated_address := q\<rparr>) st1)"

text \<open>The requests a list of entries makes to the receiver's allocator, all granted.\<close>

definition requests :: "Malloc_container list \<Rightarrow> nat list" where
  "requests cs = concat (map (\<lambda>c. if is_link c then [] else [unat (msize c), sizeof_Malloc_list]) cs)"

primrec grow :: "allocator \<Rightarrow> (address \<times> nat) list \<Rightarrow> nat list \<Rightarrow> (address \<times> nat) list" where
  "grow alloc bl [] = bl"
| "grow alloc bl (n # ns) = grow alloc ((alloc bl n, n) # bl) ns"

primrec supplies :: "allocator \<Rightarrow> (address \<times> nat) list \<Rightarrow> nat list \<Rightarrow> bool" where
  "supplies alloc bl [] \<longleftrightarrow> True"
| "supplies alloc bl (n # ns) \<longleftrightarrow>
     fresh_block bl (alloc bl n) n \<and> supplies alloc ((alloc bl n, n) # bl) ns"

lemma supplies_append:
  "supplies alloc bl (ns @ ks) \<longleftrightarrow> supplies alloc bl ns \<and> supplies alloc (grow alloc bl ns) ks"
  by (induction ns arbitrary: bl) auto

lemma grow_append: "grow alloc bl (ns @ ks) = grow alloc (grow alloc bl ns) ks"
  by (induction ns arbitrary: bl) auto

lemma install_allocs: "allocs (install alloc m c st) = grow alloc (allocs st) (requests [c])"
  by (simp add: install_def requests_def Let_def)

lemma fold_install_allocs:
  "allocs (fold (install alloc m) cs st) = grow alloc (allocs st) (requests cs)"
proof (induction cs arbitrary: st)
  case Nil
  then show ?case by (simp add: requests_def)
next
  case (Cons c cs)
  have "requests (c # cs) = requests [c] @ requests cs" by (simp add: requests_def)
  then show ?case using Cons by (simp add: install_allocs grow_append)
qed

lemma install_registers:
  assumes "registers st cs" and "supplies alloc (allocs st) (requests [c])"
  shows "registers (install alloc m c st)
     (cs @ (if is_link c then [] else [c\<lparr>allocated_address := alloc (allocs st) (unat (msize c))\<rparr>]))"
proof (cases "is_link c")
  case True
  have "same_registry st (install alloc m c st)"
    using True by (simp add: install_def)
  then show ?thesis using True assms(1) by (auto intro: reg_log.same_logged)
next
  case False
  let ?n = "unat (msize c)"
  let ?q = "alloc (allocs st) ?n"
  define st1 where "st1 = st\<lparr>allocs := (?q, ?n) # allocs st,
      mem := store_addr (write_bytes (mem st) ?q
        (read_bytes m (load_addr m (container_address c)) ?n)) (container_address c) ?q\<rparr>"
  have "same_registry st st1" by (auto simp: same_registry_def st1_def)
  then have r: "registers st1 cs" using assms(1) by (rule reg_log.same_logged)
  have "fresh_block (allocs st1) (alloc (allocs st1) sizeof_Malloc_list) sizeof_Malloc_list"
    using assms(2) False by (simp add: requests_def st1_def)
  then have "rep_append alloc (c\<lparr>allocated_address := ?q\<rparr>) st1
      = Inr (appended (alloc (allocs st1) sizeof_Malloc_list) (c\<lparr>allocated_address := ?q\<rparr>) st1)"
    by (rule rep_append_fresh [OF r])
  then have "registers (appended (alloc (allocs st1) sizeof_Malloc_list) (c\<lparr>allocated_address := ?q\<rparr>) st1)
      (cs @ [c\<lparr>allocated_address := ?q\<rparr>])"
    by (rule reg_log.push_logged [OF r])
  then show ?thesis using False by (simp add: install_def st1_def Let_def)
qed

definition describes :: "Malloc_container \<Rightarrow> bool" where
  "describes c \<longleftrightarrow> container_address c \<noteq> 0 \<and> unat (msize c) < 2147483648"

lemma receive_one:
  assumes "me \<noteq> 0" and "registers st ds" and "supplies alloc (allocs st) (requests [c])"
    and "describes c"
  shows "\<exists>cont'. transfer_loop alloc me (Suc n) temp cont (payload g m c @ rx) st =
     transfer_loop alloc me n temp cont' rx (install alloc m c st)"
proof (cases "is_link c")
  case True
  then show ?thesis
    using assms(1,4) by (intro exI [of _ "c\<lparr>allocated_address := g\<rparr>"])
      (auto simp: describes_def payload_def is_link_def install_def enc_simps err_simps)
next
  case False
  let ?n = "unat (msize c)"
  let ?q = "alloc (allocs st) ?n"
  define bs where "bs = read_bytes m (load_addr m (container_address c)) ?n"
  define st1 where "st1 = st\<lparr>allocs := (?q, ?n) # allocs st,
      mem := store_addr (write_bytes (mem st) ?q bs) (container_address c) ?q\<rparr>"
  have f: "fresh_block (allocs st) ?q ?n" "?q \<noteq> 0"
    "fresh_block (allocs st1) (alloc (allocs st1) sizeof_Malloc_list) sizeof_Malloc_list"
    using assms(3) False by (auto simp: requests_def st1_def fresh_block_def)
  have "same_registry st st1" by (auto simp: same_registry_def st1_def)
  then have "registers st1 ds" using assms(2) by (rule reg_log.same_logged)
  then have "rep_append alloc (c\<lparr>allocated_address := ?q\<rparr>) st1
      = Inr (appended (alloc (allocs st1) sizeof_Malloc_list) (c\<lparr>allocated_address := ?q\<rparr>) st1)"
    using f(3) by (rule rep_append_fresh)
  moreover have "c_malloc alloc ?n st = (?q, st\<lparr>allocs := (?q, ?n) # allocs st\<rparr>)"
    using f(1) by (simp add: c_malloc_def Let_def)
  ultimately show ?thesis
    using assms(1,4) False f(2) unfolding bs_def st1_def
    by (intro exI [of _ "c\<lparr>allocated_address := ?q\<rparr>"], cases "msize c = 0")
      (simp_all add: describes_def payload_def is_link_def install_def Let_def enc_simps err_simps)
qed

lemma receiver_loop:
  assumes "me \<noteq> 0" and "registers st ds" and "supplies alloc (allocs st) (requests cs)"
    and "list_all describes cs"
  shows "transfer_loop alloc me (length cs) temp cont (concat (map (payload g m) cs) @ rest) st =
     Inr (fold (install alloc m) cs st, rest, [])"
  using assms
proof (induction cs arbitrary: st ds cont)
  case Nil
  then show ?case by simp
next
  case (Cons c cs)
  have sup: "supplies alloc (allocs st) (requests [c])"
    "supplies alloc (allocs (install alloc m c st)) (requests cs)"
    using Cons.prems(3) supplies_append [of alloc "allocs st" "requests [c]" "requests cs"]
    by (simp_all add: requests_def install_allocs)
  have "describes c" using Cons.prems(4) by simp
  then obtain cont' where "transfer_loop alloc me (Suc (length cs)) temp cont
      (payload g m c @ concat (map (payload g m) cs) @ rest) st =
      transfer_loop alloc me (length cs) temp cont' (concat (map (payload g m) cs) @ rest) (install alloc m c st)"
    using receive_one [OF Cons.prems(1,2) sup(1)] by blast
  then have "transfer_loop alloc me (length (c # cs)) temp cont
      (concat (map (payload g m) (c # cs)) @ rest) st =
      transfer_loop alloc me (length cs) temp cont' (concat (map (payload g m) cs) @ rest) (install alloc m c st)"
    by (simp only: length_Cons list.map concat.simps append_assoc)
  also have "\<dots> = Inr (fold (install alloc m) cs (install alloc m c st), rest, [])"
    using Cons.prems install_registers [OF Cons.prems(2) sup(1)] sup(2)
    by (intro Cons.IH) auto
  finally show ?case by simp
qed

section \<open>The two heaps agree\<close>

text \<open>
  The allocator of the receiver keeps clear of the pointer variables \<open>A\<close> (they live in the
  data segment and on the stack).
\<close>

definition alloc_avoids :: "allocator \<Rightarrow> address list \<Rightarrow> bool" where
  "alloc_avoids alloc A \<longleftrightarrow>
     (\<forall>bl n. fresh_block bl (alloc bl n) n \<longrightarrow> list_all (\<lambda>a. apart (alloc bl n) n a 8) A)"

text \<open>
  Entry \<open>c\<close> has arrived: an alias points where its source points; any other variable points
  at a live block of the entry's size with the sender's bytes.
\<close>

definition arrived :: "address list \<Rightarrow> (address \<Rightarrow> byte) \<Rightarrow> 'a heap_scheme \<Rightarrow> Malloc_container \<Rightarrow> bool" where
  "arrived A m st c \<longleftrightarrow>
     (if is_link c
      then load_addr (mem st) (container_address c) = load_addr (mem st) (linked_address c)
      else let p = load_addr (mem st) (container_address c); n = unat (msize c)
           in (p, n) \<in> set (allocs st) \<and> list_all (\<lambda>a. apart p n a 8) A \<and>
              read_bytes (mem st) p n = read_bytes m (load_addr m (container_address c)) n)"

text \<open>Distinct variables, and every alias is recorded after its source.\<close>

definition fits_after :: "Malloc_container list \<Rightarrow> Malloc_container \<Rightarrow> bool" where
  "fits_after ds c \<longleftrightarrow>
     list_all (\<lambda>d. apart (container_address c) 8 (container_address d) 8) ds \<and>
     (is_link c \<longrightarrow> list_ex (\<lambda>d. linked_address c = container_address d) ds)"

primrec ordered_from :: "Malloc_container list \<Rightarrow> Malloc_container list \<Rightarrow> bool" where
  "ordered_from ds [] \<longleftrightarrow> True"
| "ordered_from ds (c # cs) \<longleftrightarrow> fits_after ds c \<and> ordered_from (ds @ [c]) cs"

lemma ordered_from_snoc:
  "ordered_from ds (cs @ [c]) \<longleftrightarrow> ordered_from ds cs \<and> fits_after (ds @ cs) c"
  by (induction cs arbitrary: ds) auto

lemma ordered_links:
  "ordered_from [] cs \<Longrightarrow> d \<in> set cs \<Longrightarrow> is_link d \<Longrightarrow>
   linked_address d \<in> container_address ` set cs"
  by (induction cs rule: rev_induct) (auto simp: ordered_from_snoc fits_after_def list_ex_iff)

text \<open>Entries that have arrived stay so while later entries are installed.\<close>

lemma arrived_store:
  assumes "arrived A m st d" and "b \<in> set A" and "apart b 8 (container_address d) 8"
    and "is_link d \<Longrightarrow> apart b 8 (linked_address d) 8"
  shows "arrived A m (st\<lparr>mem := store_addr (mem st) b v\<rparr>) d"
proof (cases "is_link d")
  case True
  with assms show ?thesis by (simp add: arrived_def load_store_apart)
next
  case False
  let ?p = "load_addr (mem st) (container_address d)"
  have "apart ?p (unat (msize d)) b 8"
    using assms(1,2) False by (auto simp: arrived_def Let_def list_all_iff)
  then have "apart b 8 ?p (unat (msize d))" by (rule apart_sym)
  with False assms show ?thesis
    by (simp add: arrived_def load_store_apart read_store_apart Let_def)
qed

lemma arrived_block:
  assumes "arrived A m st d" and "fresh_block (allocs st) q n" and "length bs = n"
    and "list_all (\<lambda>a. apart q n a 8) A" and "container_address d \<in> set A"
    and "is_link d \<Longrightarrow> linked_address d \<in> set A"
  shows "arrived A m (st\<lparr>allocs := (q, n) # allocs st, mem := write_bytes (mem st) q bs\<rparr>) d"
proof -
  have v: "load_addr (write_bytes (mem st) q bs) a = load_addr (mem st) a" if "a \<in> set A" for a
    using that assms(3,4) by (simp add: load_write_apart list_all_iff)
  show ?thesis
  proof (cases "is_link d")
    case True
    with assms v show ?thesis by (simp add: arrived_def)
  next
    case False
    let ?p = "load_addr (mem st) (container_address d)"
    have "(?p, unat (msize d)) \<in> set (allocs st)"
      using assms(1) False by (simp add: arrived_def Let_def)
    then have "apart q n ?p (unat (msize d))"
      using assms(2) by (auto simp: fresh_block_def list_all_iff)
    with False assms v show ?thesis
      by (simp add: arrived_def Let_def read_write_apart)
  qed
qed

lemma arrived_cong:
  "mem st = mem st' \<Longrightarrow> set (allocs st) \<subseteq> set (allocs st') \<Longrightarrow> arrived A m st d \<Longrightarrow> arrived A m st' d"
  by (auto simp: arrived_def Let_def split: if_splits)

text \<open>Installing an entry: the entry arrives, earlier ones are undisturbed.\<close>

lemma install_arrived:
  assumes avoid: "alloc_avoids alloc A" and sup: "supplies alloc (allocs st) (requests [c])"
    and A: "container_address c \<in> set A" "\<And>d. d \<in> set ds \<Longrightarrow> container_address d \<in> set A"
    and fit: "fits_after ds c" and ds: "ordered_from [] ds"
    and old: "\<And>d. d \<in> set ds \<Longrightarrow> arrived A m st d"
  shows "\<And>d. d \<in> set (ds @ [c]) \<Longrightarrow> arrived A m (install alloc m c st) d"
    and "\<And>a. a \<in> set A \<Longrightarrow> apart (container_address c) 8 a 8 \<Longrightarrow>
       load_addr (mem (install alloc m c st)) a = load_addr (mem st) a"
    and "\<not> is_link c \<Longrightarrow> load_addr (mem (install alloc m c st)) (container_address c)
       = alloc (allocs st) (unat (msize c))"
proof -
  let ?b = "container_address c"
  let ?n = "unat (msize c)"
  let ?q = "alloc (allocs st) ?n"
  let ?bs = "read_bytes m (load_addr m ?b) ?n"
  have off: "apart ?b 8 (container_address d) 8" if "d \<in> set ds" for d
    using fit that by (auto simp: fits_after_def list_all_iff)
  have link: "apart ?b 8 (linked_address d) 8" "linked_address d \<in> set A" if "d \<in> set ds" "is_link d" for d
    using ordered_links [OF ds that] off A(2) by auto
  have block: "fresh_block (allocs st) ?q ?n" "list_all (\<lambda>a. apart ?q ?n a 8) A" if "\<not> is_link c"
    using that sup avoid by (auto simp: requests_def alloc_avoids_def)
  define st1 where "st1 = st\<lparr>allocs := (?q, ?n) # allocs st, mem := write_bytes (mem st) ?q ?bs\<rparr>"
  have m: "mem (install alloc m c st) = (if is_link c
      then store_addr (mem st) ?b (load_addr (mem st) (linked_address c)) else store_addr (mem st1) ?b ?q)"
    by (simp add: install_def st1_def Let_def)
  have al: "set (allocs st1) \<subseteq> set (allocs (install alloc m c st))" if "\<not> is_link c"
    using that by (auto simp: install_def st1_def Let_def)
  show 2: "load_addr (mem (install alloc m c st)) a = load_addr (mem st) a"
    if "a \<in> set A" "apart ?b 8 a 8" for a
    using that block by (simp add: m load_store_apart st1_def load_write_apart list_all_iff)
  show 3: "load_addr (mem (install alloc m c st)) ?b = ?q" if "\<not> is_link c"
    using that by (simp add: m)
  show "arrived A m (install alloc m c st) d" if d: "d \<in> set (ds @ [c])" for d
  proof (cases "is_link c")
    case True
    then obtain e where e: "e \<in> set ds" "linked_address c = container_address e"
      using fit by (auto simp: fits_after_def list_ex_iff)
    have "arrived A m (install alloc m c st) c"
      using True e off by (simp add: arrived_def m load_store_apart)
    moreover have "arrived A m (install alloc m c st) d" if "d \<in> set ds"
      using True arrived_store [OF old [OF that] A(1) off [OF that]] link that
      by (simp add: install_def)
    ultimately show ?thesis using d by auto
  next
    case False
    have q: "apart ?q ?n ?b 8" using block [OF False] A(1) by (simp add: list_all_iff)
    have "read_bytes (store_addr (mem st1) ?b ?q) ?q ?n = ?bs"
      using apart_sym [OF q] unat_addr_less [of "msize c"]
      by (simp add: read_store_apart st1_def read_write_bytes)
    then have "arrived A m (install alloc m c st) c"
      using False block al by (auto simp: arrived_def m Let_def st1_def)
    moreover have "arrived A m (install alloc m c st) d" if "d \<in> set ds"
    proof -
      have "arrived A m st1 d"
        unfolding st1_def using block [OF False] A(2) link(2) that
        by (intro arrived_block old) auto
      then have "arrived A m (st1\<lparr>mem := store_addr (mem st1) ?b ?q\<rparr>) d"
        using A(1) off link(1) that by (intro arrived_store) auto
      then show ?thesis
        by (rule arrived_cong [rotated 2]) (use False al in \<open>auto simp: m\<close>)
    qed
    ultimately show ?thesis using d by auto
  qed
qed

text \<open>The registry entry the receiver makes for \<open>c\<close>, read off its final memory.\<close>

definition entry_at :: "(address \<Rightarrow> byte) \<Rightarrow> Malloc_container \<Rightarrow> Malloc_container" where
  "entry_at m c = c\<lparr>allocated_address := load_addr m (container_address c)\<rparr>"

lemma requests_snoc: "requests (cs @ [c]) = requests cs @ requests [c]"
  by (simp add: requests_def)

lemma install_all:
  assumes "alloc_avoids alloc A" and "supplies alloc (allocs st) (requests cs)"
    and "set A = container_address ` set cs \<union> B" and "ordered_from [] cs" and "registers st ds"
  shows "(\<forall>c \<in> set cs. arrived A m (fold (install alloc m) cs st) c) \<and>
     registers (fold (install alloc m) cs st)
       (ds @ map (entry_at (mem (fold (install alloc m) cs st))) (filter (\<lambda>c. \<not> is_link c) cs))"
  using assms(2-4)
proof (induction cs arbitrary: B rule: rev_induct)
  case Nil
  then show ?case using assms(5) by simp
next
  case (snoc c cs)
  define st1 where "st1 = fold (install alloc m) cs st"
  have sup: "supplies alloc (allocs st) (requests cs)" "supplies alloc (allocs st1) (requests [c])"
    using snoc.prems(1) by (auto simp: requests_snoc supplies_append fold_install_allocs st1_def)
  have ord: "ordered_from [] cs" "fits_after cs c"
    using snoc.prems(3) by (auto simp: ordered_from_snoc)
  have A: "set A = container_address ` set cs \<union> (insert (container_address c) B)"
    using snoc.prems(2) by auto
  have IH: "\<forall>c \<in> set cs. arrived A m st1 c"
    "registers st1 (ds @ map (entry_at (mem st1)) (filter (\<lambda>c. \<not> is_link c) cs))"
    using snoc.IH [OF sup(1) A ord(1)] by (auto simp: st1_def)
  note step = install_arrived [OF assms(1) sup(2), where ds = cs and m = m, OF _ _ ord(2,1)]
  have arr: "\<forall>d \<in> set (cs @ [c]). arrived A m (install alloc m c st1) d"
    using step(1) A IH(1) by auto
  have "entry_at (mem (install alloc m c st1)) d = entry_at (mem st1) d" if "d \<in> set cs" for d
    using step(2) A IH(1) ord(2) that by (auto simp: entry_at_def fits_after_def list_all_iff)
  then have old: "map (entry_at (mem (install alloc m c st1))) (filter (\<lambda>c. \<not> is_link c) cs)
      = map (entry_at (mem st1)) (filter (\<lambda>c. \<not> is_link c) cs)"
    by simp
  have new: "entry_at (mem (install alloc m c st1)) c
      = c\<lparr>allocated_address := alloc (allocs st1) (unat (msize c))\<rparr>" if "\<not> is_link c"
    using step(3) A IH(1) that by (auto simp: entry_at_def)
  show ?case
    using arr install_registers [OF IH(2) sup(2), of m]
    by (cases "is_link c") (simp_all add: old new st1_def [symmetric] del: map_eq_conv)
qed

section \<open>The transfer as a whole\<close>

lemma transfer_root:
  assumes "registry st as" and "length as < fuel"
  shows "transfer_heap_seg alloc fuel cont 0 rx st =
     bindE (transfer_loop alloc 0 (nat (sint (malloc_number_of_allocations st))) (head st) cont rx st)
       (\<lambda>(st', rx', tx). Inr (st', rx', [take 4 (enc_addr (total_malloc_allocation_size st)),
               enc_int (malloc_number_of_allocations st)] @ tx))"
  using display_loop_eq [of st 0 "head st" as fuel] assms
  by (simp add: transfer_heap_seg_def rep_display_def registry_def enc_simps Let_def)

lemma transfer_sender:
  assumes "registry st as" and "nat (sint (malloc_number_of_allocations st)) = length as"
    and "list_all (sendable (mem st)) (entries st as)" and "length as < fuel"
  shows "transfer_heap_seg alloc fuel cont 0 rx st =
     Inr (st, rx, [take 4 (enc_addr (total_malloc_allocation_size st)),
               enc_int (malloc_number_of_allocations st)]
              @ concat (map (payload (allocated_address cont) (mem st)) (entries st as)))"
  using transfer_root [OF assms(1,4)] sender_loop [of st 0 "head st" as alloc cont rx] assms
  by (simp add: registry_def)

text \<open>
  The receiver's state once its old registry is gone: the registry is empty, the
  framework counters hold what the two first broadcasts carried.
\<close>

definition cleared :: "address list \<Rightarrow> 64 word \<Rightarrow> 32 word \<Rightarrow> 'a heap_scheme \<Rightarrow> 'a heap_scheme" where
  "cleared bs t k st = st\<lparr>total_malloc_allocation_size := t,
     allocs := without (bs @ blocks st bs) (allocs st),
     cells := (\<lambda>x. if x \<in> set bs then None else cells st x), head := 0, tail := 0,
     malloc_number_of_allocations := k\<rparr>"

lemma transfer_receiver:
  assumes "me \<noteq> 0" and "registry st bs" and "owns st bs" and "length bs < fuel"
    and "mem_state st = DISCONTIGUOUS" and "nat (sint k) = length cs" and "length t = 4"
    and "supplies alloc (without (bs @ blocks st bs) (allocs st)) (requests cs)"
    and "list_all describes cs"
  shows "transfer_heap_seg alloc fuel cont me (([t, enc_int k] @ concat (map (payload g m) cs)) @ rest) st =
     Inr (fold (install alloc m) cs
       (cleared bs (dec_addr (t @ drop 4 (enc_addr (total_malloc_allocation_size st)))) k st), rest, [])"
proof -
  let ?t = "dec_addr (t @ drop 4 (enc_addr (total_malloc_allocation_size st)))"
  let ?st1 = "st\<lparr>total_malloc_allocation_size := ?t\<rparr>"
  have b: "blocks ?st1 bs = blocks st bs" by (simp add: blocks_def entries_def)
  have "registry ?st1 bs" "owns ?st1 bs"
    using assms(2,3) by (simp_all add: registry_def owns_def b)
  then have c: "rep_clear_discontiguous fuel ?st1 = Inr (cleared bs ?t 0 st)"
    using assms(4) rep_clear_discontiguous_eq [of ?st1 bs fuel] by (simp add: cleared_def b cong: if_cong)
  obtain f where "fuel = Suc f" using assms(4) by (cases fuel) auto
  then have d: "rep_display fuel (cleared bs ?t 0 st) = Inr []"
    by (simp add: rep_display_def cleared_def)
  have "registers (cleared bs ?t k st) []"
    by (auto simp: registers_def entries_def registry_Nil cleared_def intro!: exI [of _ "[]"])
  then have l: "transfer_loop alloc me (length cs) (head st) cont (concat (map (payload g m) cs) @ rest)
      (cleared bs ?t k st) = Inr (fold (install alloc m) cs (cleared bs ?t k st), rest, [])"
    using assms(1,8,9) by (intro receiver_loop) (auto simp: cleared_def)
  have "(cleared bs ?t 0 st)\<lparr>malloc_number_of_allocations := k\<rparr> = cleared bs ?t k st"
    by (simp add: cleared_def)
  then show ?thesis
    using c d l assms(1,5,6,7)
    by (simp add: transfer_heap_seg_def enc_simps Let_def)
qed

text \<open>
  Of the \<open>size_t\<close> total, the first broadcast carries the low 32 bits: the receiver ends with
  the sender's total modulo \<open>2^32\<close> plus its own old high half.
\<close>

lemma total_low_half:
  "unat (dec_addr (take 4 (enc_addr s) @ drop 4 (enc_addr r)))
     = unat s mod 2 ^ 32 + 2 ^ 32 * (unat r div 2 ^ 32)"
proof -
  let ?v = "unat s mod 4294967296 + 4294967296 * (unat r div 4294967296)"
  have r: "unat r div 4294967296 < 4294967296" using unat_addr_less [of r] by (simp add: less_mult_imp_div_less)
  have "nat_of_bytes (take 4 (enc_addr s) @ drop 4 (enc_addr r)) = ?v"
    using r by (simp add: enc_addr_def take_bytes_of_nat drop_bytes_of_nat nat_of_bytes_append
        nat_of_bytes_of_nat)
  moreover have "?v < 18446744073709551616"
  proof -
    have "unat s mod 4294967296 < 4294967296" by simp
    then show ?thesis using r by linarith
  qed
  ultimately show ?thesis by (simp only: dec_addr_def unat_of_nat) simp
qed

lemma fold_install_counters:
  "total_malloc_allocation_size (fold (install alloc m) cs st) = total_malloc_allocation_size st"
  "malloc_number_of_allocations (fold (install alloc m) cs st) = malloc_number_of_allocations st"
  "heap.more (fold (install alloc m) cs st) = heap.more st"
  by (induction cs arbitrary: st) (simp_all add: install_def Let_def)

text \<open>The addresses a heap transfer leaves alone: no pointer variable, no live block.\<close>

definition spared :: "Malloc_container list \<Rightarrow> (address \<times> nat) list \<Rightarrow> address \<Rightarrow> bool" where
  "spared cs bl x \<longleftrightarrow> list_all (\<lambda>c. 8 \<le> unat (x - container_address c)) cs \<and>
     list_all (\<lambda>(q, n). n \<le> unat (x - q)) bl"

lemma grow_mono: "set bl \<subseteq> set (grow alloc bl ns)"
  by (induction ns arbitrary: bl) (simp, fastforce)

lemma install_spared:
  "spared [c] (allocs (install alloc m c st)) x \<Longrightarrow> mem (install alloc m c st) x = mem st x"
  by (auto simp: install_def spared_def appended_def store_addr_def write_bytes_other enc_simps Let_def)

lemma fold_install_spared:
  "spared cs (allocs (fold (install alloc m) cs st)) x \<Longrightarrow> mem (fold (install alloc m) cs st) x = mem st x"
proof (induction cs arbitrary: st)
  case Nil
  then show ?case by simp
next
  case (Cons c cs)
  have "set (allocs (install alloc m c st)) \<subseteq> set (allocs (fold (install alloc m) cs (install alloc m c st)))"
    by (simp add: fold_install_allocs grow_mono)
  then have "spared [c] (allocs (install alloc m c st)) x"
    "spared cs (allocs (fold (install alloc m) cs (install alloc m c st))) x"
    using Cons.prems by (auto simp: spared_def list_all_iff)
  then show ?case using Cons.IH install_spared by fastforce
qed

text \<open>The properties of the receiver's final state that the transfer establishes.\<close>

definition heap_replicated :: "'a heap_scheme \<Rightarrow> 'b heap_scheme \<Rightarrow> Malloc_container list \<Rightarrow> 'b heap_scheme \<Rightarrow> bool" where
  "heap_replicated S R cs R' \<longleftrightarrow>
     (\<forall>c \<in> set cs. arrived (map container_address cs) (mem S) R' c) \<and>
     registers R' (map (entry_at (mem R')) (filter (\<lambda>c. \<not> is_link c) cs)) \<and>
     (\<forall>x. spared cs (allocs R') x \<longrightarrow> mem R' x = mem R x) \<and>
     malloc_number_of_allocations R' = malloc_number_of_allocations S \<and>
     unat (total_malloc_allocation_size R') = unat (total_malloc_allocation_size S) mod 2 ^ 32
       + 2 ^ 32 * (unat (total_malloc_allocation_size R) div 2 ^ 32)"

definition heap_sender :: "'a heap_scheme \<Rightarrow> address list \<Rightarrow> bool" where
  "heap_sender S as \<longleftrightarrow> registry S as \<and>
     nat (sint (malloc_number_of_allocations S)) = length as \<and>
     list_all (sendable (mem S)) (entries S as) \<and> ordered_from [] (entries S as)"

definition heap_receiver :: "allocator \<Rightarrow> Malloc_container list \<Rightarrow> 'a heap_scheme \<Rightarrow> address list \<Rightarrow> bool" where
  "heap_receiver alloc cs R bs \<longleftrightarrow> registry R bs \<and> owns R bs \<and> mem_state R = DISCONTIGUOUS \<and>
     supplies alloc (without (bs @ blocks R bs) (allocs R)) (requests cs)"

lemma transfer_pair:
  fixes S :: "'a heap_scheme" and R :: "'b heap_scheme"
  assumes snd: "heap_sender S as" "length as < fuel"
    and rcv: "heap_receiver alloc (entries S as) R bs" "length bs < fuel"
      "alloc_avoids alloc (map container_address (entries S as))"
  obtains tx R' where "\<And>alloc0 rx. transfer_heap_seg alloc0 fuel cont0 0 rx S = Inr (S, rx, tx)"
    "\<And>me rest cont1. me \<noteq> 0 \<Longrightarrow> transfer_heap_seg alloc fuel cont1 me (tx @ rest) R = Inr (R', rest, [])"
    "heap_replicated S R (entries S as) R'" "heap.more R' = heap.more R"
    "allocs R' = grow alloc (without (bs @ blocks R bs) (allocs R)) (requests (entries S as))"
proof -
  define cs where "cs = entries S as"
  let ?k = "malloc_number_of_allocations S"
  let ?t = "take 4 (enc_addr (total_malloc_allocation_size S))"
  let ?g = "allocated_address cont0"
  define tx where "tx = [?t, enc_int ?k] @ concat (map (payload ?g (mem S)) cs)"
  define R1 where "R1 = cleared bs (dec_addr (?t @ drop 4 (enc_addr (total_malloc_allocation_size R)))) ?k R"
  define R' where "R' = fold (install alloc (mem S)) cs R1"
  have s: "transfer_heap_seg alloc0 fuel cont0 0 rx S = Inr (S, rx, tx)" for alloc0 rx
    using transfer_sender [of S as fuel] snd by (simp add: heap_sender_def tx_def cs_def)
  have len: "length as = length cs" by (simp add: entries_def cs_def)
  have nz: "list_all describes cs"
    using snd(1) by (auto simp: list_all_iff sendable_def describes_def heap_sender_def cs_def)
  have r: "transfer_heap_seg alloc fuel cont1 me (tx @ rest) R = Inr (R', rest, [])" if "me \<noteq> 0" for me rest cont1
    unfolding tx_def R'_def R1_def using rcv snd(1) len nz that
    by (intro transfer_receiver) (auto simp: heap_receiver_def heap_sender_def enc_simps cs_def)
  have "registers R1 []"
    by (auto simp: registers_def entries_def registry_Nil R1_def cleared_def intro!: exI [of _ "[]"])
  moreover have "supplies alloc (allocs R1) (requests cs)"
    using rcv(1) by (simp add: R1_def cleared_def heap_receiver_def cs_def)
  ultimately have "(\<forall>c \<in> set cs. arrived (map container_address cs) (mem S) R' c) \<and>
      registers R' ([] @ map (entry_at (mem R')) (filter (\<lambda>c. \<not> is_link c) cs))"
    unfolding R'_def using rcv(3) snd(1)
    by (intro install_all [where B = "{}"]) (auto simp: heap_sender_def cs_def)
  moreover have "mem R' x = mem R x" if "spared cs (allocs R') x" for x
    using fold_install_spared [of cs alloc "mem S" R1 x] that by (simp add: R'_def R1_def cleared_def)
  moreover have "malloc_number_of_allocations R1 = ?k" "heap.more R1 = heap.more R"
    "total_malloc_allocation_size R1 = dec_addr (?t @ drop 4 (enc_addr (total_malloc_allocation_size R)))"
    by (simp_all add: R1_def cleared_def)
  ultimately have "heap_replicated S R cs R'" "heap.more R' = heap.more R"
    by (simp_all add: heap_replicated_def R'_def fold_install_counters total_low_half)
  moreover have "allocs R' = grow alloc (without (bs @ blocks R bs) (allocs R)) (requests cs)"
    by (simp add: R'_def fold_install_allocs R1_def cleared_def)
  ultimately show ?thesis using that [OF s r] by (simp add: cs_def)
qed

text \<open>
  C26: the heap transfer replicates the heap. A sender with a well-formed registry (as many
  entries as it counts, distinct pointer variables, every alias after its source) and a
  receiver whose allocator grants its requests both return, the sender unchanged; on the
  receiver every registered variable then points at a live block of its own with the
  sender's bytes, every alias points where its source points, and its registry lists
  exactly the entries that are no aliases, each with its new block. Memory outside these
  variables and the live blocks is untouched. The allocation count
  arrives whole, the total size in its low 32 bits only.
\<close>

theorem transfer_heap_seg_replicates:
  fixes S :: "'a heap_scheme" and R :: "'b heap_scheme"
  assumes "heap_sender S as" and "length as < fuel" and "me \<noteq> 0"
    and "heap_receiver alloc (entries S as) R bs" and "length bs < fuel"
    and "alloc_avoids alloc (map container_address (entries S as))"
  shows "\<exists>tx R'. transfer_heap_seg alloc0 fuel cont0 0 [] S = Inr (S, [], tx) \<and>
     transfer_heap_seg alloc fuel cont1 me tx R = Inr (R', [], []) \<and>
     heap_replicated S R (entries S as) R'"
proof -
  obtain tx R' where "transfer_heap_seg alloc0 fuel cont0 0 [] S = Inr (S, [], tx)"
      "transfer_heap_seg alloc fuel cont1 me (tx @ []) R = Inr (R', [], [])"
      "heap_replicated S R (entries S as) R'"
    using transfer_pair [OF assms(1,2,4-6)] assms(3) by metis
  then show ?thesis by auto
qed

text \<open>An allocator that serves blocks from an arena above the pointer variables.\<close>

definition arena :: allocator where
  "arena bl n =
     (let p = (case bl of [] \<Rightarrow> 1048576 | (q, k) # _ \<Rightarrow> q + word_of_nat k + 16)
      in if 1048576 \<le> unat p \<and> unat p + n < 1099511627776 then p else 0)"

lemma arena_avoids: "list_all (\<lambda>a. unat a < 1048000) A \<Longrightarrow> alloc_avoids arena A"
  unfolding alloc_avoids_def
proof (intro allI impI)
  fix bl n
  assume A: "list_all (\<lambda>a. unat a < 1048000) A" and f: "fresh_block bl (arena bl n) n"
  let ?p = "arena bl n"
  have "1048576 \<le> unat ?p \<and> unat ?p + n < 1099511627776"
    using f by (auto simp: fresh_block_def arena_def Let_def split: if_splits)
  then have "apart ?p n a 8" if "unat a < 1048000" for a
    using that by (auto simp: apart_def unat_sub_if')
  then show "list_all (\<lambda>a. apart ?p n a 8) A" using A by (auto simp: list_all_iff)
qed

definition sender_heap :: heap where
  "sender_heap = alias_heap\<lparr>mem := store_addr (store_addr (\<lambda>x. ucast x) 64 4096) 72 4096\<rparr>"

lemma sender_heap_entries:
  "entries sender_heap [4112, 4192] =
     [\<lparr>container_address = 64, linked_address = 0, allocated_address = 4096, msize = 8\<rparr>,
      \<lparr>container_address = 72, linked_address = 64, allocated_address = 4096, msize = 0\<rparr>]"
  by (simp add: entries_def sender_heap_def alias_heap_def)

lemma sender_heap_ok: "heap_sender sender_heap [4112, 4192]"
proof -
  have "registry sender_heap [4112, 4192]"
    by (simp add: registry_def sender_heap_def alias_heap_def three_heap_def)
  moreover have "load_addr (mem sender_heap) 64 = 4096"
    by (simp add: sender_heap_def load_store_apart apart_def)
  ultimately show ?thesis
    unfolding heap_sender_def sender_heap_entries
    by (simp add: sendable_def is_link_def fits_after_def apart_def sender_heap_def alias_heap_def)
qed

lemma empty_heap_receives: "heap_receiver arena (entries sender_heap [4112, 4192]) empty_heap []"
  unfolding heap_receiver_def sender_heap_entries
  by (simp add: registry_Nil owns_def blocks_def entries_def empty_heap_def without_def requests_def
      is_link_def fresh_block_def arena_def sizeof_Malloc_list_def apart_def)

lemma arena_avoids_sender: "alloc_avoids arena (map container_address (entries sender_heap [4112, 4192]))"
  by (rule arena_avoids) (simp add: sender_heap_entries)

theorem transfer_heap_seg_replicates_witness:
  "\<exists>tx R' :: heap. transfer_heap_seg arena 5 undefined 0 [] sender_heap = Inr (sender_heap, [], tx) \<and>
     transfer_heap_seg arena 5 undefined 1 tx empty_heap = Inr (R', [], []) \<and>
     heap_replicated sender_heap empty_heap (entries sender_heap [4112, 4192]) R'"
  using sender_heap_ok empty_heap_receives arena_avoids_sender
  by (intro transfer_heap_seg_replicates) auto

section \<open>Counters\<close>

text \<open>A root that counts more allocations than its list holds walks off the list.\<close>

lemma sender_overrun:
  assumes "dllseg (cells st) p q as" and "list_all (sendable (mem st)) (entries st as)"
  shows "transfer_loop alloc 0 (length as + Suc k) q cont rx st = Inl Null_Deref"
  using assms
proof (induction as arbitrary: p q cont)
  case Nil
  then show ?case by (simp add: get_cell_def)
next
  case (Cons a as)
  obtain x where x: "q = a" "a \<noteq> 0" "get_cell a st = Inr x" "cells st a = Some x"
      "dllseg (cells st) a (next_ptr x) as"
    using Cons.prems(1) by (rule dllseg_step)
  have e: "entries st (a # as) = container x # entries st as"
    using x(4) by (simp add: entries_def)
  have IH: "transfer_loop alloc 0 (length as + Suc k) (next_ptr x) c rx st = Inl Null_Deref" for c
    using Cons.IH [OF x(5)] Cons.prems(2) e by simp
  have n: "length (a # as) + Suc k = Suc (length as + Suc k)" by simp
  show ?case
    unfolding n using x IH Cons.prems(2)
    by (auto simp: e sendable_def [of _ "container x"] is_link_def enc_simps err_simps
        simp del: add_Suc_right)
qed

text \<open>
  C30: \<open>rep_free\<close> does not lower \<open>malloc_number_of_allocations\<close>. A sender whose counter was
  right, after one successful \<open>rep_free\<close> of an entry inside its list, dereferences the null
  pointer behind the last list cell in its next heap transfer.
\<close>

theorem rep_free_breaks_next_transfer:
  assumes "registry st (as @ a # b # bs)" and "as \<noteq> []" and "length (as @ a # b # bs) < fuel"
    and "\<forall>c \<in> set (entries st as). container_address c \<noteq> v"
    and "cells st a = Some x" and "container_address (container x) = v"
    and "p = allocated_address (container x)" and "p \<noteq> 0" and "p \<in> fst ` set (allocs st)"
    and "p \<notin> set (as @ a # b # bs)"
    and "nat (sint (malloc_number_of_allocations st)) = length (as @ a # b # bs)"
    and "list_all (sendable (mem st)) (entries st (as @ b # bs))"
  shows "\<exists>st'. rep_free fuel v st = Inr st' \<and> transfer_heap_seg alloc fuel cont 0 rx st' = Inl Null_Deref"
proof -
  have d: "dllseg (cells st) 0 (head st) (as @ a # b # bs)"
    using assms(1) by (simp add: registry_def)
  have "length as < fuel" using assms(3) by simp
  then have f: "rep_free fuel v st = rep_remove a (freed p st)"
    using free_loop_found [OF d _ assms(4,5,6), of fuel] assms(7,8,9) c_free_live [of p st]
    by (simp add: rep_free_def)
  have "registry (freed p st) (as @ a # b # bs)"
    using assms(1,10) by (rule registry_freed)
  then obtain st' where st': "rep_remove a (freed p st) = Inr st'" "registry st' (as @ b # bs)"
      "entries st' (as @ b # bs) = entries (freed p st) (as @ b # bs)" "mem st' = mem (freed p st)"
      "malloc_number_of_allocations st' = malloc_number_of_allocations (freed p st)"
    using assms(2) by (rule rep_remove_interior)
  have d': "dllseg (cells st') 0 (head st') (as @ b # bs)" using st'(2) by (simp add: registry_def)
  have "list_all (sendable (mem st')) (entries st' (as @ b # bs))"
    using st'(3,4) assms(12) by simp
  then have "transfer_loop alloc 0 (length (as @ b # bs) + Suc 0) (head st') cont rx st' = Inl Null_Deref"
    by (rule sender_overrun [OF d'])
  moreover have "nat (sint (malloc_number_of_allocations st')) = length (as @ b # bs) + Suc 0"
    using st'(5) assms(11) by simp
  ultimately have "transfer_heap_seg alloc fuel cont 0 rx st' = Inl Null_Deref"
    using transfer_root [OF st'(2), of fuel alloc cont rx] assms(3) by simp
  then show ?thesis using f st'(1) by auto
qed

theorem rep_free_breaks_next_transfer_witness:
  "\<exists>st'. rep_free 9 72 (three_heap\<lparr>mem := (\<lambda>_. 1)\<rparr>) = Inr st' \<and>
     transfer_heap_seg arena 9 undefined 0 [] st' = Inl Null_Deref"
proof -
  let ?st = "three_heap\<lparr>mem := (\<lambda>_. 1)\<rparr>"
  have "registry ?st ([4112] @ 4192 # 4272 # [])"
    by (simp add: registry_def three_heap_def)
  moreover have "load_addr (\<lambda>_. 1) a \<noteq> 0" for a
    by (simp add: load_addr_def read_bytes_def dec_addr_def upt_rec)
  ultimately show ?thesis
    by (intro rep_free_breaks_next_transfer [where x = "the (cells three_heap 4192)" and p = 4176])
      (auto simp: three_heap_def entries_def sendable_def)
qed

end
