(* ===== verification/Segments.thy ===== *)
theory Segments
  imports Registers Heap_Transfer
begin

text \<open>
  \<open>src/replication/dataseg.c\<close>, \<open>src/replication/stackseg.c\<close> and the transfer driver of
  \<open>src/replication/rep.c\<close>: the data segments, the stack image with its saved registers, the
  framework flags, and \<open>init_rep\<close>, which runs the four stages. A process is the heap of
  \<open>Heapseg\<close> extended by the globals of \<open>src/mpi/init.c\<close> these functions use. The bounds of
  the data segments are the linker symbols of the process.
\<close>

section \<open>The process\<close>

record process = heap +
  node :: Node
  ctx :: jmp_buf
  ptr_guard :: "64 word"
  stackHigherAddress :: address
  stackLowerAddress :: address
  data_start :: address
  edata :: address
  bss_start :: address
  bss_end :: address
  pass_sender_cont_add :: "32 word"
  pass_receiver_cont_add :: "32 word"

text \<open>One broadcast of \<open>n\<close> bytes at address \<open>a\<close>.\<close>

definition bcast_mem :: "address \<Rightarrow> int \<Rightarrow> 'a memory_scheme phase" where
  "bcast_mem a n me rx st =
     bindE (guardE (0 \<le> n) (Abort_With 300)) (\<lambda>_.
     bindE (PMPI_Bcast me (read_bytes (mem st) a (nat n)) rx) (\<lambda>(b, rx1, tx).
       Inr (st\<lparr>mem := write_bytes (mem st) a b\<rparr>, rx1, tx)))"

section \<open>Data segments\<close>

definition transfer_init_data_seg :: "'a process_scheme phase" where
  "transfer_init_data_seg me rx st =
     (let countBytes = int_count (edata st - data_start st)
      in bcast_mem (data_start st) countBytes me rx st)"

definition transfer_uninit_data_seg :: "'a process_scheme phase" where
  "transfer_uninit_data_seg me rx st =
     (let countBytes = int_count (bss_end st - bss_start st)
      in bcast_mem (bss_start st) countBytes me rx st)"

definition transfer_data_seg :: "'a process_scheme phase" where
  "transfer_data_seg = then_phase transfer_init_data_seg transfer_uninit_data_seg"

section \<open>Stack\<close>

definition get_stack_size :: "'a process_scheme \<Rightarrow> 32 word" where
  "get_stack_size st = ucast (stackHigherAddress st - stackLowerAddress st + 4)"

text \<open>
  \<open>processContext\<close> and \<open>stack_size\<close> are uninitialised locals; only the sender sets them
  before they are broadcast. \<open>stack_size - 4\<close> is \<open>int\<close> arithmetic, sign-extended when it is
  subtracted from an address.
\<close>

definition transfer_stack_seg :: "Context \<Rightarrow> 32 word \<Rightarrow> 'a process_scheme phase" where
  "transfer_stack_seg processContext0 stack_size0 me rx st =
     (let g = ptr_guard st;
          sender = (node_transit_state (node st) = NODE_DATA_SENDER);
          st1 = (if sender then st\<lparr>stackLowerAddress := getRSP g (ctx st)\<rparr> else st);
          stack_size1 = (if sender then get_stack_size st1 else stack_size0);
          processContext1 = (if sender
            then \<lparr>rip = getPC g (ctx st1), rsp = getRSP g (ctx st1), rbp = getRBP g (ctx st1)\<rparr>
            else processContext0)
      in bindE (PMPI_Bcast me (enc_Context processContext1) rx) (\<lambda>(cb, rx1, tx1).
         bindE (PMPI_Bcast me (enc_int stack_size1) rx1) (\<lambda>(sb, rx2, tx2).
           let processContext = dec_Context cb; stack_size = dec_int sb;
               st2 = (if node_transit_state (node st) = NODE_DATA_RECEIVER
                 then st1\<lparr>ctx := setRBP g (setRSP g (setPC g (ctx st1) (rip processContext))
                            (rsp processContext)) (rbp processContext),
                          stackLowerAddress := stackHigherAddress st1 - scast (stack_size - 4)\<rparr>
                 else st1)
           in bindE (PMPI_Bcast me (enc_addr (stackLowerAddress st2)) rx2) (\<lambda>(ab, rx3, tx3).
              bindE (guardE (dec_addr ab = stackLowerAddress st2) (Abort_With 800)) (\<lambda>_.
              bindE (bcast_mem (stackLowerAddress st2) (sint stack_size) me rx3 st2) (\<lambda>(st3, rx4, tx4).
                Inr (st3, rx4, tx1 @ tx2 @ tx3 @ tx4)))))))"

section \<open>Framework data and the driver\<close>

definition transfer_framework_data :: "'a process_scheme phase" where
  "transfer_framework_data me rx st =
     bindE (PMPI_Bcast me (enc_int (pass_sender_cont_add st)) rx) (\<lambda>(b1, rx1, tx1).
     bindE (PMPI_Bcast me (enc_int (pass_receiver_cont_add st)) rx1) (\<lambda>(b2, rx2, tx2).
       Inr (st\<lparr>pass_sender_cont_add := dec_int b1, pass_receiver_cont_add := dec_int b2\<rparr>,
            rx2, tx1 @ tx2)))"

definition init_rep :: "allocator \<Rightarrow> nat \<Rightarrow> Context \<Rightarrow> 32 word \<Rightarrow> Malloc_container \<Rightarrow> 'a process_scheme phase" where
  "init_rep alloc fuel pc0 ss0 cont0 =
     then_phase transfer_data_seg
       (then_phase (transfer_stack_seg pc0 ss0)
          (then_phase (transfer_heap_seg alloc fuel cont0) transfer_framework_data))"

section \<open>Each stage delivers\<close>

lemma read_self: "write_bytes m a (read_bytes m a n) = m"
proof
  fix x
  show "write_bytes m a (read_bytes m a n) x = m x"
    by (simp add: write_bytes_def read_bytes_nth Let_def)
qed

lemma bcast_mem_delivers:
  "0 \<le> n \<Longrightarrow> delivers (bcast_mem a n) s s r (r\<lparr>mem := write_bytes (mem r) a (read_bytes (mem s) a (nat n))\<rparr>)"
  unfolding delivers_def
  by (intro exI [of _ "[read_bytes (mem s) a (nat n)]"])
    (simp add: bcast_mem_def read_self err_simps)

lemma delivers_cong:
  "delivers f s s' r r' \<Longrightarrow> (\<And>me rx. g me rx s = f me rx s) \<Longrightarrow> (\<And>me rx. g me rx r = f me rx r) \<Longrightarrow>
   delivers g s s' r r'"
  by (simp add: delivers_def)

text \<open>The memory layout two processes share: same symbols, same stack top.\<close>

definition same_layout :: "'a process_scheme \<Rightarrow> 'a process_scheme \<Rightarrow> bool" where
  "same_layout s r \<longleftrightarrow> data_start s = data_start r \<and> edata s = edata r \<and> bss_start s = bss_start r \<and>
     bss_end s = bss_end r \<and> stackHigherAddress s = stackHigherAddress r"

definition data_size :: "'a process_scheme \<Rightarrow> nat" where
  "data_size st = nat (int_count (edata st - data_start st))"

definition bss_size :: "'a process_scheme \<Rightarrow> nat" where
  "bss_size st = nat (int_count (bss_end st - bss_start st))"

definition small_segments :: "'a process_scheme \<Rightarrow> bool" where
  "small_segments st \<longleftrightarrow> 0 \<le> int_count (edata st - data_start st) \<and> 0 \<le> int_count (bss_end st - bss_start st)"

text \<open>The receiver's memory after the data stage: both segments copied from \<open>m\<close>.\<close>

definition with_data :: "(address \<Rightarrow> byte) \<Rightarrow> 'a process_scheme \<Rightarrow> 'a process_scheme" where
  "with_data m r = r\<lparr>mem := write_bytes (write_bytes (mem r) (data_start r) (read_bytes m (data_start r) (data_size r)))
     (bss_start r) (read_bytes m (bss_start r) (bss_size r))\<rparr>"

lemma transfer_data_delivers:
  assumes "same_layout s r" and "small_segments s"
  shows "delivers transfer_data_seg s s r (with_data (mem s) r)"
proof -
  let ?r1 = "r\<lparr>mem := write_bytes (mem r) (data_start r) (read_bytes (mem s) (data_start r) (data_size r))\<rparr>"
  have "delivers (bcast_mem (data_start s) (int_count (edata s - data_start s))) s s r ?r1"
    using assms bcast_mem_delivers by (auto simp: small_segments_def data_size_def same_layout_def)
  then have 1: "delivers transfer_init_data_seg s s r ?r1"
    by (rule delivers_cong) (use assms in \<open>simp_all add: transfer_init_data_seg_def same_layout_def\<close>)
  have "delivers (bcast_mem (bss_start s) (int_count (bss_end s - bss_start s))) s s ?r1 (with_data (mem s) r)"
    using bcast_mem_delivers [of "int_count (bss_end s - bss_start s)" "bss_start s" s ?r1] assms
    by (simp add: small_segments_def bss_size_def same_layout_def with_data_def)
  then have "delivers transfer_uninit_data_seg s s ?r1 (with_data (mem s) r)"
    by (rule delivers_cong) (use assms in \<open>simp_all add: transfer_uninit_data_seg_def same_layout_def\<close>)
  with 1 show ?thesis unfolding transfer_data_seg_def by (rule delivers_then)
qed


subsection \<open>The stack\<close>

lemma scast_ucast_small:
  assumes "unat (d :: 64 word) < 2147483648"
  shows "scast (ucast d :: 32 word) = d"
proof -
  have "sint (ucast d :: 32 word) = int (unat d)"
    using assms by (simp add: sint_small ucast_small)
  then have "of_int (sint (ucast d :: 32 word)) = d" by simp
  then show ?thesis by (simp only: of_int_sint)
qed

lemma unat_plus4: "unat (d :: 64 word) + 4 < 2147483648 \<Longrightarrow> unat (d + 4) = unat d + 4"
  by (simp add: unat_word_ariths)

lemma ucast_minus4:
  assumes "unat (d :: 64 word) + 4 < 2147483648"
  shows "ucast (d + 4) - (4 :: 32 word) = ucast d"
proof -
  have "unat (ucast (d + 4) :: 32 word) = unat (ucast d + 4 :: 32 word)"
    using assms by (simp add: ucast_small unat_plus4 unat_word_ariths)
  then have "(ucast (d + 4) :: 32 word) = ucast d + 4" by (simp only: word_unat_eq_iff)
  then show ?thesis by simp
qed

text \<open>The live part of the sender's stack, from the saved stack pointer to its top.\<close>

definition live_low :: "'a process_scheme \<Rightarrow> address" where
  "live_low s = getRSP (ptr_guard s) (ctx s)"

definition live_size :: "'a process_scheme \<Rightarrow> nat" where
  "live_size s = unat (stackHigherAddress s - live_low s) + 4"

definition with_stack :: "'a process_scheme \<Rightarrow> 'b process_scheme \<Rightarrow> 'b process_scheme" where
  "with_stack s r = r\<lparr>
     ctx := setRBP (ptr_guard r) (setRSP (ptr_guard r) (setPC (ptr_guard r) (ctx r)
              (getPC (ptr_guard s) (ctx s))) (live_low s)) (getRBP (ptr_guard s) (ctx s)),
     stackLowerAddress := live_low s,
     mem := write_bytes (mem r) (live_low s) (read_bytes (mem s) (live_low s) (live_size s))\<rparr>"

definition roles :: "'a process_scheme \<Rightarrow> 'b process_scheme \<Rightarrow> bool" where
  "roles s r \<longleftrightarrow> node_transit_state (node s) = NODE_DATA_SENDER \<and>
     node_transit_state (node r) = NODE_DATA_RECEIVER"

lemma stack_size_round:
  assumes "live_size s < 2147483648"
  defines "k \<equiv> get_stack_size (s\<lparr>stackLowerAddress := live_low s\<rparr>)"
  shows "sint k = int (live_size s)" and "stackHigherAddress s - scast (k - 4) = live_low s"
proof -
  let ?d = "stackHigherAddress s - live_low s"
  have d: "unat ?d + 4 < 2147483648" using assms(1) by (simp add: live_size_def)
  have k: "k = ucast (?d + 4)" by (simp add: k_def get_stack_size_def)
  have "unat (ucast (?d + 4) :: 32 word) = unat ?d + 4"
    using d by (simp add: ucast_small unat_plus4)
  then show "sint k = int (live_size s)"
    unfolding k using d by (simp add: sint_small live_size_def)
  have "unat ?d < 2147483648" using d by simp
  then have "scast (k - 4) = ?d"
    unfolding k ucast_minus4 [OF d] by (rule scast_ucast_small)
  then show "stackHigherAddress s - scast (k - 4) = live_low s" by simp
qed

text \<open>What the sender broadcasts: registers, size, lowest address, bytes.\<close>

definition stack_message :: "'a process_scheme \<Rightarrow> byte list list" where
  "stack_message s =
     [enc_Context \<lparr>rip = getPC (ptr_guard s) (ctx s), rsp = live_low s, rbp = getRBP (ptr_guard s) (ctx s)\<rparr>,
      enc_int (get_stack_size (s\<lparr>stackLowerAddress := live_low s\<rparr>)), enc_addr (live_low s),
      read_bytes (mem s) (live_low s) (live_size s)]"

lemma stack_sender:
  assumes "node_transit_state (node s) = NODE_DATA_SENDER" and "live_size s < 2147483648"
  shows "transfer_stack_seg pc0 ss0 0 rx s = Inr (s\<lparr>stackLowerAddress := live_low s\<rparr>, rx, stack_message s)"
  using assms(1) stack_size_round(1) [OF assms(2)]
  by (simp add: transfer_stack_seg_def stack_message_def Let_def live_low_def [symmetric] enc_simps
      err_simps bcast_mem_def read_self)

lemma transfer_stack_delivers:
  assumes "roles s r" and "stackHigherAddress s = stackHigherAddress r" and "live_size s < 2147483648"
  shows "delivers (transfer_stack_seg pc0 ss0) s (s\<lparr>stackLowerAddress := live_low s\<rparr>) r (with_stack s r)"
proof -
  have "transfer_stack_seg pc0 ss0 me (stack_message s @ rest) r = Inr (with_stack s r, rest, [])"
    if "me \<noteq> 0" for me rest
    using assms(1,2) stack_size_round [OF assms(3)] that
    by (simp add: transfer_stack_seg_def stack_message_def Let_def roles_def enc_simps err_simps
        bcast_mem_def with_stack_def)
  then show ?thesis
    using stack_sender [of s] assms(1,3)
    by (auto simp: delivers_def roles_def intro!: exI [of _ "stack_message s"])
qed

text \<open>
  When the two stacks do not end at the same address, the receiver notices before it
  writes a byte and aborts with code 800.
\<close>

lemma transfer_stack_mismatch_aborts:
  assumes "roles s r" and "live_size s < 2147483648" and "me \<noteq> 0"
    and "stackHigherAddress s \<noteq> stackHigherAddress r"
  shows "\<exists>tx. transfer_stack_seg pc0 ss0 0 [] s = Inr (s\<lparr>stackLowerAddress := live_low s\<rparr>, [], tx) \<and>
     transfer_stack_seg pc1 ss1 me tx r = Inl (Abort_With 800)"
proof -
  let ?v = "scast (get_stack_size (s\<lparr>stackLowerAddress := live_low s\<rparr>) - 4) :: address"
  have "stackHigherAddress s - ?v \<noteq> stackHigherAddress r - ?v" using assms(4) by simp
  then have "live_low s \<noteq> stackHigherAddress r - ?v"
    by (simp only: stack_size_round(2) [OF assms(2)] not_False_eq_True)
  then have "transfer_stack_seg pc1 ss1 me (stack_message s) r = Inl (Abort_With 800)"
    using assms(1,3)
    by (simp add: transfer_stack_seg_def stack_message_def Let_def roles_def enc_simps err_simps)
  then show ?thesis
    using stack_sender [of s] assms(1,2) by (auto simp: roles_def intro!: exI [of _ "stack_message s"])
qed

text \<open>Two concrete processes for the witnesses: 16-byte segments, a 44-byte live stack.\<close>

definition demo_node :: "NodeTransitState \<Rightarrow> Node" where
  "demo_node ts = \<lparr>job_id = 0, rank = 0, static_rank = 0, age = 1, jobs_count = 1,
     node_transit_state = ts, node_checkpoint_master = NO, rep_mpi_comm_world = Comm_Handle 0,
     world_job_comm = Comm_Handle 1, active_comm = Comm_Handle 2\<rparr>"

definition demo_process :: "64 word \<Rightarrow> NodeTransitState \<Rightarrow> heap \<Rightarrow> process" where
  "demo_process g ts h = heap.extend h
     \<lparr>node = demo_node ts,
      ctx = setRSP g \<lparr>jmpbuf = replicate 8 0, mask_was_saved = 0, saved_mask = []\<rparr> 8000,
      ptr_guard = g, stackHigherAddress = 8040, stackLowerAddress = 0, data_start = 512, edata = 528,
      bss_start = 544, bss_end = 560, pass_sender_cont_add = 1, pass_receiver_cont_add = 0\<rparr>"

lemma demo_process_sel [simp]:
  "node_transit_state (node (demo_process g ts h)) = ts"
  "stackHigherAddress (demo_process g ts h) = 8040"
  by (simp_all add: demo_process_def heap.defs demo_node_def)

lemma demo_live [simp]: "live_low (demo_process g ts h) = 8000" "live_size (demo_process g ts h) = 44"
  by (simp_all add: live_low_def live_size_def demo_process_def heap.defs wf_jmp_buf_def)

section \<open>The whole transfer\<close>

lemma transfer_framework_delivers:
  "delivers transfer_framework_data s s r
     (r\<lparr>pass_sender_cont_add := pass_sender_cont_add s, pass_receiver_cont_add := pass_receiver_cont_add s\<rparr>)"
  by (auto simp: delivers_def transfer_framework_data_def enc_simps
      intro!: exI [of _ "[enc_int (pass_sender_cont_add s), enc_int (pass_receiver_cont_add s)]"])

text \<open>The addresses of the image: both data segments and the live stack.\<close>

definition in_image :: "'a process_scheme \<Rightarrow> address \<Rightarrow> bool" where
  "in_image s x \<longleftrightarrow> unat (x - data_start s) < data_size s \<or> unat (x - bss_start s) < bss_size s \<or>
     unat (x - live_low s) < live_size s"

definition same_registers :: "'a process_scheme \<Rightarrow> 'b process_scheme \<Rightarrow> bool" where
  "same_registers s r \<longleftrightarrow> getPC (ptr_guard r) (ctx r) = getPC (ptr_guard s) (ctx s) \<and>
     getRSP (ptr_guard r) (ctx r) = getRSP (ptr_guard s) (ctx s) \<and>
     getRBP (ptr_guard r) (ctx r) = getRBP (ptr_guard s) (ctx s)"

text \<open>What replication promises of the replica \<open>R'\<close> of \<open>s\<close> that was \<open>r\<close> before.\<close>

definition replica_of :: "'a process_scheme \<Rightarrow> 'b process_scheme \<Rightarrow> Malloc_container list \<Rightarrow> 'b process_scheme \<Rightarrow> bool" where
  "replica_of s r cs R' \<longleftrightarrow>
     (\<forall>c \<in> set cs. arrived (map container_address cs) (mem s) R' c) \<and>
     registers R' (map (entry_at (mem R')) (filter (\<lambda>c. \<not> is_link c) cs)) \<and>
     malloc_number_of_allocations R' = malloc_number_of_allocations s \<and>
     (\<forall>x. in_image s x \<longrightarrow> spared cs (allocs R') x \<longrightarrow> mem R' x = mem s x) \<and>
     (\<forall>x. \<not> in_image s x \<longrightarrow> spared cs (allocs R') x \<longrightarrow> mem R' x = mem r x) \<and>
     same_registers s R' \<and> stackLowerAddress R' = live_low s \<and>
     pass_sender_cont_add R' = pass_sender_cont_add s \<and>
     pass_receiver_cont_add R' = pass_receiver_cont_add s \<and>
     node R' = node r \<and> ptr_guard R' = ptr_guard r"

lemma write_read_at:
  "n \<le> 2 ^ 64 \<Longrightarrow> write_bytes m a (read_bytes m' a n) x = (if unat (x - a) < n then m' x else m x)"
  by (simp add: write_bytes_def Let_def read_bytes_nth)

lemma image_memory:
  assumes "same_layout s r" and "live_size s < 2147483648" and "small_segments s"
  shows "mem (with_stack s (with_data (mem s) r)) x = (if in_image s x then mem s x else mem r x)"
proof -
  have "nat (int_count w) < 2 ^ 64" for w
    using sint_lt [of "ucast w :: 32 word"] by (simp add: int_count_def)
  then have "data_size r < 2 ^ 64" "bss_size r < 2 ^ 64"
    by (simp_all add: data_size_def bss_size_def)
  moreover have "data_size s = data_size r" "bss_size s = bss_size r"
    using assms(1) by (simp_all add: same_layout_def data_size_def bss_size_def)
  ultimately show ?thesis
    using assms(1,2) by (simp add: with_stack_def with_data_def in_image_def write_read_at same_layout_def)
qed

lemma same_extension:
  fixes R R' :: "'a process_scheme"
  assumes "heap.more R' = heap.more R"
  shows "node R' = node R" "ctx R' = ctx R" "ptr_guard R' = ptr_guard R"
    "stackLowerAddress R' = stackLowerAddress R" "process.more R' = process.more R"
  using assms by (cases R; cases R'; simp)+

lemma init_rep_pair:
  fixes s r :: "'a process_scheme"
  assumes roles: "roles s r" and layout: "same_layout s r" and wf: "wf_jmp_buf (ctx r)"
    and small: "small_segments s" "live_size s < 2147483648" and me: "me \<noteq> 0"
    and hs: "heap_sender s as" "length as < fuel"
    and hr: "heap_receiver alloc (entries s as) r bs" "length bs < fuel"
      "alloc_avoids alloc (map container_address (entries s as))"
  shows "\<exists>tx R'. init_rep alloc fuel pc0 ss0 cont0 0 [] s = Inr (s\<lparr>stackLowerAddress := live_low s\<rparr>, [], tx) \<and>
     init_rep alloc fuel pc0 ss0 cont0 me tx r = Inr (R', [], []) \<and> replica_of s r (entries s as) R' \<and>
     process.more R' = process.more r \<and>
     allocs R' = grow alloc (without (bs @ blocks r bs) (allocs r)) (requests (entries s as))"
proof -
  define s1 where "s1 = s\<lparr>stackLowerAddress := live_low s\<rparr>"
  define r2 where "r2 = with_stack s (with_data (mem s) r)"
  have e: "entries s1 as = entries s as" by (simp add: s1_def entries_def)
  have 1: "delivers transfer_data_seg s s r (with_data (mem s) r)"
    using layout small(1) by (rule transfer_data_delivers)
  have 2: "delivers (transfer_stack_seg pc0 ss0) s s1 (with_data (mem s) r) r2"
    unfolding s1_def r2_def using roles layout small(2)
    by (intro transfer_stack_delivers) (simp_all add: roles_def same_layout_def with_data_def)
  have s1: "heap_sender s1 as"
    using hs(1) by (simp add: heap_sender_def registry_def entries_def s1_def)
  have r2: "heap_receiver alloc (entries s1 as) r2 bs"
    using hr(1) unfolding e
    by (simp add: heap_receiver_def registry_def owns_def blocks_def entries_def r2_def with_stack_def with_data_def)
  obtain tx R3 where t: "\<And>rx. transfer_heap_seg alloc fuel cont0 0 rx s1 = Inr (s1, rx, tx)"
      "\<And>me rest. me \<noteq> 0 \<Longrightarrow> transfer_heap_seg alloc fuel cont0 me (tx @ rest) r2 = Inr (R3, rest, [])"
      and h: "heap_replicated s1 r2 (entries s1 as) R3" "heap.more R3 = heap.more r2"
        "allocs R3 = grow alloc (without (bs @ blocks r2 bs) (allocs r2)) (requests (entries s1 as))"
    using transfer_pair [OF s1 hs(2) r2 hr(2)] hr(3) unfolding e by metis
  have 3: "delivers (transfer_heap_seg alloc fuel cont0) s1 s1 r2 R3"
    using t by (auto simp: delivers_def)
  let ?R = "R3\<lparr>pass_sender_cont_add := pass_sender_cont_add s, pass_receiver_cont_add := pass_receiver_cont_add s\<rparr>"
  have 4: "delivers transfer_framework_data s1 s1 R3 ?R"
    using transfer_framework_delivers [of s1 R3] by (simp add: s1_def)
  have "delivers (init_rep alloc fuel pc0 ss0 cont0) s s1 r ?R"
    unfolding init_rep_def by (intro delivers_then [OF 1] delivers_then [OF 2] delivers_then [OF 3] 4)
  then obtain ty where ty: "init_rep alloc fuel pc0 ss0 cont0 0 [] s = Inr (s1, [], ty)"
      "init_rep alloc fuel pc0 ss0 cont0 me (ty @ []) r = Inr (?R, [], [])"
    unfolding delivers_def using me by blast
  have "replica_of s r (entries s as) ?R"
    using h(1) wf image_memory [OF layout small(2,1), folded r2_def] same_extension [OF h(2)]
    by (auto simp: e replica_of_def heap_replicated_def s1_def registers_def registry_def entries_def arrived_def
        same_registers_def r2_def with_stack_def with_data_def live_low_def)
  moreover have "process.more ?R = process.more r"
    using same_extension(5) [OF h(2)] by (simp add: r2_def with_stack_def with_data_def)
  moreover have "allocs ?R = grow alloc (without (bs @ blocks r bs) (allocs r)) (requests (entries s as))"
    using h(3) unfolding e by (simp add: r2_def with_stack_def with_data_def blocks_def entries_def)
  ultimately show ?thesis using ty by (auto simp: s1_def)
qed

text \<open>
  C2: \<open>init_rep\<close> makes the receiver a replica. For a sender and a receiver with the same
  program layout and stack top, segments and live stack below 2 GiB, and heaps as in the
  heap transfer, all four stages run to the end on both sides and every broadcast is
  consumed. The sender only records its stack bound. The receiver then has the sender's
  bytes in both data segments and the live stack wherever no registered pointer variable or
  heap block lies, its own bytes elsewhere, the sender's registered blocks behind its own
  pointers, the sender's program counter, stack and base pointer under its own pointer
  guard, and the sender's framework flags; its identity \<open>node\<close> is its own.
\<close>

theorem init_rep_replicates:
  fixes s r :: process
  assumes roles: "roles s r" and layout: "same_layout s r" and wf: "wf_jmp_buf (ctx r)"
    and small: "small_segments s" "live_size s < 2147483648" and me: "me \<noteq> 0"
    and hs: "heap_sender s as" "length as < fuel"
    and hr: "heap_receiver alloc (entries s as) r bs" "length bs < fuel"
      "alloc_avoids alloc (map container_address (entries s as))"
  shows "\<exists>tx R'. init_rep alloc fuel pc0 ss0 cont0 0 [] s = Inr (s\<lparr>stackLowerAddress := live_low s\<rparr>, [], tx) \<and>
     init_rep alloc fuel pc0 ss0 cont0 me tx r = Inr (R', [], []) \<and> replica_of s r (entries s as) R'"
  using init_rep_pair [OF assms] by blast

lemma heap_roles_process:
  "heap_sender (demo_process g ts h) as \<longleftrightarrow> heap_sender h as"
  "heap_receiver alloc cs (demo_process g ts h) bs \<longleftrightarrow> heap_receiver alloc cs h bs"
  "entries (demo_process g ts h) as = entries h as"
  by (simp_all add: heap_sender_def heap_receiver_def registry_def owns_def blocks_def entries_def
      demo_process_def heap.defs)

theorem init_rep_replicates_witness:
  "\<exists>tx R'. init_rep arena 5 undefined 0 undefined 0 [] (demo_process 7 NODE_DATA_SENDER sender_heap) =
      Inr ((demo_process 7 NODE_DATA_SENDER sender_heap)\<lparr>stackLowerAddress := 8000\<rparr>, [], tx) \<and>
     init_rep arena 5 undefined 0 undefined 1 tx (demo_process 5 NODE_DATA_RECEIVER empty_heap) = Inr (R', [], []) \<and>
     replica_of (demo_process 7 NODE_DATA_SENDER sender_heap) (demo_process 5 NODE_DATA_RECEIVER empty_heap)
       (entries sender_heap [4112, 4192]) R'"
proof -
  let ?s = "demo_process 7 NODE_DATA_SENDER sender_heap"
  let ?r = "demo_process 5 NODE_DATA_RECEIVER empty_heap"
  have "same_layout ?s ?r" "wf_jmp_buf (ctx ?r)" "small_segments ?s"
    by (simp_all add: same_layout_def small_segments_def demo_process_def heap.defs int_count_def reg_defs)
  then show ?thesis
    using init_rep_replicates [of ?s ?r 1 "[4112, 4192]" 5 arena "[]"]
      sender_heap_ok empty_heap_receives arena_avoids_sender
    by (simp add: heap_roles_process roles_def)
qed

end
