(* ===== verification/Full_Context.thy ===== *)
theory Full_Context
  imports Decimal Segments
begin

text \<open>
  \<open>src/checkpoint/full_context.c\<close>: a checkpoint file holds the data segments, the registers
  and the live stack, the registered heap blocks and the framework flags of one process;
  restoring reads them back, possibly into a process whose stack ends elsewhere. Files are a
  map from names to bytes; which names can be opened for writing is a parameter.
\<close>

section \<open>Saving\<close>

type_synonym files = "string \<Rightarrow> byte list option"

definition CKPT_FILE_NAME :: "int \<Rightarrow> string" where
  "CKPT_FILE_NAME jid = ''./ckpt/rank-'' @ int_string jid @ ''.ckpt''"

definition save_data_seg :: "'a process_scheme \<Rightarrow> byte list" where
  "save_data_seg st =
     (let count_bytes_uninit = edata st - data_start st; count_bytes_init = bss_end st - bss_start st
      in enc_addr count_bytes_uninit @ read_bytes (mem st) (data_start st) (unat count_bytes_uninit) @
         enc_addr count_bytes_init @ read_bytes (mem st) (bss_start st) (unat count_bytes_init))"

text \<open>\<open>stack_size\<close> is an \<open>int\<close> widened to \<open>size_t\<close>.\<close>

definition save_stack_seg :: "'a process_scheme \<Rightarrow> 'a process_scheme \<times> byte list" where
  "save_stack_seg st =
     (let g = ptr_guard st;
          st1 = st\<lparr>stackLowerAddress := getRSP g (ctx st)\<rparr>;
          stack_size = scast (get_stack_size st1) :: 64 word;
          processContext = \<lparr>rip = getPC g (ctx st1), rsp = getRSP g (ctx st1), rbp = getRBP g (ctx st1)\<rparr>
      in (st1, enc_Context processContext @ enc_addr stack_size @
               read_bytes (mem st1) (stackLowerAddress st1) (unat stack_size)))"

primrec save_heap_loop :: "nat \<Rightarrow> address \<Rightarrow> 'a heap_scheme \<Rightarrow> byte list result" where
  "save_heap_loop 0 temp st = Inl Out_Of_Fuel"
| "save_heap_loop (Suc fuel) temp st =
     (if temp = 0 then Inr []
      else bindE (get_cell temp st) (\<lambda>x.
           let c = container x
           in bindE (guardE (container_address c \<noteq> 0) Null_Deref) (\<lambda>_.
              let p = load_addr (mem st) (container_address c)
              in bindE (guardE (p \<noteq> 0 \<or> msize c = 0) Null_Deref) (\<lambda>_.
                 bindE (save_heap_loop fuel (next_ptr x) st) (\<lambda>out.
                   Inr (enc_container c @ read_bytes (mem st) p (unat (msize c)) @ out))))))"

definition save_heap_seg :: "nat \<Rightarrow> 'a heap_scheme \<Rightarrow> byte list result" where
  "save_heap_seg fuel st =
     bindE (save_heap_loop fuel (head st) st) (\<lambda>out.
       Inr (enc_int (malloc_number_of_allocations st) @ out))"

definition save_framework_data :: "'a process_scheme \<Rightarrow> byte list" where
  "save_framework_data st = enc_int (pass_sender_cont_add st) @ enc_int (pass_receiver_cont_add st)"

text \<open>\<open>fopen\<close> gives \<open>NULL\<close> for a name that cannot be created; the first \<open>fwrite\<close> then faults.\<close>

definition init_ckpt :: "(string \<Rightarrow> bool) \<Rightarrow> nat \<Rightarrow> files \<Rightarrow> 'a process_scheme \<Rightarrow> ('a process_scheme \<times> files) result" where
  "init_ckpt writable fuel files st =
     (let file = CKPT_FILE_NAME (job_id (node st))
      in bindE (guardE (writable file) Null_Deref) (\<lambda>_.
         let d = save_data_seg st
         in case save_stack_seg st of (st1, s) \<Rightarrow>
            bindE (save_heap_seg fuel st1) (\<lambda>h.
              Inr (st1, files(file \<mapsto> d @ s @ h @ save_framework_data st1)))))"

section \<open>Restoring\<close>

definition restore_data_seg :: "byte list \<Rightarrow> 'a process_scheme \<Rightarrow> ('a process_scheme \<times> byte list) result" where
  "restore_data_seg fs st =
     bindE (fread_exact 8 fs) (\<lambda>(nb, fs1).
       case fread_buf (unat (dec_addr nb)) fs1 of (d, fs2) \<Rightarrow>
       let st1 = st\<lparr>mem := write_bytes (mem st) (data_start st) d\<rparr>
       in bindE (fread_exact 8 fs2) (\<lambda>(kb, fs3).
            case fread_buf (unat (dec_addr kb)) fs3 of (u, fs4) \<Rightarrow>
              Inr (st1\<lparr>mem := write_bytes (mem st1) (bss_start st1) u\<rparr>, fs4)))"

definition restore_stack_seg :: "byte list \<Rightarrow> 'a process_scheme \<Rightarrow> ('a process_scheme \<times> byte list) result" where
  "restore_stack_seg fs st =
     bindE (fread_exact 24 fs) (\<lambda>(cb, fs1).
     bindE (fread_exact 8 fs1) (\<lambda>(sb, fs2).
       let processContext = dec_Context cb; stack_size = dec_addr sb; g = ptr_guard st;
           low = stackHigherAddress st - (stack_size - 4);
           st1 = st\<lparr>stackLowerAddress := low,
             ctx := setRBP g (setRSP g (setPC g (ctx st) (rip processContext)) low)
                      (rbp processContext + (low - rsp processContext))\<rparr>
       in case fread_buf (unat stack_size) fs2 of (bs, fs3) \<Rightarrow>
            Inr (st1\<lparr>mem := write_bytes (mem st1) low bs\<rparr>, fs3)))"

primrec restore_heap_loop :: "allocator \<Rightarrow> nat \<Rightarrow> byte list \<Rightarrow> 'a heap_scheme \<Rightarrow> ('a heap_scheme \<times> byte list) result" where
  "restore_heap_loop alloc 0 fs st = Inr (st, fs)"
| "restore_heap_loop alloc (Suc n) fs st =
     bindE (fread_exact 32 fs) (\<lambda>(cb, fs1).
       let temp_container = dec_container cb; a = container_address temp_container
       in bindE (guardE (a \<noteq> 0) Null_Deref) (\<lambda>_.
          case c_malloc alloc (unat (msize temp_container)) st of (p, st1) \<Rightarrow>
          let m1 = store_addr (mem st1) a p;
              cont = temp_container\<lparr>allocated_address := load_addr m1 a\<rparr>
          in case fread_buf (unat (msize temp_container)) fs1 of (bs, fs2) \<Rightarrow>
             bindE (guardE (load_addr m1 a \<noteq> 0 \<or> bs = []) Null_Deref) (\<lambda>_.
             bindE (rep_append alloc cont (st1\<lparr>mem := write_bytes m1 (load_addr m1 a) bs\<rparr>)) (\<lambda>st2.
               restore_heap_loop alloc n fs2 st2))))"

definition restore_heap_seg :: "allocator \<Rightarrow> byte list \<Rightarrow> 'a heap_scheme \<Rightarrow> ('a heap_scheme \<times> byte list) result" where
  "restore_heap_seg alloc fs st =
     bindE (fread_exact 4 fs) (\<lambda>(nb, fs1).
       let st1 = st\<lparr>malloc_number_of_allocations := dec_int nb\<rparr>
       in restore_heap_loop alloc (nat (sint (malloc_number_of_allocations st1))) fs1 st1)"

definition restore_framework_data :: "byte list \<Rightarrow> 'a process_scheme \<Rightarrow> ('a process_scheme \<times> byte list) result" where
  "restore_framework_data fs st =
     bindE (fread_exact 4 fs) (\<lambda>(b1, fs1).
     bindE (fread_exact 4 fs1) (\<lambda>(b2, fs2).
       Inr (st\<lparr>pass_sender_cont_add := dec_int b1, pass_receiver_cont_add := dec_int b2\<rparr>, fs2)))"

definition init_ckpt_restore :: "allocator \<Rightarrow> files \<Rightarrow> 'a process_scheme \<Rightarrow> 'a process_scheme result" where
  "init_ckpt_restore alloc files st =
     bindE (some_or Null_Deref (files (CKPT_FILE_NAME (job_id (node st))))) (\<lambda>fs.
     bindE (restore_data_seg fs st) (\<lambda>(st1, fs1).
     bindE (restore_stack_seg fs1 st1) (\<lambda>(st2, fs2).
     bindE (restore_heap_seg alloc fs2 st2) (\<lambda>(st3, fs3).
     bindE (restore_framework_data fs3 st3) (\<lambda>(st4, _). Inr st4)))))"

definition does_ckpt_file_exists :: "files \<Rightarrow> 'a process_scheme \<Rightarrow> bool" where
  "does_ckpt_file_exists files st \<longleftrightarrow> files (CKPT_FILE_NAME (job_id (node st))) \<noteq> None"

section \<open>Each part reads back\<close>

definition same_symbols :: "'a process_scheme \<Rightarrow> 'b process_scheme \<Rightarrow> bool" where
  "same_symbols s r \<longleftrightarrow> data_start s = data_start r \<and> bss_start s = bss_start r"

definition data_restored :: "'a process_scheme \<Rightarrow> 'b process_scheme \<Rightarrow> 'b process_scheme" where
  "data_restored s r = r\<lparr>mem := write_bytes (write_bytes (mem r) (data_start s)
     (read_bytes (mem s) (data_start s) (unat (edata s - data_start s))))
     (bss_start s) (read_bytes (mem s) (bss_start s) (unat (bss_end s - bss_start s)))\<rparr>"

lemma restore_save_data:
  "same_symbols s r \<Longrightarrow> restore_data_seg (save_data_seg s @ rest) r = Inr (data_restored s r, rest)"
  by (simp add: save_data_seg_def restore_data_seg_def Let_def fread_exact_append fread_buf_append enc_simps
      data_restored_def same_symbols_def)

text \<open>Where the lowest live byte of \<open>s\<close> lands in \<open>r\<close>: at the same distance from the stack top.\<close>

definition moved_low :: "'a process_scheme \<Rightarrow> 'b process_scheme \<Rightarrow> address" where
  "moved_low s r = stackHigherAddress r - (stackHigherAddress s - live_low s)"

definition stack_restored :: "'a process_scheme \<Rightarrow> 'b process_scheme \<Rightarrow> 'b process_scheme" where
  "stack_restored s r = r\<lparr>
     stackLowerAddress := moved_low s r,
     ctx := setRBP (ptr_guard r) (setRSP (ptr_guard r) (setPC (ptr_guard r) (ctx r)
              (getPC (ptr_guard s) (ctx s))) (moved_low s r))
              (getRBP (ptr_guard s) (ctx s) + (moved_low s r - live_low s)),
     mem := write_bytes (mem r) (moved_low s r) (read_bytes (mem s) (live_low s) (live_size s))\<rparr>"

lemma wide_stack_size:
  assumes "live_size s < 2147483648"
  defines "k \<equiv> scast (get_stack_size (s\<lparr>stackLowerAddress := live_low s\<rparr>)) :: 64 word"
  shows "unat k = live_size s" and "k - 4 = stackHigherAddress s - live_low s"
proof -
  have "k = of_int (int (live_size s))"
    unfolding k_def by (metis of_int_sint stack_size_round(1) [OF assms(1)])
  then have k: "k = of_nat (live_size s)" by simp
  then show "unat k = live_size s" using assms(1) by (simp add: unat_of_nat)
  show "k - 4 = stackHigherAddress s - live_low s" unfolding k by (simp add: live_size_def)
qed

lemma restore_save_stack:
  assumes "live_size s < 2147483648" and "save_stack_seg s = (s1, out)"
  shows "s1 = s\<lparr>stackLowerAddress := live_low s\<rparr>"
    and "restore_stack_seg (out @ rest) r = Inr (stack_restored s r, rest)"
  using assms(2) wide_stack_size [OF assms(1)]
  by (auto simp: save_stack_seg_def restore_stack_seg_def Let_def live_low_def [symmetric]
      fread_exact_append fread_buf_append enc_simps stack_restored_def moved_low_def)

subsection \<open>The heap\<close>

definition saved :: "(address \<Rightarrow> byte) \<Rightarrow> Malloc_container \<Rightarrow> byte list" where
  "saved m c = enc_container c @ read_bytes m (load_addr m (container_address c)) (unat (msize c))"

lemma save_heap_loop_eq:
  assumes "dllseg (cells st) p q as" and "length as < fuel"
    and "list_all (sendable (mem st)) (entries st as)"
  shows "save_heap_loop fuel q st = Inr (concat (map (saved (mem st)) (entries st as)))"
  using assms
proof (induction as arbitrary: p q fuel)
  case Nil
  then show ?case by (cases fuel) (simp_all add: entries_def)
next
  case (Cons a as)
  obtain x where x: "q = a" "a \<noteq> 0" "get_cell a st = Inr x" "cells st a = Some x"
      "dllseg (cells st) a (next_ptr x) as"
    using Cons.prems(1) by (rule dllseg_step)
  have e: "entries st (a # as) = container x # entries st as"
    using x(4) by (simp add: entries_def)
  obtain k where k: "fuel = Suc k" "length as < k" using Cons.prems(2) by (cases fuel) auto
  have IH: "save_heap_loop k (next_ptr x) st = Inr (concat (map (saved (mem st)) (entries st as)))"
    using Cons.IH [OF x(5) k(2)] Cons.prems(3) e by simp
  have "container_address (container x) \<noteq> 0"
    "load_addr (mem st) (container_address (container x)) \<noteq> 0 \<or> msize (container x) = 0"
    using Cons.prems(3) by (auto simp: e sendable_def is_link_def)
  then show ?case
    using x IH k(1) by (simp add: e saved_def [of _ "container x"] Let_def err_simps)
qed

lemma restore_one:
  assumes reg: "registers st ds" and sup: "supplies alloc (allocs st) (requests [c])"
    and c: "container_address c \<noteq> 0" "\<not> is_link c"
    and av: "alloc_avoids alloc A" "container_address c \<in> set A"
  shows "restore_heap_loop alloc (Suc n) (saved m c @ fs) st = restore_heap_loop alloc n fs (install alloc m c st)"
proof -
  let ?n = "unat (msize c)"
  let ?q = "alloc (allocs st) ?n"
  let ?bs = "read_bytes m (load_addr m (container_address c)) ?n"
  define st1 where "st1 = st\<lparr>allocs := (?q, ?n) # allocs st,
      mem := store_addr (write_bytes (mem st) ?q ?bs) (container_address c) ?q\<rparr>"
  have f: "fresh_block (allocs st) ?q ?n" "?q \<noteq> 0"
    "fresh_block (allocs st1) (alloc (allocs st1) sizeof_Malloc_list) sizeof_Malloc_list"
    using sup c(2) by (auto simp: requests_def st1_def fresh_block_def)
  have "apart ?q ?n (container_address c) 8"
    using av f(1) by (auto simp: alloc_avoids_def list_all_iff)
  then have w: "write_bytes (store_addr (mem st) (container_address c) ?q) ?q ?bs = mem st1"
    by (simp add: st1_def store_addr_def write_write_apart enc_simps apart_sym)
  have "same_registry st st1" by (auto simp: same_registry_def st1_def)
  then have "registers st1 ds" using reg by (rule reg_log.same_logged)
  then have ap: "rep_append alloc (c\<lparr>allocated_address := ?q\<rparr>) st1
      = Inr (appended (alloc (allocs st1) sizeof_Malloc_list) (c\<lparr>allocated_address := ?q\<rparr>) st1)"
    using f(3) by (rule rep_append_fresh)
  have cm: "c_malloc alloc ?n st = (?q, st\<lparr>allocs := (?q, ?n) # allocs st\<rparr>)"
    using f(1) by (simp add: c_malloc_def Let_def)
  have st1: "st\<lparr>allocs := (?q, ?n) # allocs st, mem := mem st1\<rparr> = st1" by (simp add: st1_def)
  have "install alloc m c st = appended (alloc (allocs st1) sizeof_Malloc_list) (c\<lparr>allocated_address := ?q\<rparr>) st1"
    using c(2) by (simp add: install_def Let_def st1_def)
  then show ?thesis
    using c(1) f(2) ap cm w st1
    by (simp add: saved_def fread_exact_append fread_buf_append enc_simps err_simps Let_def)
qed

lemma restore_heap_loop_eq:
  assumes "registers st ds" and "supplies alloc (allocs st) (requests cs)"
    and "list_all (\<lambda>c. container_address c \<noteq> 0 \<and> \<not> is_link c) cs"
    and "alloc_avoids alloc A" and "container_address ` set cs \<subseteq> set A"
  shows "restore_heap_loop alloc (length cs) (concat (map (saved m) cs) @ rest) st =
     Inr (fold (install alloc m) cs st, rest)"
  using assms
proof (induction cs arbitrary: st ds)
  case Nil
  then show ?case by simp
next
  case (Cons c cs)
  have sup: "supplies alloc (allocs st) (requests [c])"
    "supplies alloc (allocs (install alloc m c st)) (requests cs)"
    using Cons.prems(2) supplies_append [of alloc "allocs st" "requests [c]" "requests cs"]
    by (simp_all add: requests_def install_allocs)
  have "restore_heap_loop alloc (length (c # cs)) (concat (map (saved m) (c # cs)) @ rest) st =
      restore_heap_loop alloc (length cs) (concat (map (saved m) cs) @ rest) (install alloc m c st)"
    using restore_one [OF Cons.prems(1) sup(1) _ _ Cons.prems(4)] Cons.prems(3,5)
    by (simp del: restore_heap_loop.simps)
  also have "\<dots> = Inr (fold (install alloc m) cs (install alloc m c st), rest)"
    using Cons.prems install_registers [OF Cons.prems(1) sup(1)] sup(2)
    by (intro Cons.IH) auto
  finally show ?case by simp
qed

lemma save_heap_seg_eq:
  assumes "heap_sender st as" and "length as < fuel"
  shows "save_heap_seg fuel st =
     Inr (enc_int (malloc_number_of_allocations st) @ concat (map (saved (mem st)) (entries st as)))"
  using assms save_heap_loop_eq [of st 0 "head st" as fuel]
  by (simp add: save_heap_seg_def heap_sender_def registry_def list_all_iff)

lemma restore_save_heap:
  assumes "heap_sender s as" and "list_all (\<lambda>c. \<not> is_link c) (entries s as)" and "registers r ds"
    and "supplies alloc (allocs r) (requests (entries s as))"
    and "alloc_avoids alloc (map container_address (entries s as))"
  shows "restore_heap_seg alloc (enc_int (malloc_number_of_allocations s) @
       concat (map (saved (mem s)) (entries s as)) @ rest) r =
     Inr (fold (install alloc (mem s)) (entries s as)
       (r\<lparr>malloc_number_of_allocations := malloc_number_of_allocations s\<rparr>), rest)"
proof -
  let ?r = "r\<lparr>malloc_number_of_allocations := malloc_number_of_allocations s\<rparr>"
  have n: "nat (sint (malloc_number_of_allocations s)) = length (entries s as)"
    using assms(1) by (simp add: heap_sender_def entries_def)
  have nz: "list_all (\<lambda>c. container_address c \<noteq> 0 \<and> \<not> is_link c) (entries s as)"
    using assms(1,2) by (auto simp: heap_sender_def sendable_def list_all_iff)
  have "registers ?r ds" using assms(3) by (auto simp: registers_def registry_def entries_def)
  then show ?thesis
    using restore_heap_loop_eq [OF _ _ nz assms(5), of ?r ds "mem s" rest] assms(4) n
    by (simp add: restore_heap_seg_def fread_exact_append enc_simps)
qed

lemma restore_save_framework:
  "restore_framework_data (save_framework_data s @ rest) r = Inr (r\<lparr>pass_sender_cont_add := pass_sender_cont_add s,
     pass_receiver_cont_add := pass_receiver_cont_add s\<rparr>, rest)"
  by (simp add: restore_framework_data_def save_framework_data_def fread_exact_append enc_simps)

section \<open>The checkpoint as a whole\<close>

text \<open>
  The memory of the restored process: the live stack at its new place, the data segments,
  and what was there before everywhere else.
\<close>

definition restored_byte :: "'a process_scheme \<Rightarrow> 'b process_scheme \<Rightarrow> address \<Rightarrow> byte" where
  "restored_byte s r x =
     (if unat (x - moved_low s r) < live_size s then mem s (x - moved_low s r + live_low s)
      else if unat (x - bss_start s) < unat (bss_end s - bss_start s) then mem s x
      else if unat (x - data_start s) < unat (edata s - data_start s) then mem s x
      else mem r x)"

definition restored_from :: "'a process_scheme \<Rightarrow> 'b process_scheme \<Rightarrow> Malloc_container list \<Rightarrow> Malloc_container list \<Rightarrow> 'b process_scheme \<Rightarrow> bool" where
  "restored_from s r ds cs r' \<longleftrightarrow>
     (\<forall>c \<in> set cs. arrived (map container_address cs) (mem s) r' c) \<and>
     registers r' (ds @ map (entry_at (mem r')) cs) \<and>
     malloc_number_of_allocations r' = malloc_number_of_allocations s \<and>
     (\<forall>x. spared cs (allocs r') x \<longrightarrow> mem r' x = restored_byte s r x) \<and>
     getPC (ptr_guard r') (ctx r') = getPC (ptr_guard s) (ctx s) \<and>
     getRSP (ptr_guard r') (ctx r') = moved_low s r \<and>
     getRBP (ptr_guard r') (ctx r') - moved_low s r = getRBP (ptr_guard s) (ctx s) - live_low s \<and>
     stackLowerAddress r' = moved_low s r \<and>
     pass_sender_cont_add r' = pass_sender_cont_add s \<and>
     pass_receiver_cont_add r' = pass_receiver_cont_add s \<and>
     node r' = node r \<and> stackHigherAddress r' = stackHigherAddress r"

lemma restored_memory:
  assumes "live_size s < 2147483648"
  shows "mem (stack_restored s (data_restored s r)) x = restored_byte s r x"
proof -
  have "write_bytes m a (read_bytes m' b n) x = (if unat (x - a) < n then m' (x - a + b) else m x)"
    if "n < 2 ^ 64" for m m' a b n
    by (simp add: write_bytes_def Let_def read_bytes_nth add.commute)
  moreover have "live_size s < 2 ^ 64" using assms by simp
  moreover have "unat w < 2 ^ 64" for w :: "64 word" using unat_addr_less by simp
  moreover have "moved_low s (data_restored s r) = moved_low s r"
    by (simp add: moved_low_def data_restored_def)
  ultimately show ?thesis
    unfolding stack_restored_def data_restored_def restored_byte_def by simp
qed

lemma filter_no_links: "list_all (\<lambda>c. \<not> is_link c) cs \<Longrightarrow> filter (\<lambda>c. \<not> is_link c) cs = cs"
  by (simp add: list_all_iff filter_id_conv)

lemma more_extension:
  fixes R R' :: "'a process_scheme"
  assumes "heap.more R' = heap.more R"
  shows "stackHigherAddress R' = stackHigherAddress R" "pass_sender_cont_add R' = pass_sender_cont_add R"
  using assms by (cases R; cases R'; simp)+

lemma fold_install_more: "heap.more (fold (install alloc m) cs st) = heap.more st"
  by (induction cs arbitrary: st) (simp_all add: install_def appended_def Let_def)

lemma init_ckpt_saves:
  assumes "live_size s < 2147483648" and "writable (CKPT_FILE_NAME (job_id (node s)))"
    and "heap_sender s as" and "length as < fuel"
  shows "\<exists>fs. \<forall>files. init_ckpt writable fuel files s =
     Inr (s\<lparr>stackLowerAddress := live_low s\<rparr>, files(CKPT_FILE_NAME (job_id (node s)) \<mapsto> fs))"
proof -
  let ?s = "s\<lparr>stackLowerAddress := live_low s\<rparr>"
  obtain out where out: "save_stack_seg s = (?s, out)"
    using restore_save_stack(1) [OF assms(1)] by (metis prod.collapse)
  have "heap_sender ?s as"
    using assms(3) by (simp add: heap_sender_def registry_def entries_def)
  then obtain h where "save_heap_seg fuel ?s = Inr h" using save_heap_seg_eq assms(4) by blast
  then show ?thesis using assms(2) out by (auto simp: init_ckpt_def guardE_True Let_def)
qed

lemma init_ckpt_restore_cong:
  "files (CKPT_FILE_NAME (job_id (node st))) = files' (CKPT_FILE_NAME (job_id (node st))) \<Longrightarrow>
   init_ckpt_restore alloc files st = init_ckpt_restore alloc files' st"
  by (simp add: init_ckpt_restore_def)

lemma checkpoint_pair:
  fixes s :: "'a process_scheme" and r :: "'b process_scheme"
  assumes small: "live_size s < 2147483648" and sym: "same_symbols s r" and wf: "wf_jmp_buf (ctx r)"
    and job: "job_id (node r) = job_id (node s)" and w: "writable (CKPT_FILE_NAME (job_id (node s)))"
    and hs: "heap_sender s as" "length as < fuel" "list_all (\<lambda>c. \<not> is_link c) (entries s as)"
    and hr: "registers r ds" "supplies alloc (allocs r) (requests (entries s as))"
      "alloc_avoids alloc (map container_address (entries s as))"
  shows "\<exists>files' r'. init_ckpt writable fuel files s = Inr (s\<lparr>stackLowerAddress := live_low s\<rparr>, files') \<and>
     does_ckpt_file_exists files' r \<and> init_ckpt_restore alloc files' r = Inr r' \<and>
     restored_from s r ds (entries s as) r' \<and> process.more r' = process.more r \<and>
     allocs r' = grow alloc (allocs r) (requests (entries s as))"
proof -
  let ?cs = "entries s as"
  define s1 where "s1 = s\<lparr>stackLowerAddress := live_low s\<rparr>"
  define r2 where "r2 = (stack_restored s (data_restored s r))\<lparr>malloc_number_of_allocations := malloc_number_of_allocations s\<rparr>"
  define r3 where "r3 = fold (install alloc (mem s)) ?cs r2"
  obtain out where out: "save_stack_seg s = (s1, out)"
    using restore_save_stack(1) [OF small] s1_def by (metis prod.collapse)
  let ?h = "enc_int (malloc_number_of_allocations s) @ concat (map (saved (mem s)) ?cs)"
  have e: "entries s1 as = ?cs" "mem s1 = mem s" "malloc_number_of_allocations s1 = malloc_number_of_allocations s"
    by (simp_all add: s1_def entries_def)
  have "heap_sender s1 as"
    using hs(1) by (simp add: heap_sender_def registry_def entries_def s1_def)
  then have h: "save_heap_seg fuel s1 = Inr ?h"
    using save_heap_seg_eq [of s1 as fuel] hs(2) by (simp only: e)
  let ?fs = "save_data_seg s @ out @ ?h @ save_framework_data s1"
  have ck: "init_ckpt writable fuel files s = Inr (s1, files(CKPT_FILE_NAME (job_id (node s)) \<mapsto> ?fs))"
    using w out h by (simp add: init_ckpt_def guardE_True Let_def)
  have r2h: "registers r2 ds" "allocs r2 = allocs r"
    using hr(1) by (auto simp: r2_def registers_def registry_def entries_def stack_restored_def data_restored_def)
  have "registers (stack_restored s (data_restored s r)) ds" "allocs (stack_restored s (data_restored s r)) = allocs r"
    using hr(1) by (auto simp: registers_def registry_def entries_def stack_restored_def data_restored_def)
  then have rh: "restore_heap_seg alloc (?h @ rest) (stack_restored s (data_restored s r)) = Inr (r3, rest)" for rest
    using restore_save_heap [OF hs(1,3), of "stack_restored s (data_restored s r)" ds] hr(2,3)
    by (simp add: r2_def r3_def)
  let ?r = "r3\<lparr>pass_sender_cont_add := pass_sender_cont_add s, pass_receiver_cont_add := pass_receiver_cont_add s\<rparr>"
  have fw: "restore_framework_data (save_framework_data s1) r3 = Inr (?r, [])"
    using restore_save_framework [of s1 "[]" r3] by (simp add: s1_def)
  have "init_ckpt_restore alloc (files(CKPT_FILE_NAME (job_id (node s)) \<mapsto> ?fs)) r = Inr ?r"
    using restore_save_data [OF sym] restore_save_stack(2) [OF small out, where r = "data_restored s r"] rh fw job
    by (simp add: init_ckpt_restore_def some_or_Some)
  moreover have "restored_from s r ds ?cs ?r"
  proof -
    have all: "(\<forall>c \<in> set ?cs. arrived (map container_address ?cs) (mem s) r3 c) \<and>
        registers r3 (ds @ map (entry_at (mem r3)) (filter (\<lambda>c. \<not> is_link c) ?cs))"
      unfolding r3_def using hr(2,3) r2h hs(1)
      by (intro install_all [where B = "{}"]) (auto simp: heap_sender_def)
    have "mem r3 x = restored_byte s r x" if "spared ?cs (allocs r3) x" for x
      using fold_install_spared [of ?cs alloc "mem s" r2 x] that restored_memory [OF small, of r]
      by (simp add: r3_def r2_def)
    moreover have "malloc_number_of_allocations r3 = malloc_number_of_allocations s"
      by (simp add: r3_def fold_install_counters r2_def)
    moreover have m: "heap.more r3 = heap.more r2" by (simp add: r3_def fold_install_more)
    ultimately show ?thesis
      using all wf same_extension [OF m] more_extension [OF m] filter_no_links [OF hs(3)]
      by (auto simp: restored_from_def registers_def registry_def entries_def arrived_def r2_def
          stack_restored_def data_restored_def moved_low_def live_low_def)
  qed
  moreover have "process.more ?r = process.more r"
    using same_extension(5) [of r3 r2] by (simp add: r3_def fold_install_more r2_def stack_restored_def data_restored_def)
  moreover have "allocs ?r = grow alloc (allocs r) (requests ?cs)"
    using r2h(2) by (simp add: r3_def fold_install_allocs)
  ultimately show ?thesis
    using ck job by (auto simp: s1_def does_ckpt_file_exists_def)
qed

text \<open>
  C3: a checkpoint restores. Take a process with a live stack below 2 GiB and a well-formed
  registry without aliases, write its checkpoint, and restore the file in a process of the
  same program and job whose stack may end at another address. Both run to the end; the
  restored process resumes at the saved program counter, with the live stack moved to the
  same distance below its own stack top and stack and base pointer moved along, the saved
  data segments, a fresh block with the saved bytes behind every registered pointer, the
  saved allocation count and framework flags, and its registry extended by the saved
  entries.
\<close>

theorem checkpoint_restores:
  fixes s r :: process
  assumes small: "live_size s < 2147483648" and sym: "same_symbols s r" and wf: "wf_jmp_buf (ctx r)"
    and job: "job_id (node r) = job_id (node s)" and w: "writable (CKPT_FILE_NAME (job_id (node s)))"
    and hs: "heap_sender s as" "length as < fuel" "list_all (\<lambda>c. \<not> is_link c) (entries s as)"
    and hr: "registers r ds" "supplies alloc (allocs r) (requests (entries s as))"
      "alloc_avoids alloc (map container_address (entries s as))"
  shows "\<exists>files' r'. init_ckpt writable fuel files s = Inr (s\<lparr>stackLowerAddress := live_low s\<rparr>, files') \<and>
     does_ckpt_file_exists files' r \<and> init_ckpt_restore alloc files' r = Inr r' \<and>
     restored_from s r ds (entries s as) r'"
  using checkpoint_pair [where writable = writable, OF assms, of files] by blast

definition plain_heap :: heap where
  "plain_heap = \<lparr>mem = store_addr (\<lambda>x. ucast x) 64 4096, allocs = [(4112, 48), (4096, 8)],
     cells = [4112 \<mapsto> \<lparr>container = \<lparr>container_address = 64, linked_address = 0, allocated_address = 4096, msize = 8\<rparr>,
                       next_ptr = 0, prev_ptr = 0\<rparr>],
     head = 4112, tail = 4112, total_malloc_allocation_size = 8, malloc_number_of_allocations = 1,
     mem_state = DISCONTIGUOUS\<rparr>"

theorem checkpoint_restores_witness:
  "\<exists>files' r'. init_ckpt (\<lambda>_. True) 5 (\<lambda>_. None) (demo_process 7 NODE_DATA_NONE plain_heap) =
       Inr ((demo_process 7 NODE_DATA_NONE plain_heap)\<lparr>stackLowerAddress := 8000\<rparr>, files') \<and>
     does_ckpt_file_exists files' ((demo_process 5 NODE_DATA_NONE empty_heap)\<lparr>stackHigherAddress := 9040\<rparr>) \<and>
     init_ckpt_restore arena files' ((demo_process 5 NODE_DATA_NONE empty_heap)\<lparr>stackHigherAddress := 9040\<rparr>) = Inr r' \<and>
     restored_from (demo_process 7 NODE_DATA_NONE plain_heap)
       ((demo_process 5 NODE_DATA_NONE empty_heap)\<lparr>stackHigherAddress := 9040\<rparr>) [] (entries plain_heap [4112]) r'"
proof -
  let ?s = "demo_process 7 NODE_DATA_NONE plain_heap"
  let ?r = "(demo_process 5 NODE_DATA_NONE empty_heap)\<lparr>stackHigherAddress := 9040\<rparr>"
  have cs: "entries plain_heap [4112] = [\<lparr>container_address = 64, linked_address = 0, allocated_address = 4096, msize = 8\<rparr>]"
    by (simp add: entries_def plain_heap_def)
  have p: "same_symbols ?s ?r" "wf_jmp_buf (ctx ?r)" "job_id (node ?r) = job_id (node ?s)"
    by (simp_all add: same_symbols_def demo_process_def heap.defs reg_defs demo_node_def)
  have "heap_sender plain_heap [4112]"
    unfolding heap_sender_def cs
    by (simp add: plain_heap_def registry_def sendable_def is_link_def fits_after_def)
  then have h: "heap_sender ?s [4112]" by (simp add: heap_roles_process)
  have l: "list_all (\<lambda>c. \<not> is_link c) (entries ?s [4112])" by (simp add: heap_roles_process cs is_link_def)
  have r: "registers ?r []"
    by (auto simp: registers_def entries_def registry_Nil demo_process_def heap.defs empty_heap_def intro!: exI [of _ "[]"])
  have "allocs ?r = []" by (simp add: demo_process_def heap.defs empty_heap_def)
  then have sup: "supplies arena (allocs ?r) (requests (entries ?s [4112]))"
    by (simp add: heap_roles_process cs requests_def is_link_def
        fresh_block_def arena_def sizeof_Malloc_list_def apart_def)
  have av: "alloc_avoids arena (map container_address (entries ?s [4112]))"
    by (rule arena_avoids) (simp add: heap_roles_process cs)
  show ?thesis
    using checkpoint_restores [of ?s ?r "\<lambda>_. True", OF _ p _ h _ l r sup av, of 5 "\<lambda>_. None"]
    by (simp add: heap_roles_process)
qed

text \<open>
  C31: an alias does not survive a checkpoint. The record of an alias (size 0, non-null
  linked address) is restored by a fresh \<open>malloc(0)\<close>: afterwards the alias and its source
  point at different blocks, while in the saved process, and after a replication, they are
  equal.
\<close>

theorem restore_unlinks_alias:
  assumes "is_link c" and "container_address c \<noteq> 0" and "registers st ds"
    and "supplies alloc (allocs st) [0, sizeof_Malloc_list]"
    and "load_addr (mem st) (linked_address c) \<in> fst ` set (allocs st)"
    and "apart (container_address c) 8 (linked_address c) 8"
  shows "\<exists>st'. restore_heap_loop alloc 1 (saved m c) st = Inr (st', []) \<and>
     load_addr (mem st') (linked_address c) = load_addr (mem st) (linked_address c) \<and>
     load_addr (mem st') (container_address c) \<noteq> load_addr (mem st') (linked_address c)"
proof -
  let ?q = "alloc (allocs st) 0"
  define st1 where "st1 = st\<lparr>allocs := (?q, 0) # allocs st, mem := store_addr (mem st) (container_address c) ?q\<rparr>"
  have z: "msize c = 0" using assms(1) by (simp add: is_link_def)
  have f: "fresh_block (allocs st) ?q 0"
    "fresh_block (allocs st1) (alloc (allocs st1) sizeof_Malloc_list) sizeof_Malloc_list"
    using assms(4) by (simp_all add: st1_def)
  have q: "?q \<notin> fst ` set (allocs st)"
    using f(1) by (auto simp: fresh_block_def apart_def list_all_iff)
  have "same_registry st st1" by (auto simp: same_registry_def st1_def)
  then have "registers st1 ds" using assms(3) by (rule reg_log.same_logged)
  then have "rep_append alloc (c\<lparr>allocated_address := ?q\<rparr>) st1
      = Inr (appended (alloc (allocs st1) sizeof_Malloc_list) (c\<lparr>allocated_address := ?q\<rparr>) st1)"
    using f(2) by (rule rep_append_fresh)
  moreover have "c_malloc alloc 0 st = (?q, st\<lparr>allocs := (?q, 0) # allocs st\<rparr>)"
    using f(1) by (simp add: c_malloc_def Let_def)
  moreover have "write_bytes mm a [] = mm" for mm a by (simp add: write_bytes_def)
  ultimately have "restore_heap_loop alloc 1 (saved m c) st =
      Inr (appended (alloc (allocs st1) sizeof_Malloc_list) (c\<lparr>allocated_address := ?q\<rparr>) st1, [])"
    using assms(2) z
    by (simp add: saved_def fread_exact_def fread_buf_def read_bytes_def enc_simps guardE_True Let_def st1_def)
  moreover have "load_addr (mem st1) (linked_address c) = load_addr (mem st) (linked_address c)"
    using assms(6) by (simp add: st1_def load_store_apart)
  moreover have "?q \<noteq> load_addr (mem st) (linked_address c)" using q assms(5) by metis
  ultimately show ?thesis by (simp add: st1_def)
qed

theorem restore_unlinks_alias_witness:
  "\<exists>st'. restore_heap_loop arena 1 (saved (\<lambda>_. 0) \<lparr>container_address = 72, linked_address = 64,
        allocated_address = 4096, msize = 0\<rparr>) (plain_heap\<lparr>allocs := [(1048608, 48), (4112, 48), (4096, 8)]\<rparr>) = Inr (st', []) \<and>
     load_addr (mem st') 64 = 4096 \<and> load_addr (mem st') 72 \<noteq> load_addr (mem st') 64"
proof -
  let ?c = "\<lparr>container_address = 72, linked_address = 64, allocated_address = 4096, msize = 0\<rparr>"
  let ?st = "plain_heap\<lparr>allocs := [(1048608, 48), (4112, 48), (4096, 8)]\<rparr>"
  have "registers ?st [\<lparr>container_address = 64, linked_address = 0, allocated_address = 4096, msize = 8\<rparr>]"
    by (auto simp: registers_def entries_def registry_def plain_heap_def intro!: exI [of _ "[4112]"])
  moreover have "load_addr (mem ?st) 64 = 4096" by (simp add: plain_heap_def)
  moreover have "supplies arena (allocs ?st) [0, sizeof_Malloc_list]"
    by (simp add: fresh_block_def arena_def sizeof_Malloc_list_def apart_def)
  ultimately show ?thesis
    using restore_unlinks_alias [of ?c ?st _ arena "\<lambda>_. 0"] by (simp add: is_link_def apart_def)
qed

end
