(* ===== verification/Manager.thy ===== *)
theory Manager
  imports Decimal
begin

text \<open>
  The writer of the replication map: the job map of \<open>src/manager/manager/manager.go\<close> and its
  file format. A \<open>JobMap\<close> is the list of its jobs by key; the program only ever uses the
  keys 0 to n - 1.
\<close>

section \<open>Job maps\<close>

record Rank =
  Rank_Rank :: int
  PrevJob :: int
  StackAdd :: "64 word"

record GoJob =
  JobID :: int
  RankList :: "Rank list"
  Modified :: int

type_synonym JobMap = "GoJob list"

definition NewJob :: "int \<Rightarrow> GoJob" where
  "NewJob jobID = \<lparr>JobID = jobID, RankList = [], Modified = 1\<rparr>"

definition InsertRank :: "Rank \<Rightarrow> GoJob \<Rightarrow> GoJob" where
  "InsertRank r j = j\<lparr>RankList := RankList j @ [r]\<rparr>"

definition InitJobMap :: "nat \<Rightarrow> nat \<Rightarrow> JobMap" where
  "InitJobMap j_no r_no =
     foldl (\<lambda>jm i. jm[i mod j_no := InsertRank \<lparr>Rank_Rank = int i, PrevJob = -1, StackAdd = 0\<rparr> (jm ! (i mod j_no))])
       (map (\<lambda>i. NewJob (int i)) [0..<j_no]) [0..<r_no]"

definition CountTotalRanks :: "JobMap \<Rightarrow> int" where
  "CountTotalRanks jm = foldl (\<lambda>c j. c + int (length (RankList j))) 0 jm"

definition ResetModified :: "JobMap \<Rightarrow> JobMap" where
  "ResetModified jm = map (\<lambda>j. j\<lparr>Modified := 0\<rparr>) jm"

section \<open>The file\<close>

definition tab :: string where "tab = [CHR 0x09]"
definition newline :: string where "newline = [CHR 0x0A]"

definition job_line :: "nat \<Rightarrow> GoJob \<Rightarrow> string" where
  "job_line k j = int_string (Modified j) @ tab @ int_string (int k) @ tab @ int_string (int (length (RankList j))) @
     concat (map (\<lambda>v. tab @ int_string (Rank_Rank v)) (RankList j)) @ newline"

definition legend :: string where
  "legend = ''[first line: <TOTAL_CORES><TAB><NO_OF_JOBS>]'' @ newline @
     ''[followed by (in each line): <UPDATE_BIT><TAB><JOB_ID><TAB><NO_OF_WORKERS><TAB><ORIGINAL_RANK_1><TAB><ORIGINAL_RANK_2><TAB>...]'' @
     newline @ ''<JOB_ID> starts with 0'' @ newline @ ''<ORIGINAL_RANK_*> starts with 0''"

definition WriteToFile :: "JobMap \<Rightarrow> string" where
  "WriteToFile jm = int_string (CountTotalRanks jm) @ tab @ int_string (int (length jm)) @ newline @
     concat (map (\<lambda>(k, j). job_line k j) (enumerate 0 jm)) @ legend"

section \<open>The initial map\<close>

lemma InitJobMap_Suc:
  "InitJobMap j (Suc r) = (InitJobMap j r)[r mod j := InsertRank \<lparr>Rank_Rank = int r, PrevJob = -1, StackAdd = 0\<rparr>
     (InitJobMap j r ! (r mod j))]"
  by (simp add: InitJobMap_def)

lemma length_InitJobMap [simp]: "length (InitJobMap j r) = j"
proof (induction r)
  case 0
  then show ?case by (simp add: InitJobMap_def)
next
  case (Suc r)
  then show ?case by (simp add: InitJobMap_Suc)
qed

text \<open>Job \<open>k\<close> of the initial map holds the ranks congruent to \<open>k\<close>, in order.\<close>

lemma InitJobMap_ranks:
  "k < j \<Longrightarrow> map Rank_Rank (RankList (InitJobMap j r ! k)) = map int (filter (\<lambda>i. i mod j = k) [0..<r])"
proof (induction r)
  case 0
  then show ?case by (simp add: InitJobMap_def NewJob_def)
next
  case (Suc r)
  then show ?case
    by (cases "r mod j = k") (simp_all add: InitJobMap_Suc InsertRank_def)
qed

lemma InitJobMap_modified: "k < j \<Longrightarrow> Modified (InitJobMap j r ! k) = 1"
proof (induction r)
  case 0
  then show ?case by (simp add: InitJobMap_def NewJob_def)
next
  case (Suc r)
  then show ?case
    by (cases "r mod j = k") (simp_all add: InitJobMap_Suc InsertRank_def)
qed

end
