(* ===== verification/Comm.thy ===== *)
theory Comm
  imports Full_Context Manager "HOL-Library.Multiset"
begin

text \<open>
  \<open>src/mpi/comm.c\<close>: the parser of the replication map, the node's own role in it, and the
  colours and keys with which it splits the world communicator. The state is the process of
  \<open>Segments\<close> extended by the remaining globals of \<open>src/mpi/init.c\<close>. A map file that does
  not open is \<open>None\<close>. What \<open>PMPI_Comm_split\<close> returns to this process is the parameter
  \<open>split\<close> (the number of the call, the old communicator, colour and key; the colour \<open>None\<close> is
  \<open>MPI_UNDEFINED\<close>).
\<close>

section \<open>Globals\<close>

record globals = process +
  job_list :: "Job option list"
  rank_2_job :: "int option list option"
  rank_ignore_list :: "int list"
  ckpt_restore :: CkptRestore
  job_comm :: MPI_Comm
  rep_flag :: int
  request_pending :: int
  last_file_update :: int
  replication_idx :: int
  rep_counter :: int
  ckpt_counter :: int
  ignore_process_failure :: int
  process_shrinking_pending :: int

type_synonym request = "int option \<times> int"
type_synonym splitter = "nat \<Rightarrow> MPI_Comm \<Rightarrow> request \<Rightarrow> MPI_Comm"

section \<open>The map file\<close>

text \<open>The effect of one worker of a line on the node's own record.\<close>

definition assign_worker :: "int \<Rightarrow> int \<Rightarrow> int \<Rightarrow> int \<Rightarrow> int \<Rightarrow> int \<Rightarrow> Node \<Rightarrow> Node" where
  "assign_worker jobs update_bit j_id w_c j w_rank n =
     (let my_rank = rank n;
          n1 = (if j = 0 \<and> w_rank = my_rank then n\<lparr>node_checkpoint_master := YES\<rparr> else n)
      in if w_rank = my_rank \<and> update_bit = 1
         then (if job_id n1 \<noteq> j_id
               then n1\<lparr>age := 1, job_id := j_id, node_transit_state := NODE_DATA_RECEIVER\<rparr>
               else n1\<lparr>age := age n1 + 1,
                       node_transit_state := (if j = 0 \<and> w_c > 1 then NODE_DATA_SENDER else NODE_DATA_NONE)\<rparr>)
              \<lparr>jobs_count := jobs\<rparr>
         else n1)"

text \<open>
  The loop over the workers of one line: \<open>n\<close> passes are left, this is pass \<open>j\<close>. A rank that
  does not scan leaves \<open>w_rank\<close> as it was.
\<close>

primrec parse_workers :: "nat \<Rightarrow> int \<Rightarrow> int \<Rightarrow> int \<Rightarrow> int \<Rightarrow> int \<Rightarrow> int option \<Rightarrow> string \<Rightarrow> 'a globals_scheme \<Rightarrow>
    ('a globals_scheme \<times> string) result" where
  "parse_workers 0 jobs update_bit j_id w_c j w_rank0 s st = Inr (st, s)"
| "parse_workers (Suc n) jobs update_bit j_id w_c j w_rank0 s st =
     bindE (fscanf_d s) (\<lambda>(v, s1).
     bindE (some_or Uninitialised (case v of None \<Rightarrow> w_rank0 | Some i \<Rightarrow> Some i)) (\<lambda>w_rank.
     bindE (some_or Null_Deref (rank_2_job st)) (\<lambda>tbl.
     bindE (aset tbl w_rank (Some j_id)) (\<lambda>tbl1.
     bindE (aget (job_list st) j_id) (\<lambda>entry.
     bindE (some_or Uninitialised entry) (\<lambda>jb.
     bindE (aset (job_list st) j_id (Some (jb\<lparr>rank_list := rank_list jb @ [w_rank]\<rparr>))) (\<lambda>jl.
       parse_workers n jobs update_bit j_id w_c (j + 1) (Some w_rank) s1
         (st\<lparr>rank_2_job := Some tbl1,
             node := assign_worker jobs update_bit j_id w_c j w_rank (node st),
             job_list := jl\<rparr>))))))))"

primrec parse_jobs :: "nat \<Rightarrow> int \<Rightarrow> string \<Rightarrow> 'a globals_scheme \<Rightarrow> ('a globals_scheme \<times> string) result" where
  "parse_jobs 0 jobs s st = Inr (st, s)"
| "parse_jobs (Suc n) jobs s st =
     bindE (fscanf_ds 3 s) (\<lambda>(vs, s1).
     bindE (scanned vs 0) (\<lambda>update_bit.
     bindE (scanned vs 1) (\<lambda>j_id.
     bindE (scanned vs 2) (\<lambda>w_c.
     bindE (guardE (j_id < jobs) Assert_Failed) (\<lambda>_.
     bindE (guardE (0 < w_c) Assert_Failed) (\<lambda>_.
     bindE (aset (job_list st) j_id (Some \<lparr>job_job_id = j_id, worker_count = w_c, rank_list = []\<rparr>)) (\<lambda>jl.
     bindE (parse_workers (nat w_c) jobs update_bit j_id w_c 0 None s1 (st\<lparr>job_list := jl\<rparr>)) (\<lambda>(st1, s2).
       parse_jobs n jobs s2 st1))))))))"

text \<open>Freeing the rank lists of the previous map reads its first \<open>jobs_count\<close> entries.\<close>

primrec free_rank_lists :: "nat \<Rightarrow> Job option list \<Rightarrow> unit result" where
  "free_rank_lists 0 jl = Inr ()"
| "free_rank_lists (Suc k) jl =
     bindE (free_rank_lists k jl) (\<lambda>_.
     bindE (aget jl (int k)) (\<lambda>entry.
     bindE (some_or Uninitialised entry) (\<lambda>_. Inr ())))"

definition parse_map_file :: "string option \<Rightarrow> 'a globals_scheme \<Rightarrow> 'a globals_scheme result" where
  "parse_map_file file st =
     (if ckpt_restore st = RESTORE_YES then Inr st
      else case file of
        None \<Rightarrow> Inl (Exit_With 0)
      | Some s \<Rightarrow>
          bindE (fscanf_ds 2 s) (\<lambda>(vs, s1).
          let st1 = st\<lparr>node := (node st)\<lparr>node_checkpoint_master := NO, node_transit_state := NODE_DATA_NONE\<rparr>\<rparr>
          in bindE (free_rank_lists (nat (jobs_count (node st1))) (job_list st1)) (\<lambda>_.
             bindE (case rank_2_job st1 of
                      None \<Rightarrow> bindE (scanned vs 0) (\<lambda>cores. Inr (replicate (nat cores) None))
                    | Some tbl \<Rightarrow> Inr tbl) (\<lambda>tbl.
             bindE (scanned vs 1) (\<lambda>jobs.
             bindE (parse_jobs (nat jobs) jobs s1
                      (st1\<lparr>rank_2_job := Some tbl, job_list := replicate (nat jobs) None\<rparr>))
               (\<lambda>(st2, _). Inr st2))))))"

section \<open>Communicators\<close>

text \<open>Colour and key of the three splits.\<close>

definition active_request :: "Node \<Rightarrow> request" where
  "active_request n = (if node_checkpoint_master n = NO then None else Some 0, job_id n)"

definition job_request :: "Node \<Rightarrow> request" where
  "job_request n = (Some (job_id n), if node_checkpoint_master n = YES then 0 else 1)"

text \<open>\<open>key0\<close> is the uninitialised key of a node that takes no part.\<close>

definition migration_request :: "int \<Rightarrow> Node \<Rightarrow> request" where
  "migration_request key0 n =
     (if node_transit_state n \<noteq> NODE_DATA_NONE
      then (Some (job_id n), if node_transit_state n = NODE_DATA_SENDER then 0 else 1)
      else (None, key0))"

definition update_comms :: "splitter \<Rightarrow> 'a globals_scheme \<Rightarrow> 'a globals_scheme" where
  "update_comms split st =
     (let n = node st;
          n1 = n\<lparr>active_comm := split 0 (rep_mpi_comm_world n) (active_request n)\<rparr>;
          n2 = n1\<lparr>world_job_comm := split 1 (rep_mpi_comm_world n1) (job_request n1)\<rparr>
      in st\<lparr>node := n2\<rparr>)"

definition init_node :: "splitter \<Rightarrow> int \<Rightarrow> nat \<Rightarrow> string option \<Rightarrow> 'a globals_scheme \<Rightarrow> 'a globals_scheme result" where
  "init_node split my_rank comm_size file st =
     (let st1 = st\<lparr>node := (node st)\<lparr>rank := my_rank, static_rank := my_rank, job_id := -1\<rparr>,
                   rank_ignore_list := replicate comm_size 0\<rparr>
      in bindE (parse_map_file file st1) (\<lambda>st2.
         let st3 = update_comms split st2
         in Inr (st3\<lparr>node := (node st3)\<lparr>node_transit_state := NODE_DATA_NONE\<rparr>\<rparr>)))"

definition create_migration_comm :: "splitter \<Rightarrow> int \<Rightarrow> 'a globals_scheme \<Rightarrow> 'a globals_scheme \<times> int" where
  "create_migration_comm split key0 st =
     (if ckpt_restore st = RESTORE_YES then (st\<lparr>rep_flag := 0\<rparr>, 1)
      else let n = node st;
               flag = (if node_transit_state n \<noteq> NODE_DATA_NONE then 1 else 0)
           in (st\<lparr>rep_flag := flag, job_comm := split 2 (rep_mpi_comm_world n) (migration_request key0 n)\<rparr>,
               if flag \<noteq> 0 \<or> node_checkpoint_master n = YES then 1 else 0))"

section \<open>Reading back a written map\<close>

definition ranks :: "GoJob \<Rightarrow> int list" where
  "ranks j = map Rank_Rank (RankList j)"

primrec numbered :: "int \<Rightarrow> 'b list \<Rightarrow> (int \<times> 'b) list" where
  "numbered i [] = []"
| "numbered i (x # xs) = (i, x) # numbered (i + 1) xs"

text \<open>The effect of one job line, without the text.\<close>

definition load_job :: "int \<Rightarrow> nat \<times> GoJob \<Rightarrow> 'a globals_scheme \<Rightarrow> 'a globals_scheme" where
  "load_job jobs = (\<lambda>(k, j) st. st\<lparr>
     rank_2_job := Some (fold (\<lambda>w t. t[nat w := Some (int k)]) (ranks j) (the (rank_2_job st))),
     node := fold (\<lambda>(i, w). assign_worker jobs (Modified j) (int k) (int (length (RankList j))) i w)
               (numbered 0 (ranks j)) (node st),
     job_list := (job_list st)[k := Some \<lparr>job_job_id = int k, worker_count = int (length (RankList j)),
                                          rank_list = ranks j\<rparr>]\<rparr>)"

lemma space_tab: "\<forall>ch \<in> set tab. is_space ch" "\<forall>ch \<in> set newline. is_space ch"
  by (simp_all add: tab_def newline_def is_space_def)

lemma ends_tab: "ends_number (tab @ s)" "ends_number (newline @ s)"
  by (simp_all add: tab_def newline_def ends_number_def is_digit_def)

lemma parse_workers_text:
  assumes "rank_2_job st = Some tbl" and "\<forall>w \<in> set ws. 0 \<le> w \<and> nat w < length tbl \<and> fits_int w"
    and "k < length (job_list st)" and "job_list st ! k = Some jb" and "ends_number s"
  shows "parse_workers (length ws) jobs u (int k) wc j w0 (concat (map (\<lambda>w. tab @ int_string w) ws) @ s) st =
     Inr (st\<lparr>rank_2_job := Some (fold (\<lambda>w t. t[nat w := Some (int k)]) ws tbl),
             node := fold (\<lambda>(i, w). assign_worker jobs u (int k) wc i w) (numbered j ws) (node st),
             job_list := (job_list st)[k := Some (jb\<lparr>rank_list := rank_list jb @ ws\<rparr>)]\<rparr>, s)"
  using assms
proof (induction ws arbitrary: st tbl jb j w0)
  case Nil
  have "(job_list st)[k := Some jb] = job_list st" using Nil(4) by (metis list_update_id)
  then show ?case using Nil(1) by simp
next
  case (Cons w ws)
  let ?st = "st\<lparr>rank_2_job := Some (tbl[nat w := Some (int k)]),
     node := assign_worker jobs u (int k) wc j w (node st),
     job_list := (job_list st)[k := Some (jb\<lparr>rank_list := rank_list jb @ [w]\<rparr>)]\<rparr>"
  have "ends_number (concat (map (\<lambda>w. tab @ int_string w) ws) @ s)"
    using Cons.prems(5) by (cases ws) (simp_all add: ends_tab)
  then have "fscanf_d (tab @ int_string w @ concat (map (\<lambda>w. tab @ int_string w) ws) @ s) =
      Inr (Some w, concat (map (\<lambda>w. tab @ int_string w) ws) @ s)"
    using Cons.prems(2) space_tab by (intro fscanf_d_int_string) auto
  moreover have "aset tbl w (Some (int k)) = Inr (tbl[nat w := Some (int k)])"
    using Cons.prems(2) by (simp add: aset_Inr)
  ultimately have "parse_workers (length (w # ws)) jobs u (int k) wc j w0
        (concat (map (\<lambda>w. tab @ int_string w) (w # ws)) @ s) st =
      parse_workers (length ws) jobs u (int k) wc (j + 1) (Some w) (concat (map (\<lambda>w. tab @ int_string w) ws) @ s) ?st"
    using Cons.prems(1,3,4) by (simp add: some_or_Some)
  also have "\<dots> = Inr (?st\<lparr>rank_2_job := Some (fold (\<lambda>w t. t[nat w := Some (int k)]) ws (tbl[nat w := Some (int k)])),
      node := fold (\<lambda>(i, w). assign_worker jobs u (int k) wc i w) (numbered (j + 1) ws) (node ?st),
      job_list := (job_list ?st)[k := Some ((jb\<lparr>rank_list := rank_list jb @ [w]\<rparr>)\<lparr>rank_list := (rank_list jb @ [w]) @ ws\<rparr>)]\<rparr>, s)"
    using Cons.prems Cons.IH [of ?st "tbl[nat w := Some (int k)]" "jb\<lparr>rank_list := rank_list jb @ [w]\<rparr>"]
    by simp
  finally show ?case by simp
qed

text \<open>A line the parser accepts against a table of \<open>cores\<close> ranks.\<close>

definition fit_job :: "nat \<Rightarrow> GoJob \<Rightarrow> bool" where
  "fit_job cores j \<longleftrightarrow> RankList j \<noteq> [] \<and> fits_int (Modified j) \<and> fits_int (int (length (RankList j))) \<and>
     list_all (\<lambda>w. 0 \<le> w \<and> nat w < cores \<and> fits_int w) (ranks j)"

lemma job_line_text:
  "job_line k j = int_string (Modified j) @ tab @ int_string (int k) @ tab @ int_string (int (length (RankList j))) @
     concat (map (\<lambda>w. tab @ int_string w) (ranks j)) @ newline"
  by (simp add: job_line_def ranks_def comp_def)

lemma fscanf_ds_head:
  assumes "\<forall>ch \<in> set w. is_space ch" and "fit_job cores j" and "fits_int (int k)"
  shows "fscanf_ds 3 (w @ job_line k j @ s) =
     Inr ([Modified j, int k, int (length (RankList j))],
          concat (map (\<lambda>w. tab @ int_string w) (ranks j)) @ newline @ s)"
proof -
  have "ranks j \<noteq> []" using assms(2) by (simp add: fit_job_def ranks_def)
  then have e: "ends_number (concat (map (\<lambda>w. tab @ int_string w) (ranks j)) @ newline @ s)"
    by (cases "ranks j") (simp_all add: ends_tab)
  have f: "fits_int (Modified j)" "fits_int (int (length (RankList j)))"
    using assms(2) by (simp_all add: fit_job_def)
  have nil: "\<forall>ch \<in> set []. is_space ch" by simp
  show ?thesis
    unfolding job_line_text append_assoc numeral_3_eq_3
    using fscanf_d_int_string [OF f(1) ends_tab(1) assms(1)]
      fscanf_d_int_string [OF assms(3) ends_tab(1) space_tab(1)]
      fscanf_d_int_string [OF f(2) e space_tab(1)]
    by simp
qed

lemma parse_job_text:
  assumes "rank_2_job st = Some tbl" and "fit_job (length tbl) j" and "k < length (job_list st)"
    and "int k < jobs" and "fits_int jobs" and "\<forall>ch \<in> set w. is_space ch"
  shows "parse_jobs (Suc n) jobs (w @ job_line k j @ s) st = parse_jobs n jobs (newline @ s) (load_job jobs (k, j) st)"
proof -
  have fk: "fits_int (int k)" using assms(4,5) by (simp add: fits_int_def)
  have f: "ranks j \<noteq> []" "\<forall>w \<in> set (ranks j). 0 \<le> w \<and> nat w < length tbl \<and> fits_int w"
    using assms(2) by (simp_all add: fit_job_def list_all_iff ranks_def)
  have "length (RankList j) = length (ranks j)" by (simp add: ranks_def)
  then show ?thesis
    using assms(1,3,4) f
      parse_workers_text [where st = "st\<lparr>job_list := (job_list st)[k := Some \<lparr>job_job_id = int k,
        worker_count = int (length (RankList j)), rank_list = []\<rparr>]\<rparr>" and ws = "ranks j" and tbl = tbl and k = k and
        s = "newline @ s"]
    by (simp add: fscanf_ds_head [OF assms(6,2) fk] scanned_def guardE_True load_job_def ends_tab nth_list_update)
qed

lemma load_job_sel [simp]:
  "length (job_list (load_job jobs kj st)) = length (job_list st)"
  "rank_2_job st = Some tbl \<Longrightarrow> \<exists>t. rank_2_job (load_job jobs kj st) = Some t \<and> length t = length tbl"
proof -
  have "length (fold (\<lambda>w t. t[nat w := v]) ws t) = length t" for ws v and t :: "int option list"
    by (induction ws arbitrary: t) auto
  then show "rank_2_job st = Some tbl \<Longrightarrow> \<exists>t. rank_2_job (load_job jobs kj st) = Some t \<and> length t = length tbl"
    by (simp add: load_job_def split: prod.splits)
qed (simp add: load_job_def split: prod.splits)

lemma parse_jobs_text:
  assumes "rank_2_job st = Some tbl" and "list_all (fit_job (length tbl)) js"
    and "k + length js \<le> length (job_list st)" and "int (length (job_list st)) \<le> jobs" and "fits_int jobs"
    and "\<forall>ch \<in> set w. is_space ch"
  shows "\<exists>s'. parse_jobs (length js) jobs (w @ concat (map (\<lambda>(k, j). job_line k j) (enumerate k js)) @ s) st =
     Inr (fold (load_job jobs) (enumerate k js) st, s')"
  using assms
proof (induction js arbitrary: k st tbl w)
  case Nil
  then show ?case by simp
next
  case (Cons j js)
  obtain t where t: "rank_2_job (load_job jobs (k, j) st) = Some t" "length t = length tbl"
    using load_job_sel(2) [OF Cons.prems(1)] by blast
  have "parse_jobs (Suc (length js)) jobs
        (w @ job_line k j @ concat (map (\<lambda>(k, j). job_line k j) (enumerate (Suc k) js)) @ s) st =
      parse_jobs (length js) jobs (newline @ concat (map (\<lambda>(k, j). job_line k j) (enumerate (Suc k) js)) @ s)
        (load_job jobs (k, j) st)"
    using Cons.prems by (intro parse_job_text) auto
  moreover have "\<exists>s'. parse_jobs (length js) jobs
        (newline @ concat (map (\<lambda>(k, j). job_line k j) (enumerate (Suc k) js)) @ s) (load_job jobs (k, j) st) =
      Inr (fold (load_job jobs) (enumerate (Suc k) js) (load_job jobs (k, j) st), s')"
    using Cons.prems t space_tab by (intro Cons.IH) auto
  ultimately show ?case by simp
qed

subsection \<open>What the loaded map says\<close>

definition entry_of :: "nat \<Rightarrow> GoJob \<Rightarrow> Job" where
  "entry_of k j = \<lparr>job_job_id = int k, worker_count = int (length (RankList j)), rank_list = ranks j\<rparr>"

lemma load_jobs_list:
  "i < length (job_list st) \<Longrightarrow> job_list (fold (load_job jobs) (enumerate k js) st) ! i =
     (if k \<le> i \<and> i < k + length js then Some (entry_of i (js ! (i - k))) else job_list st ! i)"
proof (induction js arbitrary: k st)
  case Nil
  then show ?case by auto
next
  case (Cons j js)
  have "job_list (load_job jobs (k, j) st) = (job_list st)[k := Some (entry_of k j)]"
    by (simp add: load_job_def entry_of_def)
  then show ?case
    using Cons.IH [of "load_job jobs (k, j) st" "Suc k"] Cons.prems
    by (cases "i = k") (auto simp: nth_Cons' nth_list_update)
qed

lemma load_jobs_list_length [simp]:
  "length (job_list (fold (load_job jobs) kjs st)) = length (job_list st)"
  by (induction kjs arbitrary: st) auto

lemma assign_worker_other: "w \<noteq> rank n \<Longrightarrow> assign_worker jobs u k wc i w n = n"
  by (simp add: assign_worker_def)

lemma assign_worker_rank [simp]: "rank (assign_worker jobs u k wc i w n) = rank n"
  by (simp add: assign_worker_def Let_def)

lemma assign_workers_other:
  "rank n \<notin> set ws \<Longrightarrow> fold (\<lambda>(i, w). assign_worker jobs u k wc i w) (numbered j ws) n = n"
  by (induction ws arbitrary: j) (auto simp: assign_worker_other)

lemma assign_workers_own:
  "distinct ws \<Longrightarrow> i < length ws \<Longrightarrow> ws ! i = rank n \<Longrightarrow>
   fold (\<lambda>(i, w). assign_worker jobs u k wc i w) (numbered j ws) n = assign_worker jobs u k wc (j + int i) (rank n) n"
proof (induction ws arbitrary: i j)
  case Nil
  then show ?case by simp
next
  case (Cons w ws)
  show ?case
  proof (cases i)
    case 0
    then have "w = rank n" "rank n \<notin> set ws" using Cons.prems by auto
    then show ?thesis using 0 by (simp add: assign_workers_other)
  next
    case (Suc i')
    then have "rank n \<in> set ws" using Cons.prems nth_mem [of i' ws] by simp
    then have "w \<noteq> rank n" using Cons.prems by auto
    then show ?thesis using Suc Cons by (simp add: assign_worker_other algebra_simps)
  qed
qed

lemma load_job_node:
  "node (load_job jobs (k, j) st) = fold (\<lambda>(i, w). assign_worker jobs (Modified j) (int k)
     (int (length (RankList j))) i w) (numbered 0 (ranks j)) (node st)"
  by (simp add: load_job_def)

lemma load_jobs_node_other:
  "\<forall>j \<in> set js. rank (node st) \<notin> set (ranks j) \<Longrightarrow> node (fold (load_job jobs) (enumerate k js) st) = node st"
  by (induction js arbitrary: k st) (simp_all add: load_job_node assign_workers_other)

text \<open>Every rank stands in one place of the map only.\<close>

definition all_ranks :: "JobMap \<Rightarrow> int list" where
  "all_ranks jm = concat (map ranks jm)"

lemma load_jobs_node_own:
  assumes "distinct (all_ranks js)" and "x < length js" and "i < length (ranks (js ! x))"
    and "ranks (js ! x) ! i = rank (node st)"
  shows "node (fold (load_job jobs) (enumerate k js) st) =
     assign_worker jobs (Modified (js ! x)) (int (k + x)) (int (length (RankList (js ! x)))) (int i)
       (rank (node st)) (node st)"
  using assms
proof (induction js arbitrary: k x st)
  case Nil
  then show ?case by simp
next
  case (Cons j js)
  have d: "distinct (ranks j)" "distinct (all_ranks js)" "set (ranks j) \<inter> set (all_ranks js) = {}"
    using Cons.prems(1) by (auto simp: all_ranks_def)
  show ?case
  proof (cases x)
    case 0
    then have own: "i < length (ranks j)" "ranks j ! i = rank (node st)" using Cons.prems by auto
    then have "\<forall>j' \<in> set js. rank (node st) \<notin> set (ranks j')"
      using d(3) nth_mem [OF own(1)] by (auto simp: all_ranks_def)
    then show ?thesis
      using 0 own d(1) by (simp add: load_jobs_node_other load_job_node assign_workers_own)
  next
    case (Suc x')
    then have "rank (node st) \<in> set (all_ranks js)"
      using Cons.prems by (auto simp: all_ranks_def) (metis nth_mem)
    then have "rank (node st) \<notin> set (ranks j)" using d(3) by auto
    then have "node (load_job jobs (k, j) st) = node st" by (simp add: load_job_node assign_workers_other)
    then show ?thesis using Cons.IH [OF d(2), of x' "load_job jobs (k, j) st" "Suc k"] Cons.prems Suc by simp
  qed
qed

lemma fold_table:
  "x < length t \<Longrightarrow> fold (\<lambda>w t. t[nat w := v]) ws t ! x = (if x \<in> nat ` set ws then v else t ! x)"
  by (induction ws arbitrary: t) auto

lemma load_jobs_table:
  assumes "rank_2_job st = Some tbl" and "distinct (all_ranks js)" and "\<forall>w \<in> set (all_ranks js). 0 \<le> w \<and> nat w < length tbl"
  shows "\<exists>t. rank_2_job (fold (load_job jobs) (enumerate k js) st) = Some t \<and> length t = length tbl \<and>
     (\<forall>x < length js. \<forall>w \<in> set (ranks (js ! x)). t ! nat w = Some (int (k + x))) \<and>
     (\<forall>i < length tbl. i \<notin> nat ` set (all_ranks js) \<longrightarrow> t ! i = tbl ! i)"
  using assms
proof (induction js arbitrary: k st tbl)
  case Nil
  then show ?case by simp
next
  case (Cons j js)
  define t1 where "t1 = fold (\<lambda>w t. t[nat w := Some (int k)]) (ranks j) tbl"
  have r1: "rank_2_job (load_job jobs (k, j) st) = Some t1"
    using Cons.prems(1) by (simp add: load_job_def t1_def)
  then have l1: "length t1 = length tbl" using load_job_sel(2) [OF Cons.prems(1), of jobs "(k, j)"] by simp
  have d: "distinct (all_ranks js)" "set (ranks j) \<inter> set (all_ranks js) = {}"
    "\<forall>w \<in> set (all_ranks js). 0 \<le> w \<and> nat w < length t1" "\<forall>w \<in> set (ranks j). 0 \<le> w \<and> nat w < length tbl"
    using Cons.prems(2,3) l1 by (auto simp: all_ranks_def)
  obtain t where t: "rank_2_job (fold (load_job jobs) (enumerate (Suc k) js) (load_job jobs (k, j) st)) = Some t"
      "length t = length t1" "\<forall>x < length js. \<forall>w \<in> set (ranks (js ! x)). t ! nat w = Some (int (Suc k + x))"
      "\<forall>i < length t1. i \<notin> nat ` set (all_ranks js) \<longrightarrow> t ! i = t1 ! i"
    using Cons.IH [OF r1 d(1,3), of "Suc k"] by blast
  have own: "t ! nat w = Some (int k)" if "w \<in> set (ranks j)" for w
  proof -
    have "nat w \<notin> nat ` set (all_ranks js)"
      using that d by (metis disjoint_iff image_iff nat_0_le)
    then show ?thesis using that d(4) t(4) l1 by (simp add: t1_def fold_table)
  qed
  have "t ! i = tbl ! i" if "i < length tbl" "i \<notin> nat ` set (all_ranks (j # js))" for i
    using that t(4) l1 by (simp add: t1_def fold_table all_ranks_def image_Un)
  moreover have "\<forall>x < length (j # js). \<forall>w \<in> set (ranks ((j # js) ! x)). t ! nat w = Some (int (k + x))"
    using own t(3) by (auto simp: nth_Cons' less_Suc_eq_0_disj)
  ultimately show ?case using t(1,2) l1 by auto
qed

lemma free_rank_lists_ok:
  "n \<le> length jl \<Longrightarrow> list_all (\<lambda>e. e \<noteq> None) (take n jl) \<Longrightarrow> free_rank_lists n jl = Inr ()"
proof (induction n)
  case 0
  then show ?case by simp
next
  case (Suc n)
  then have "free_rank_lists n jl = Inr ()" "jl ! n \<noteq> None" "n < length jl"
    by (auto simp: take_Suc_conv_app_nth)
  then show ?case by (auto simp: some_or_Some)
qed

lemma CountTotalRanks_eq: "CountTotalRanks jm = int (length (all_ranks jm))"
proof -
  have "foldl (\<lambda>c j. c + int (length (RankList j))) c jm = c + int (length (all_ranks jm))" for c
    by (induction jm arbitrary: c) (simp_all add: all_ranks_def ranks_def)
  then show ?thesis by (simp add: CountTotalRanks_def)
qed

text \<open>A map as the manager keeps it: ranks 0 to n - 1 once each, no job without a rank.\<close>

definition valid_map :: "JobMap \<Rightarrow> bool" where
  "valid_map jm \<longleftrightarrow> distinct (all_ranks jm) \<and> length (all_ranks jm) < 2147483648 \<and>
     list_all (\<lambda>w. 0 \<le> w \<and> w < int (length (all_ranks jm))) (all_ranks jm) \<and>
     list_all (\<lambda>j. RankList j \<noteq> [] \<and> (Modified j = 0 \<or> Modified j = 1)) jm"

text \<open>The tables left by the previous map, or none.\<close>

definition old_map_ok :: "nat \<Rightarrow> 'a globals_scheme \<Rightarrow> bool" where
  "old_map_ok cores st \<longleftrightarrow> nat (jobs_count (node st)) \<le> length (job_list st) \<and>
     list_all (\<lambda>e. e \<noteq> None) (take (nat (jobs_count (node st))) (job_list st)) \<and>
     (case rank_2_job st of None \<Rightarrow> True | Some t \<Rightarrow> cores \<le> length t)"

text \<open>The node record of worker number \<open>i\<close> of job \<open>k\<close> under a new map.\<close>

definition role :: "int \<Rightarrow> int \<Rightarrow> nat \<Rightarrow> int \<Rightarrow> nat \<Rightarrow> Node \<Rightarrow> Node" where
  "role jobs u k wc i n = n\<lparr>
     job_id := (if u = 1 then int k else job_id n),
     age := (if u = 1 then (if job_id n \<noteq> int k then 1 else age n + 1) else age n),
     jobs_count := (if u = 1 then jobs else jobs_count n),
     node_transit_state := (if u = 1 then (if job_id n \<noteq> int k then NODE_DATA_RECEIVER
        else if i = 0 \<and> wc > 1 then NODE_DATA_SENDER else NODE_DATA_NONE) else NODE_DATA_NONE),
     node_checkpoint_master := (if i = 0 then YES else NO)\<rparr>"

definition map_loaded :: "JobMap \<Rightarrow> 'a globals_scheme \<Rightarrow> 'a globals_scheme \<Rightarrow> bool" where
  "map_loaded jm st st' \<longleftrightarrow>
     job_list st' = map (\<lambda>(k, j). Some (entry_of k j)) (enumerate 0 jm) \<and>
     (\<exists>t. rank_2_job st' = Some t \<and> (\<forall>k < length jm. \<forall>w \<in> set (ranks (jm ! k)). t ! nat w = Some (int k))) \<and>
     (\<forall>k < length jm. \<forall>i < length (ranks (jm ! k)). ranks (jm ! k) ! i = rank (node st) \<longrightarrow>
        node st' = role (int (length jm)) (Modified (jm ! k)) k (int (length (RankList (jm ! k)))) i (node st))"

lemma length_map_ranks: "list_all (\<lambda>j. RankList j \<noteq> []) jm \<Longrightarrow> length jm \<le> length (all_ranks jm)"
proof (induction jm)
  case Nil
  then show ?case by simp
next
  case (Cons j jm)
  then have "Suc 0 \<le> length (ranks j)" by (simp add: ranks_def Suc_le_eq)
  then show ?case using Cons by (simp add: all_ranks_def)
qed

lemma valid_map_fit: "valid_map jm \<Longrightarrow> length (all_ranks jm) \<le> n \<Longrightarrow> list_all (fit_job n) jm"
proof (unfold list_all_iff, intro ballI)
  fix j
  assume v: "valid_map jm" and n: "length (all_ranks jm) \<le> n" and j: "j \<in> set jm"
  have "length (ranks j) \<le> length (all_ranks jm)" "set (ranks j) \<subseteq> set (all_ranks jm)"
    using j by (auto simp: all_ranks_def in_set_conv_decomp)
  moreover have "0 \<le> w \<and> nat w < n \<and> fits_int w" if "w \<in> set (all_ranks jm)" for w
  proof -
    have "0 \<le> w" "w < int (length (all_ranks jm))" "length (all_ranks jm) < 2147483648"
      using v that by (auto simp: valid_map_def list_all_iff)
    then show ?thesis using n by (simp add: fits_int_def)
  qed
  ultimately show "fit_job n j"
    using v j by (auto simp: fit_job_def valid_map_def list_all_iff fits_int_def ranks_def)
qed

lemma write_header:
  assumes "valid_map jm"
  shows "fscanf_ds 2 (WriteToFile jm) = Inr ([int (length (all_ranks jm)), int (length jm)],
     newline @ concat (map (\<lambda>(k, j). job_line k j) (enumerate 0 jm)) @ legend)"
proof -
  have "length jm \<le> length (all_ranks jm)"
    using assms by (intro length_map_ranks) (simp add: valid_map_def list_all_iff)
  then have f: "fits_int (int (length (all_ranks jm)))" "fits_int (int (length jm))"
    using assms by (simp_all add: valid_map_def fits_int_def)
  have nil: "\<forall>ch \<in> set []. is_space ch" by simp
  show ?thesis
    unfolding WriteToFile_def CountTotalRanks_eq numeral_2_eq_2
    using fscanf_d_int_string [OF f(1) ends_tab(1) nil] fscanf_d_int_string [OF f(2) ends_tab(2) space_tab(1)]
    by simp
qed

text \<open>The state in which the job lines are read: the tables of the previous map, or new ones.\<close>

definition before_jobs :: "JobMap \<Rightarrow> 'a globals_scheme \<Rightarrow> 'a globals_scheme" where
  "before_jobs jm st = st\<lparr>node := (node st)\<lparr>node_checkpoint_master := NO, node_transit_state := NODE_DATA_NONE\<rparr>,
     rank_2_job := Some (case rank_2_job st of None \<Rightarrow> replicate (length (all_ranks jm)) None | Some t \<Rightarrow> t),
     job_list := replicate (length jm) None\<rparr>"

lemma parse_map_written_file:
  assumes "valid_map jm" and "ckpt_restore st = RESTORE_NO" and "old_map_ok (length (all_ranks jm)) st"
  shows "parse_map_file (Some (WriteToFile jm)) st =
     Inr (fold (load_job (int (length jm))) (enumerate 0 jm) (before_jobs jm st))"
proof -
  define tbl where "tbl = (case rank_2_job st of None \<Rightarrow> replicate (length (all_ranks jm)) None | Some t \<Rightarrow> t)"
  have len: "length (all_ranks jm) \<le> length tbl"
    using assms(3) by (auto simp: old_map_ok_def tbl_def split: option.splits)
  have "length jm \<le> length (all_ranks jm)"
    using assms(1) by (intro length_map_ranks) (simp add: valid_map_def list_all_iff)
  then have fi: "fits_int (int (length jm))" using assms(1) by (simp add: valid_map_def fits_int_def)
  have "free_rank_lists (nat (jobs_count (node st))) (job_list st) = Inr ()"
    using assms(3) by (intro free_rank_lists_ok) (simp_all add: old_map_ok_def)
  moreover obtain s' where "parse_jobs (length jm) (int (length jm))
      (newline @ concat (map (\<lambda>(k, j). job_line k j) (enumerate 0 jm)) @ legend) (before_jobs jm st) =
      Inr (fold (load_job (int (length jm))) (enumerate 0 jm) (before_jobs jm st), s')"
    using parse_jobs_text [of "before_jobs jm st" tbl jm 0 "int (length jm)" newline legend] valid_map_fit [OF assms(1) len] fi space_tab
    by (auto simp: before_jobs_def tbl_def)
  ultimately show ?thesis
    using assms(2) by (cases "rank_2_job st")
      (simp_all add: parse_map_file_def write_header [OF assms(1)] scanned_def before_jobs_def)
qed

lemma parse_map_loads:
  assumes "valid_map jm" and "ckpt_restore st = RESTORE_NO" and "old_map_ok (length (all_ranks jm)) st"
  shows "\<exists>st'. parse_map_file (Some (WriteToFile jm)) st = Inr st' \<and> map_loaded jm st st'"
proof -
  define tbl where "tbl = (case rank_2_job st of None \<Rightarrow> replicate (length (all_ranks jm)) None | Some t \<Rightarrow> t)"
  define n0 where "n0 = (node st)\<lparr>node_checkpoint_master := NO, node_transit_state := NODE_DATA_NONE\<rparr>"
  define st1 where "st1 = before_jobs jm st"
  define st' where "st' = fold (load_job (int (length jm))) (enumerate 0 jm) st1"
  have st1_def: "st1 = st\<lparr>node := n0, rank_2_job := Some tbl, job_list := replicate (length jm) None\<rparr>"
    by (simp add: st1_def before_jobs_def n0_def tbl_def)
  have len: "length (all_ranks jm) \<le> length tbl"
    using assms(3) by (auto simp: old_map_ok_def tbl_def split: option.splits)
  have "parse_map_file (Some (WriteToFile jm)) st = Inr st'"
    using parse_map_written_file [OF assms] by (simp add: st'_def st1_def before_jobs_def n0_def tbl_def)
  moreover have "map_loaded jm st st'"
    unfolding map_loaded_def
  proof (intro conjI allI impI)
    show "job_list st' = map (\<lambda>(k, j). Some (entry_of k j)) (enumerate 0 jm)"
      by (rule nth_equalityI) (simp_all add: st'_def load_jobs_list st1_def nth_enumerate_eq)
    have "\<forall>w \<in> set (all_ranks jm). 0 \<le> w \<and> nat w < length tbl"
      using assms(1) len by (auto simp: valid_map_def list_all_iff)
    then show "\<exists>t. rank_2_job st' = Some t \<and> (\<forall>k < length jm. \<forall>w \<in> set (ranks (jm ! k)). t ! nat w = Some (int k))"
      using load_jobs_table [of st1 tbl jm "int (length jm)" 0] assms(1)
      by (auto simp: st'_def st1_def valid_map_def)
  next
    fix k i
    assume own: "k < length jm" "i < length (ranks (jm ! k))" "ranks (jm ! k) ! i = rank (node st)"
    then have "node st' = assign_worker (int (length jm)) (Modified (jm ! k)) (int k)
        (int (length (RankList (jm ! k)))) (int i) (rank (node st)) n0"
      using load_jobs_node_own [of jm k i st1 "int (length jm)" 0] assms(1)
      by (simp add: st'_def st1_def n0_def valid_map_def)
    then show "node st' = role (int (length jm)) (Modified (jm ! k)) k (int (length (RankList (jm ! k)))) i (node st)"
      by (simp add: assign_worker_def role_def n0_def Let_def)
  qed
  ultimately show ?thesis by blast
qed

text \<open>
  C7: the map file round trip. Whatever map the manager holds, the file it writes is parsed
  without an error by a process with the tables of an earlier map (or none): the job list
  has exactly the manager's jobs with their ranks in order, \<open>rank_2_job\<close> gives every rank its
  job, and a process that is worker \<open>i\<close> of job \<open>k\<close> becomes checkpoint master iff \<open>i = 0\<close>
  and, when the job is marked as modified, joins job \<open>k\<close>: as a data receiver if it comes from
  another job, as the sender if it already was its first worker and there are others.
\<close>

theorem parse_written_map:
  assumes "valid_map jm" and "ckpt_restore st = RESTORE_NO" and "old_map_ok (length (all_ranks jm)) st"
  shows "\<exists>st'. parse_map_file (Some (WriteToFile jm)) st = Inr st' \<and> map_loaded jm st st'"
  using assms by (rule parse_map_loads)

definition demo_globals :: "int \<Rightarrow> globals" where
  "demo_globals r = process.extend ((demo_process 7 NODE_DATA_NONE empty_heap)
       \<lparr>node := (demo_node NODE_DATA_NONE)\<lparr>rank := r, job_id := -1, jobs_count := 0\<rparr>\<rparr>)
     \<lparr>job_list = [], rank_2_job = None, rank_ignore_list = [], ckpt_restore = RESTORE_NO, job_comm = MPI_COMM_NULL,
      rep_flag = 0, request_pending = 0, last_file_update = 0, replication_idx = 0, rep_counter = -1,
      ckpt_counter = -1, ignore_process_failure = 0, process_shrinking_pending = 0\<rparr>"

lemma InitJobMap_all_ranks:
  "map ranks (InitJobMap j r) = map (\<lambda>k. map int (filter (\<lambda>i. i mod j = k) [0..<r])) [0..<j]"
  by (rule nth_equalityI) (simp_all add: ranks_def InitJobMap_ranks)

lemma InitJobMap_ranks_distinct:
  assumes "j \<le> r"
  shows "distinct (all_ranks (InitJobMap j r))"
  unfolding all_ranks_def InitJobMap_all_ranks
proof (rule distinct_concat)
  let ?f = "\<lambda>k. map int (filter (\<lambda>i. i mod j = k) [0..<r])"
  have "int k \<in> set (?f k')" if "k < j" "k' < j" "?f k = ?f k'" for k k'
    using that(1) assms unfolding that(3) [symmetric] by auto
  then have "inj_on ?f {0..<j}" by (intro inj_onI) fastforce
  then show "distinct (map ?f [0..<j])" by (simp add: distinct_map)
qed (auto simp: distinct_map)

lemma InitJobMap_ranks_set: "0 < j \<Longrightarrow> set (all_ranks (InitJobMap j r)) = int ` {0..<r}"
  by (auto simp: all_ranks_def InitJobMap_all_ranks image_iff)

lemma InitJobMap_nonempty:
  assumes "k < j" and "j \<le> r"
  shows "RankList (InitJobMap j r ! k) \<noteq> []"
proof -
  have "k \<in> set (filter (\<lambda>i. i mod j = k) [0..<r])" using assms by simp
  then have "map Rank_Rank (RankList (InitJobMap j r ! k)) \<noteq> []"
    unfolding InitJobMap_ranks [OF assms(1)] by (metis empty_iff empty_set map_is_Nil_conv)
  then show ?thesis by simp
qed

definition readme_map :: JobMap where
  "readme_map = [\<lparr>JobID = 0, RankList = [\<lparr>Rank_Rank = 0, PrevJob = -1, StackAdd = 0\<rparr>], Modified = 1\<rparr>,
     \<lparr>JobID = 1, RankList = [\<lparr>Rank_Rank = 2, PrevJob = -1, StackAdd = 0\<rparr>, \<lparr>Rank_Rank = 1, PrevJob = -1, StackAdd = 0\<rparr>],
      Modified = 1\<rparr>]"

lemma readme_map_loads:
  "valid_map readme_map" "ckpt_restore (demo_globals r) = RESTORE_NO"
  "old_map_ok (length (all_ranks readme_map)) (demo_globals r)"
  by (simp_all add: valid_map_def all_ranks_def ranks_def readme_map_def demo_globals_def old_map_ok_def
      process.defs demo_process_def heap.defs demo_node_def)

theorem parse_written_map_witness:
  "\<exists>st'. parse_map_file (Some (WriteToFile readme_map)) (demo_globals 1) = Inr st' \<and>
     map_loaded readme_map (demo_globals 1) st'"
  using readme_map_loads by (rule parse_written_map)

section \<open>The communicators of a world\<close>

text \<open>
  What the MPI standard says of \<open>MPI_Comm_split\<close>: the members of the new communicator of
  colour \<open>c\<close> are the processes that passed \<open>c\<close>, ranked by key and, for equal keys, by their
  old rank. \<open>members\<close> maps the requests of all processes, by rank, to the old ranks of the
  members in their new order.
\<close>

definition split_law :: "(request list \<Rightarrow> int \<Rightarrow> nat list) \<Rightarrow> bool" where
  "split_law members \<longleftrightarrow> (\<forall>reqs c. members reqs c =
     sort_key (\<lambda>r. snd (reqs ! r)) (filter (\<lambda>r. fst (reqs ! r) = Some c) [0..<length reqs]))"

text \<open>
  \<open>parse_map_file\<close> leaves \<open>job_id\<close> alone under a job that is not marked as modified, so the
  number a worker of such a job goes on with is the one an earlier map gave it.
\<close>

definition settled :: "JobMap \<Rightarrow> (int \<Rightarrow> int) \<Rightarrow> bool" where
  "settled jm old_job \<longleftrightarrow> (\<forall>k < length jm. Modified (jm ! k) \<noteq> 1 \<longrightarrow> (\<forall>w \<in> set (ranks (jm ! k)). old_job w = int k))"

text \<open>
  All processes of a world after each has loaded the same map, a first one or a later one:
  the workers of the jobs it does not mark were in these jobs before.
\<close>

definition world_loaded :: "JobMap \<Rightarrow> globals list \<Rightarrow> globals list \<Rightarrow> bool" where
  "world_loaded jm sts sts' \<longleftrightarrow> valid_map jm \<and> settled jm (\<lambda>w. job_id (node (sts ! nat w))) \<and>
     length sts = length (all_ranks jm) \<and> length sts' = length sts \<and>
     (\<forall>r < length sts. rank (node (sts ! r)) = int r \<and> map_loaded jm (sts ! r) (sts' ! r))"

definition placed :: "JobMap \<Rightarrow> Node list \<Rightarrow> bool" where
  "placed jm ns \<longleftrightarrow> length ns = length (all_ranks jm) \<and>
     (\<forall>k < length jm. \<forall>i < length (ranks (jm ! k)). let n = ns ! nat (ranks (jm ! k) ! i)
        in job_id n = int k \<and> node_checkpoint_master n = (if i = 0 then YES else NO))"

lemma placed_at:
  assumes "placed jm ns" and "k < length jm" and "i < length (ranks (jm ! k))"
  shows "job_id (ns ! nat (ranks (jm ! k) ! i)) = int k"
    and "node_checkpoint_master (ns ! nat (ranks (jm ! k) ! i)) = (if i = 0 then YES else NO)"
  using assms unfolding placed_def Let_def by blast+

lemma world_placed:
  assumes "world_loaded jm sts sts'"
  shows "placed jm (map node sts')"
  unfolding placed_def
proof (intro conjI allI impI)
  show "length (map node sts') = length (all_ranks jm)" using assms by (simp add: world_loaded_def)
next
  fix k i
  assume ki: "k < length jm" "i < length (ranks (jm ! k))"
  let ?w = "ranks (jm ! k) ! i"
  have "?w \<in> set (all_ranks jm)" using ki nth_mem by (fastforce simp: all_ranks_def)
  then have w: "0 \<le> ?w" "nat ?w < length sts"
    using assms by (auto simp: world_loaded_def valid_map_def list_all_iff)
  then have "map_loaded jm (sts ! nat ?w) (sts' ! nat ?w)" "rank (node (sts ! nat ?w)) = ?w"
    using assms by (auto simp: world_loaded_def)
  then have "node (sts' ! nat ?w) = role (int (length jm)) (Modified (jm ! k)) k
      (int (length (RankList (jm ! k)))) i (node (sts ! nat ?w))"
    using ki by (auto simp: map_loaded_def)
  moreover have "Modified (jm ! k) \<noteq> 1 \<longrightarrow> job_id (node (sts ! nat ?w)) = int k" "nat ?w < length sts'"
    using assms ki w(2) nth_mem [OF ki(2)] by (auto simp: world_loaded_def settled_def)
  ultimately show "let n = map node sts' ! nat ?w in job_id n = int k \<and>
      node_checkpoint_master n = (if i = 0 then YES else NO)"
    by (simp add: role_def)
qed

lemma position:
  assumes "valid_map jm" and "r < length (all_ranks jm)"
  obtains k i where "k < length jm" "i < length (ranks (jm ! k))" "nat (ranks (jm ! k) ! i) = r"
proof -
  let ?n = "length (all_ranks jm)"
  have "set (all_ranks jm) \<subseteq> {0..<int ?n}" using assms(1) by (auto simp: valid_map_def list_all_iff)
  moreover have "card (set (all_ranks jm)) = ?n" using assms(1) by (simp add: valid_map_def distinct_card)
  ultimately have "set (all_ranks jm) = {0..<int ?n}" by (intro card_subset_eq) auto
  then have "int r \<in> set (all_ranks jm)" using assms(2) by simp
  then obtain j where "j \<in> set jm" "int r \<in> set (ranks j)" by (auto simp: all_ranks_def)
  then obtain k i where "k < length jm" "i < length (ranks (jm ! k))" "ranks (jm ! k) ! i = int r"
    by (metis in_set_conv_nth)
  then show ?thesis using that by simp
qed

lemma same_position:
  assumes "valid_map jm" and "k < length jm" "i < length (ranks (jm ! k))" "k' < length jm" "i' < length (ranks (jm ! k'))"
    and "nat (ranks (jm ! k) ! i) = nat (ranks (jm ! k') ! i')" and "placed jm ns"
  shows "k = k' \<and> (i = 0 \<longleftrightarrow> i' = 0)"
  using placed_at [OF assms(7,2,3)] placed_at [OF assms(7,4,5)] assms(6) by (auto split: if_splits)

lemma masters:
  assumes "valid_map jm" and "placed jm ns" and "r < length ns"
  shows "node_checkpoint_master (ns ! r) = YES \<longleftrightarrow> r \<in> set (map (\<lambda>j. nat (hd (ranks j))) jm)"
proof -
  obtain k i where ki: "k < length jm" "i < length (ranks (jm ! k))" "nat (ranks (jm ! k) ! i) = r"
    using assms by (auto simp: placed_def intro: position)
  have ne: "ranks j \<noteq> []" if "j \<in> set jm" for j
    using assms(1) that by (auto simp: valid_map_def list_all_iff ranks_def)
  have "node_checkpoint_master (ns ! r) = (if i = 0 then YES else NO)"
    using placed_at(2) [OF assms(2) ki(1,2)] ki(3) by simp
  moreover have "r \<in> set (map (\<lambda>j. nat (hd (ranks j))) jm) \<longleftrightarrow> i = 0"
  proof
    assume "r \<in> set (map (\<lambda>j. nat (hd (ranks j))) jm)"
    then obtain k' where "k' < length jm" "r = nat (hd (ranks (jm ! k')))" by (auto simp: in_set_conv_nth)
    then show "i = 0"
      using same_position [OF assms(1) ki(1,2), of k' 0] ki(3) ne assms(2) by (simp add: hd_conv_nth)
  next
    assume "i = 0"
    then have "r = nat (hd (ranks (jm ! k)))" using ki ne by (simp add: hd_conv_nth)
    then show "r \<in> set (map (\<lambda>j. nat (hd (ranks j))) jm)" using ki(1) by auto
  qed
  ultimately show ?thesis by auto
qed

lemma active_members:
  assumes "valid_map jm" and "placed jm ns"
  shows "sort_key (\<lambda>r. snd (map active_request ns ! r))
       (filter (\<lambda>r. fst (map active_request ns ! r) = Some 0) [0..<length (map active_request ns)]) =
     map (\<lambda>j. nat (hd (ranks j))) jm"
proof (rule sort_key_inj_key_eq)
  let ?f = "\<lambda>r. snd (map active_request ns ! r)" and ?ms = "map (\<lambda>j. nat (hd (ranks j))) jm"
  let ?xs = "filter (\<lambda>r. fst (map active_request ns ! r) = Some 0) [0..<length (map active_request ns)]"
  have ne: "ranks (jm ! k) \<noteq> []" if "k < length jm" for k
    using assms(1) that by (auto simp: valid_map_def list_all_length ranks_def)
  have key: "job_id (ns ! (?ms ! k)) = int k" if "k < length jm" for k
    using placed_at(1) [OF assms(2) that, of 0] ne [OF that] that by (simp add: hd_conv_nth)
  have inn: "?ms ! k < length ns" if "k < length jm" for k
  proof -
    have "hd (ranks (jm ! k)) \<in> set (all_ranks jm)"
      using that hd_in_set [OF ne [OF that]] nth_mem by (fastforce simp: all_ranks_def)
    then show ?thesis using assms that by (auto simp: placed_def valid_map_def list_all_iff)
  qed
  from this have sub: "set ?ms \<subseteq> {0..<length ns}" by (auto simp: in_set_conv_nth)
  have "set ?xs = {r. r < length ns \<and> node_checkpoint_master (ns ! r) = YES}"
    by (auto simp: active_request_def split: if_splits) (metis NodeCheckpointMaster.exhaust)
  also have "\<dots> = set ?ms" using masters [OF assms] sub by auto
  finally have s: "set ?xs = set ?ms" .
  have "distinct ?ms"
    unfolding distinct_conv_nth using key by (metis length_map of_nat_eq_iff)
  then show "mset ?xs = mset ?ms" using s set_eq_iff_mset_eq_distinct [of ?xs ?ms] by simp
  have fk: "?f (?ms ! k) = int k" if "k < length jm" for k
    using key [OF that] inn [OF that] that by (simp add: active_request_def)
  show "inj_on ?f (set ?xs)"
    unfolding s
  proof (rule inj_onI)
    fix a b
    assume ab: "a \<in> set ?ms" "b \<in> set ?ms" "?f a = ?f b"
    obtain k l where "k < length jm" "?ms ! k = a" "l < length jm" "?ms ! l = b"
      using ab(1,2) by (auto simp only: in_set_conv_nth length_map)
    then show "a = b" using ab(3) fk [of k] fk [of l] by (simp only: of_nat_eq_iff)
  qed
  show "sorted (map ?f ?ms)" using fk by (simp add: sorted_iff_nth_mono)
qed

lemma job_members:
  assumes "valid_map jm" and "placed jm ns" and k: "k < length jm"
  defines "xs \<equiv> sort_key (\<lambda>r. snd (map job_request ns ! r))
       (filter (\<lambda>r. fst (map job_request ns ! r) = Some (int k)) [0..<length (map job_request ns)])"
  shows "set xs = nat ` set (ranks (jm ! k)) \<and> xs \<noteq> [] \<and> hd xs = nat (hd (ranks (jm ! k)))"
proof -
  have ne: "ranks (jm ! k) \<noteq> []" using assms(1) k by (auto simp: valid_map_def list_all_length ranks_def)
  have "set xs = {r. r < length ns \<and> job_id (ns ! r) = int k}" by (auto simp: xs_def job_request_def)
  also have "\<dots> = nat ` set (ranks (jm ! k))"
  proof (intro set_eqI iffI)
    fix r
    assume r: "r \<in> {r. r < length ns \<and> job_id (ns ! r) = int k}"
    then obtain k' i where ki: "k' < length jm" "i < length (ranks (jm ! k'))" "nat (ranks (jm ! k') ! i) = r"
      using assms(1,2) by (auto simp: placed_def intro: position)
    then have "k' = k" using placed_at(1) [OF assms(2) ki(1,2)] r by simp
    then show "r \<in> nat ` set (ranks (jm ! k))" using ki by force
  next
    fix r
    assume "r \<in> nat ` set (ranks (jm ! k))"
    then obtain i where i: "i < length (ranks (jm ! k))" "r = nat (ranks (jm ! k) ! i)" by (auto simp: in_set_conv_nth)
    have "ranks (jm ! k) ! i \<in> set (all_ranks jm)" using i(1) k nth_mem by (fastforce simp: all_ranks_def)
    then have "r < length ns" using assms(1,2) i(2) by (auto simp: placed_def valid_map_def list_all_iff)
    then show "r \<in> {r. r < length ns \<and> job_id (ns ! r) = int k}" using placed_at(1) [OF assms(2) k i(1)] i(2) by simp
  qed
  finally have s: "set xs = nat ` set (ranks (jm ! k))" .
  then have xs: "xs \<noteq> []" using ne by auto
  let ?m = "nat (hd (ranks (jm ! k)))" and ?f = "\<lambda>r. snd (map job_request ns ! r)"
  have in_ns: "r < length ns" if "r \<in> set xs" for r using that by (simp add: xs_def)
  have "?m \<in> set xs" using s ne by simp
  moreover have "node_checkpoint_master (ns ! ?m) = YES"
    using placed_at(2) [OF assms(2) k, of 0] ne by (simp add: hd_conv_nth)
  ultimately have "?f ?m = 0" using in_ns by (simp add: job_request_def)
  moreover have "sorted (map ?f xs)" by (simp add: xs_def)
  ultimately have "?f (hd xs) \<le> 0"
    using \<open>?m \<in> set xs\<close> xs by (cases xs) auto
  then have hm: "node_checkpoint_master (ns ! hd xs) = YES"
    using in_ns [of "hd xs"] xs by (simp add: job_request_def split: if_splits)
  obtain i where i: "i < length (ranks (jm ! k))" "hd xs = nat (ranks (jm ! k) ! i)"
    using s xs by (metis hd_in_set image_iff in_set_conv_nth)
  have "i = 0" using placed_at(2) [OF assms(2) k i(1)] i(2) hm by (simp split: if_splits)
  then show ?thesis using s xs i(2) ne by (simp add: hd_conv_nth)
qed

text \<open>
  C9: the communicators of a world. When every process has loaded the same map and called
  \<open>update_comms\<close>, an MPI whose \<open>Comm_split\<close> follows the standard makes \<open>active_comm\<close> out of the
  first worker of each job, in the order of the jobs, so that the rank of a process there is
  its job number; and the communicator of job \<open>k\<close> out of exactly the workers of job \<open>k\<close>, with
  the job's checkpoint master as its rank 0, the root of every broadcast inside the job.
  The map may be the first one or a later one; of a job it does not mark as modified it is
  required that its workers, whose \<open>job_id\<close> the parser leaves alone, already were in that job.
\<close>

theorem update_comms_groups:
  assumes "split_law members" and "world_loaded jm sts sts'"
  shows "members (map (\<lambda>st. active_request (node st)) sts') 0 = map (\<lambda>j. nat (hd (ranks j))) jm \<and>
     (\<forall>k < length jm. let g = members (map (\<lambda>st. job_request (node st)) sts') (int k)
        in set g = nat ` set (ranks (jm ! k)) \<and> g \<noteq> [] \<and> hd g = nat (hd (ranks (jm ! k))))"
proof -
  have v: "valid_map jm" using assms(2) by (simp add: world_loaded_def)
  note p = world_placed [OF assms(2)]
  have m: "map (\<lambda>st. active_request (node st)) sts' = map active_request (map node sts')"
    "map (\<lambda>st. job_request (node st)) sts' = map job_request (map node sts')" by simp_all
  show ?thesis
    unfolding m using assms(1) active_members [OF v p] job_members [OF v p]
    by (simp only: split_law_def Let_def) blast
qed

definition mpi_members :: "request list \<Rightarrow> int \<Rightarrow> nat list" where
  "mpi_members reqs c = sort_key (\<lambda>r. snd (reqs ! r)) (filter (\<lambda>r. fst (reqs ! r) = Some c) [0..<length reqs])"

text \<open>A later map: job 0 is not marked, and process 0 has been in it since an earlier map.\<close>

definition later_map :: JobMap where
  "later_map = [(readme_map ! 0)\<lparr>Modified := 0\<rparr>, readme_map ! 1]"

definition later_globals :: "int \<Rightarrow> globals" where
  "later_globals r = (demo_globals r)\<lparr>node := (node (demo_globals r))\<lparr>job_id := 0\<rparr>\<rparr>"

lemma later_map_loads:
  "valid_map later_map" "ckpt_restore (later_globals r) = RESTORE_NO"
  "old_map_ok (length (all_ranks later_map)) (later_globals r)"
  by (simp_all add: valid_map_def all_ranks_def ranks_def later_map_def readme_map_def later_globals_def demo_globals_def
      old_map_ok_def process.defs demo_process_def heap.defs demo_node_def)

theorem update_comms_groups_witness:
  "\<exists>sts' :: globals list. length sts' = 3 \<and> mpi_members (map (\<lambda>st. active_request (node st)) sts') 0 = [0, 2] \<and>
     (\<forall>r < 3. map_loaded later_map (later_globals (int r)) (sts' ! r))"
proof -
  have "\<forall>r. \<exists>st'. map_loaded later_map (later_globals r) st'"
    using parse_map_loads [OF later_map_loads] by blast
  then obtain f where f: "\<And>r. map_loaded later_map (later_globals r) (f r)" by metis
  let ?sts = "map (\<lambda>r. later_globals (int r)) [0..<3]" and ?sts' = "map (\<lambda>r. f (int r)) [0..<3]"
  have n: "rank (node (later_globals r)) = r" "job_id (node (later_globals r)) = 0" for r
    by (simp_all add: later_globals_def demo_globals_def process.defs)
  have "settled later_map (\<lambda>w. job_id (node (?sts ! nat w)))"
    using n by (auto simp: settled_def later_map_def readme_map_def ranks_def less_Suc_eq numeral_2_eq_2)
  then have "world_loaded later_map ?sts ?sts'"
    using f later_map_loads(1) n by (simp add: world_loaded_def) (simp add: later_map_def readme_map_def all_ranks_def ranks_def)
  moreover have "split_law mpi_members" by (simp add: split_law_def mpi_members_def)
  ultimately have "mpi_members (map (\<lambda>st. active_request (node st)) ?sts') 0 = map (\<lambda>j. nat (hd (ranks j))) later_map"
    using update_comms_groups by blast
  then show ?thesis using f by (intro exI [of _ ?sts']) (simp add: later_map_def readme_map_def ranks_def)
qed

end
