(* ===== verification/Status_Files.thy ===== *)
theory Status_Files
  imports Comm
begin

text \<open>
  \<open>src/misc/file.c\<close> and \<open>src/misc/network.c\<close>: the modification time of the map file, and
  the two files in which every process keeps one record at an offset given by its rank, with
  the reader of the first one in \<open>src/manager/manager/manager.go\<close>. A file is its bytes; bytes
  never written below a record are zero.
\<close>

section \<open>The map file's modification time\<close>

text \<open>\<open>mtime\<close> is the \<open>st_mtime\<close> that \<open>stat\<close> reports.\<close>

definition is_file_modified :: "int \<Rightarrow> 'a globals_scheme \<Rightarrow> int \<times> 'a globals_scheme" where
  "is_file_modified mtime st =
     (if ckpt_restore st = RESTORE_YES then (1, st)
      else if last_file_update st < mtime then (1, st\<lparr>last_file_update := mtime\<rparr>)
      else (0, st))"

definition set_last_file_update :: "int \<Rightarrow> 'a globals_scheme \<Rightarrow> 'a globals_scheme" where
  "set_last_file_update mtime st = st\<lparr>last_file_update := mtime\<rparr>"

section \<open>Records at fixed offsets\<close>

text \<open>\<open>PMPI_File_write_at\<close> on a file opened for writing.\<close>

definition write_at :: "nat \<Rightarrow> byte list \<Rightarrow> byte list \<Rightarrow> byte list" where
  "write_at off bs f = take off f @ replicate (off - length f) 0 @ bs @ drop (off + length bs) f"

definition file_write_at :: "string \<Rightarrow> int \<Rightarrow> byte list \<Rightarrow> files \<Rightarrow> files" where
  "file_write_at name off bs files =
     (let f = (case files name of None \<Rightarrow> [] | Some f \<Rightarrow> f)
      in files(name \<mapsto> (if 0 \<le> off then write_at (nat off) bs f else f)))"

record rep_and_stack_info =
  info_replication_idx :: "32 word"
  info_rank :: "32 word"
  info_stack_address :: address

definition enc_info :: "rep_and_stack_info \<Rightarrow> byte list" where
  "enc_info i = enc_int (info_replication_idx i) @ enc_int (info_rank i) @ enc_addr (info_stack_address i)"

definition dec_info :: "byte list \<Rightarrow> rep_and_stack_info" where
  "dec_info bs = \<lparr>info_replication_idx = dec_int (take 4 bs), info_rank = dec_int (take 4 (drop 4 bs)),
     info_stack_address = dec_addr (take 8 (drop 8 bs))\<rparr>"

definition STACK_REP_INFO_FILE_NAME :: string where
  "STACK_REP_INFO_FILE_NAME = ''./rep_stack.info''"

definition save_rep_and_stack_info :: "int \<Rightarrow> files \<Rightarrow> 'a process_scheme \<Rightarrow> files" where
  "save_rep_and_stack_info rep_idx files st =
     (let offset = 16 * rank (node st);
          rep_stack = \<lparr>info_replication_idx = word_of_int rep_idx, info_rank = word_of_int (rank (node st)),
                       info_stack_address = stackHigherAddress st\<rparr>
      in file_write_at STACK_REP_INFO_FILE_NAME offset (enc_info rep_stack) files)"

definition HOSTNAME_LEN :: nat where "HOSTNAME_LEN = 100"

record network_stat =
  net_rank :: "32 word"
  process_id :: "32 word"
  hostname_len :: "32 word"
  hostname :: "byte list"

definition enc_network_stat :: "network_stat \<Rightarrow> byte list" where
  "enc_network_stat n = enc_int (net_rank n) @ enc_int (process_id n) @ enc_int (hostname_len n) @ hostname n"

definition dec_network_stat :: "byte list \<Rightarrow> network_stat" where
  "dec_network_stat bs = \<lparr>net_rank = dec_int (take 4 bs), process_id = dec_int (take 4 (drop 4 bs)),
     hostname_len = dec_int (take 4 (drop 8 bs)), hostname = drop 12 bs\<rparr>"

text \<open>
  \<open>host\<close> is the name of the machine, \<open>pid\<close> the process id, \<open>junk\<close> what the local buffer held
  before. A name that does not fit is not terminated; \<open>strlen\<close> then runs off the struct.
\<close>

definition network_stat_init :: "string \<Rightarrow> byte list \<Rightarrow> 32 word \<Rightarrow> byte list \<Rightarrow> files \<Rightarrow> 'a process_scheme \<Rightarrow> files result" where
  "network_stat_init network_stat_filename host pid junk files st =
     bindE (guardE (length host < HOSTNAME_LEN) Out_Of_Bounds) (\<lambda>_.
     let offset = 112 * rank (node st);
         net_stat = \<lparr>net_rank = word_of_int (rank (node st)), process_id = pid, hostname_len = word_of_nat (length host),
                     hostname = host @ 0 # drop (length host + 1) junk\<rparr>
     in Inr (file_write_at network_stat_filename offset (enc_network_stat net_stat) files))"

section \<open>Slots do not disturb each other\<close>

definition byte_at :: "byte list \<Rightarrow> nat \<Rightarrow> byte" where
  "byte_at f i = (if i < length f then f ! i else 0)"

lemma length_write_at: "length (write_at off bs f) = max (length f) (off + length bs)"
  by (auto simp: write_at_def)

lemma byte_at_write_at:
  "byte_at (write_at off bs f) i = (if off \<le> i \<and> i < off + length bs then bs ! (i - off) else byte_at f i)"
  by (auto simp: byte_at_def write_at_def nth_append max_def min_def split: if_splits)

lemma take_drop_bytes:
  assumes "n * k + n \<le> length f"
  shows "take n (drop (n * k) f) = map (\<lambda>j. byte_at f (n * k + j)) [0..<n]"
  using assms by (intro nth_equalityI) (auto simp: byte_at_def)

text \<open>
  The contract of a file of equal records: whoever wrote slot \<open>k\<close> finds its record there,
  whatever was written to the other slots before or after.
\<close>

locale slot_file =
  fixes enc :: "'r \<Rightarrow> byte list" and dec :: "byte list \<Rightarrow> 'r" and width :: nat and ok :: "'r \<Rightarrow> bool"
  assumes slot_width: "ok x \<Longrightarrow> length (enc x) = width"
    and slot_dec: "ok x \<Longrightarrow> dec (enc x) = x"
    and slot_pos: "0 < width"
begin

definition write_slots :: "(nat \<times> 'r) list \<Rightarrow> byte list \<Rightarrow> byte list" where
  "write_slots ws f = fold (\<lambda>(k, x). write_at (width * k) (enc x)) ws f"

lemma slot_apart:
  assumes "k \<noteq> k'" and "i < width" and "width * k' \<le> width * k + i"
  shows "\<not> width * k + i < width * k' + width"
proof
  assume a: "width * k + i < width * k' + width"
  show False
  proof (cases "k < k'")
    case True
    then have "width * Suc k \<le> width * k'" by (intro mult_le_mono2) simp
    then show ?thesis using assms(2,3) by simp
  next
    case False
    then have "width * Suc k' \<le> width * k" using assms(1) by (intro mult_le_mono2) simp
    then show ?thesis using a by simp
  qed
qed

lemma write_other:
  assumes "ok x" and "k \<noteq> k'" and "i < width"
  shows "byte_at (write_at (width * k') (enc x) f) (width * k + i) = byte_at f (width * k + i)"
  using slot_apart [OF assms(2,3)] slot_width [OF assms(1)] by (auto simp: byte_at_write_at)

lemma length_write_slots:
  assumes "\<forall>(k, x) \<in> set ws. ok x"
  shows "length (write_slots ws f) = Max (insert (length f) ((\<lambda>(k, x). width * k + width) ` set ws))"
  using assms
proof (induction ws arbitrary: f)
  case Nil
  then show ?case by (simp add: write_slots_def)
next
  case (Cons w ws)
  obtain k x where w: "w = (k, x)" by (cases w)
  have "length (write_slots (w # ws) f) = Max (insert (max (length f) (width * k + width)) ((\<lambda>(k, x). width * k + width) ` set ws))"
    using Cons.IH [of "write_at (width * k) (enc x) f"] Cons.prems w slot_width [of x]
    by (simp add: write_slots_def length_write_at)
  also have "\<dots> = Max (insert (length f) (insert (width * k + width) ((\<lambda>(k, x). width * k + width) ` set ws)))"
    by (cases "set ws = {}") (auto simp: max.assoc)
  finally show ?case by (simp add: w)
qed

lemma write_slots_bytes:
  assumes "\<forall>(k, x) \<in> set ws. ok x" and "distinct (map fst ws)" and "(k, x) \<in> set ws" and "i < width"
  shows "byte_at (write_slots ws f) (width * k + i) = enc x ! i"
proof -
  have other: "byte_at (write_slots us f) (width * k + i) = byte_at f (width * k + i)"
    if "k \<notin> fst ` set us" "\<forall>(k, x) \<in> set us. ok x" for us f
    using that
  proof (induction us arbitrary: f)
    case Nil
    then show ?case by (simp add: write_slots_def)
  next
    case (Cons u us)
    obtain k' y where u: "u = (k', y)" by (cases u)
    have "byte_at (write_slots us (write_at (width * k') (enc y) f)) (width * k + i) =
        byte_at (write_at (width * k') (enc y) f) (width * k + i)"
      using Cons.prems u by (intro Cons.IH) auto
    then show ?case
      using write_other [of y k k' i f] Cons.prems u assms(4) by (simp add: write_slots_def)
  qed
  obtain as bs where ws: "ws = as @ (k, x) # bs" using split_list [OF assms(3)] by blast
  have "byte_at (write_slots bs (write_at (width * k) (enc x) (write_slots as f))) (width * k + i) =
      byte_at (write_at (width * k) (enc x) (write_slots as f)) (width * k + i)"
    using assms(1,2) ws by (intro other) auto
  moreover have "length (enc x) = width" using assms(1) ws by (auto intro: slot_width)
  ultimately show ?thesis using assms(4) by (simp add: ws write_slots_def byte_at_write_at)
qed

lemma read_slot:
  assumes "\<forall>(k, x) \<in> set ws. ok x" and "distinct (map fst ws)" and "(k, x) \<in> set ws"
  shows "dec (take width (drop (width * k) (write_slots ws f))) = x"
proof -
  have len: "width * k + width \<le> length (write_slots ws f)"
    unfolding length_write_slots [OF assms(1)] using assms(3) by (intro Max_ge) force+
  have "take width (drop (width * k) (write_slots ws f)) = enc x"
    using assms slot_width [of x] write_slots_bytes [OF assms]
    by (auto simp: take_drop_bytes [OF len] intro!: nth_equalityI)
  then show ?thesis using assms(1,3) slot_dec by auto
qed

end

interpretation info_slots: slot_file enc_info dec_info 16 "\<lambda>_. True"
  by unfold_locales (simp_all add: enc_info_def dec_info_def enc_simps)

interpretation network_slots: slot_file enc_network_stat dec_network_stat 112 "\<lambda>n. length (hostname n) = HOSTNAME_LEN"
  by unfold_locales (simp_all add: enc_network_stat_def dec_network_stat_def enc_simps HOSTNAME_LEN_def)

section \<open>The manager reads the stack addresses\<close>

text \<open>
  \<open>file.Read\<close> fills the buffer \<open>data\<close> from the front and reports an error only at the end of
  the file; a rest shorter than a record keeps the tail of the previous one.
\<close>

function read_records :: "(byte list \<Rightarrow> 'r) \<Rightarrow> nat \<Rightarrow> byte list \<Rightarrow> byte list \<Rightarrow> 'r list" where
  "read_records dec w dat f =
     (if f = [] \<or> w = 0 then []
      else let d = take w f @ drop (length (take w f)) dat
           in dec d # read_records dec w d (drop w f))"
  by pat_completeness auto
termination
  by (relation "measure (\<lambda>(dec, w, d, f). length f)") auto

declare read_records.simps [simp del]

definition read_infos :: "byte list \<Rightarrow> byte list \<Rightarrow> rep_and_stack_info list" where
  "read_infos = read_records dec_info 16"

text \<open>\<open>mappings\<close>: a rank without a record gets 0.\<close>

definition InitStackData :: "byte list option \<Rightarrow> bool \<Rightarrow> 32 word \<Rightarrow> JobMap \<Rightarrow> (bool \<times> 32 word \<times> JobMap) result" where
  "InitStackData file onlyRepIDx RepIDx jm =
     bindE (some_or (Exit_With 2) file) (\<lambda>f.
       let infos = read_infos (replicate 16 0) f
       in if onlyRepIDx \<and> infos \<noteq> []
          then Inr (info_replication_idx (hd infos) = RepIDx, info_replication_idx (hd infos), jm)
          else let mappings = fold (\<lambda>i m. m(info_rank i := info_stack_address i)) infos (\<lambda>_. 0);
                   last_idx = (if infos = [] then 0 else info_replication_idx (last infos))
               in Inr (True, last_idx,
                       map (\<lambda>j. j\<lparr>RankList := map (\<lambda>r. r\<lparr>StackAdd := mappings (word_of_int (Rank_Rank r))\<rparr>) (RankList j)\<rparr>) jm))"

lemma read_records_slots:
  assumes "0 < w"
  shows "length f = w * n \<Longrightarrow> length dat = w \<Longrightarrow> read_records dec w dat f = map (\<lambda>k. dec (take w (drop (w * k) f))) [0..<n]"
proof (induction n arbitrary: f dat)
  case 0
  then show ?case by (simp add: read_records.simps)
next
  case (Suc n)
  have "f \<noteq> []" "length (take w f) = w" using Suc.prems(1) assms by auto
  moreover from this have "read_records dec w (take w f) (drop w f) = map (\<lambda>k. dec (take w (drop (w * k) (drop w f)))) [0..<n]"
    using Suc.prems(1) by (intro Suc.IH) simp_all
  ultimately show ?case
    using assms Suc.prems(2)
    by (simp add: read_records.simps [of dec w dat f] Let_def map_upt_Suc ac_simps del: upt_Suc length_take)
qed

text \<open>
  When every rank of a world of \<open>n\<close> processes has written its record, in any order and over any
  shorter file, a reader of the whole file gets the records in the order of the ranks.
\<close>

context slot_file
begin

lemma read_all_slots:
  fixes key :: "'p \<Rightarrow> int"
  assumes "\<forall>x \<in> set xs. ok (rec x)" and "distinct (map key xs)" and "key ` set xs = int ` {0..<n}"
    and "length f0 \<le> width * n" and "0 < n"
  obtains proc where "\<forall>k < n. proc k \<in> set xs \<and> key (proc k) = int k"
    and "read_records dec width (replicate width 0) (write_slots (map (\<lambda>x. (nat (key x), rec x)) xs) f0) = map (\<lambda>k. rec (proc k)) [0..<n]"
proof -
  let ?ws = "map (\<lambda>x. (nat (key x), rec x)) xs"
  let ?f = "write_slots ?ws f0"
  have pos: "0 \<le> key x" if "x \<in> set xs" for x using assms(3) that by (metis (mono_tags, lifting) imageE image_eqI of_nat_0_le_iff)
  have d: "distinct (map fst ?ws)" using assms(2) pos by (auto simp: distinct_map comp_def inj_on_def nat_eq_iff)
  have ok: "\<forall>(k, x) \<in> set ?ws. ok x" using assms(1) by auto
  have "(\<lambda>(k, x). width * k + width) ` set ?ws = (\<lambda>k. width * k + width) ` (nat ` key ` set xs)" by (auto simp: image_iff)
  also have "\<dots> = (\<lambda>k. width * k + width) ` {0..<n}" unfolding assms(3) by (simp add: image_image)
  finally have img: "(\<lambda>(k, x). width * k + width) ` set ?ws = (\<lambda>k. width * k + width) ` {0..<n}" .
  have last: "width * k + width \<le> width * n" if "k < n" for k using that mult_le_mono2 [of "Suc k" n width] by simp
  have "width * (n - 1) + width = width * n" using assms(5) by (cases n) simp_all
  then have "Max (insert (length f0) ((\<lambda>k. width * k + width) ` {0..<n})) = width * n"
    using assms(4,5) last by (intro Max_eqI) (auto simp: image_iff intro!: bexI [of _ "n - 1"])
  then have len: "length ?f = width * n" using length_write_slots [OF ok] img by simp
  have "\<exists>x. x \<in> set xs \<and> key x = int k" if "k < n" for k
  proof -
    have "int k \<in> key ` set xs" unfolding assms(3) using that by simp
    then show ?thesis by (rule imageE) auto
  qed
  then obtain proc where proc: "\<And>k. k < n \<Longrightarrow> proc k \<in> set xs \<and> key (proc k) = int k" by metis
  have "dec (take width (drop (width * k) ?f)) = rec (proc k)" if k: "k < n" for k
  proof -
    have "(nat (key (proc k)), rec (proc k)) \<in> set ?ws" using proc [OF k] unfolding set_map by (intro image_eqI [of _ _ "proc k"]) simp_all
    then show ?thesis using read_slot [OF ok d, of k] proc [OF k] by simp
  qed
  then have "read_records dec width (replicate width 0) ?f = map (\<lambda>k. rec (proc k)) [0..<n]"
    unfolding read_records_slots [OF slot_pos len length_replicate] by simp
  then show ?thesis using proc that by blast
qed

end

text \<open>The record process \<open>st\<close> writes in update \<open>idx\<close>.\<close>

definition info_of :: "int \<Rightarrow> 'a process_scheme \<Rightarrow> rep_and_stack_info" where
  "info_of idx st = \<lparr>info_replication_idx = word_of_int idx, info_rank = word_of_int (rank (node st)),
     info_stack_address = stackHigherAddress st\<rparr>"

lemma save_one_info:
  assumes "0 \<le> rank (node st)"
  shows "save_rep_and_stack_info idx (files(STACK_REP_INFO_FILE_NAME \<mapsto> f)) st =
     files(STACK_REP_INFO_FILE_NAME \<mapsto> write_at (16 * nat (rank (node st))) (enc_info (info_of idx st)) f)"
  using assms by (simp add: save_rep_and_stack_info_def file_write_at_def Let_def info_of_def nat_mult_distrib fun_upd_upd)

lemma save_all_infos:
  assumes "\<forall>st \<in> set sts. 0 \<le> rank (node st)"
  shows "fold (\<lambda>st fs. save_rep_and_stack_info idx fs st) sts (files(STACK_REP_INFO_FILE_NAME \<mapsto> f)) =
     files(STACK_REP_INFO_FILE_NAME \<mapsto> info_slots.write_slots (map (\<lambda>st. (nat (rank (node st)), info_of idx st)) sts) f)"
  using assms
proof (induction sts arbitrary: f)
  case Nil
  then show ?case by (simp add: info_slots.write_slots_def)
next
  case (Cons st sts)
  then show ?case by (simp add: save_one_info info_slots.write_slots_def del: fun_upd_apply)
qed

lemma table_of_records:
  assumes "k < n" and "n < 2147483648" and "\<And>k. k < n \<Longrightarrow> key k = word_of_int (int k)"
  shows "fold (\<lambda>k m. m(key k := v k)) [0..<n] m0 (word_of_int (int k) :: 32 word) = v k"
proof -
  have inj: "(word_of_int (int a) :: 32 word) = word_of_int (int b) \<longleftrightarrow> a = b" if "a < n" "b < n" for a b
    using that assms(2) by (simp add: word_of_nat_eq_iff take_bit_nat_eq_self)
  have "fold (\<lambda>k m. m(key k := v k)) [0..<j] m0 (word_of_int (int k)) = (if k < j then v k else m0 (word_of_int (int k)))"
    if "j \<le> n" for j
    using that
  proof (induction j)
    case 0
    then show ?case by simp
  next
    case (Suc j)
    then show ?case using assms(1,3) inj [of k j] by (auto simp: less_Suc_eq simp del: of_int_of_nat_eq)
  qed
  then show ?thesis using assms(1) by simp
qed

text \<open>
  C18: the stack addresses reach the manager. When the processes of a world of \<open>n\<close> ranks have
  saved their records, in any order and over any older, shorter file, \<open>InitStackData\<close> gives
  every rank of the job map the stack address of the process with that rank, and the index
  of the update. (\<open>Assign\<close> compares these addresses before it moves a rank.)
\<close>

theorem stack_data_reaches_manager:
  assumes "distinct (map (\<lambda>st. rank (node st)) sts)" and "(\<lambda>st. rank (node st)) ` set sts = int ` {0..<n}"
    and "length f0 \<le> 16 * n" and "0 < n" and "n < 2147483648"
    and "fold (\<lambda>st fs. save_rep_and_stack_info idx fs st) sts (files(STACK_REP_INFO_FILE_NAME \<mapsto> f0)) = files'"
    and "list_all (\<lambda>j. list_all (\<lambda>r. 0 \<le> Rank_Rank r \<and> Rank_Rank r < int n) (RankList j)) jm"
  shows "\<exists>jm'. InitStackData (files' STACK_REP_INFO_FILE_NAME) False repidx jm = Inr (True, word_of_int idx, jm') \<and>
     list_all2 (\<lambda>j j'. \<exists>rs. j' = j\<lparr>RankList := rs\<rparr> \<and>
       list_all2 (\<lambda>r r'. \<exists>st \<in> set sts. rank (node st) = Rank_Rank r \<and> r' = r\<lparr>StackAdd := stackHigherAddress st\<rparr>) (RankList j) rs) jm jm'"
proof -
  let ?f = "info_slots.write_slots (map (\<lambda>st. (nat (rank (node st)), info_of idx st)) sts) f0"
  have pos: "\<forall>st \<in> set sts. 0 \<le> rank (node st)" using assms(2) by (metis (mono_tags, lifting) imageE image_eqI of_nat_0_le_iff)
  then have f: "files' STACK_REP_INFO_FILE_NAME = Some ?f" using save_all_infos [of sts idx files f0] assms(6) by auto
  obtain proc where proc: "\<forall>k < n. proc k \<in> set sts \<and> rank (node (proc k)) = int k"
      and "read_records dec_info 16 (replicate 16 0) ?f = map (\<lambda>k. info_of idx (proc k)) [0..<n]"
    by (rule info_slots.read_all_slots [where rec = "info_of idx", OF _ assms(1,2,3,4)]) simp
  then have infos: "read_infos (replicate 16 0) ?f = map (\<lambda>k. info_of idx (proc k)) [0..<n]" by (simp add: read_infos_def)
  let ?m = "fold (\<lambda>i m. m(info_rank i := info_stack_address i)) (map (\<lambda>k. info_of idx (proc k)) [0..<n]) (\<lambda>_. 0)"
  have m: "?m (word_of_int (int k)) = stackHigherAddress (proc k)" if "k < n" for k
    unfolding fold_map using table_of_records [OF that assms(5), of "\<lambda>k. info_rank (info_of idx (proc k))"
        "\<lambda>k. info_stack_address (info_of idx (proc k))" "\<lambda>_. 0"] proc
    by (simp add: comp_def info_of_def del: of_int_of_nat_eq)
  have l: "info_replication_idx (last (map (\<lambda>k. info_of idx (proc k)) [0..<n])) = word_of_int idx"
    using assms(4) by (simp add: last_map info_of_def)
  let ?new = "\<lambda>j. j\<lparr>RankList := map (\<lambda>r. r\<lparr>StackAdd := ?m (word_of_int (Rank_Rank r))\<rparr>) (RankList j)\<rparr>"
  have "InitStackData (files' STACK_REP_INFO_FILE_NAME) False repidx jm = Inr (True, word_of_int idx, map ?new jm)"
    using f infos assms(4) l by (simp add: InitStackData_def some_or_Some)
  moreover have "\<exists>st \<in> set sts. rank (node st) = Rank_Rank r \<and>
      r\<lparr>StackAdd := ?m (word_of_int (Rank_Rank r))\<rparr> = r\<lparr>StackAdd := stackHigherAddress st\<rparr>"
    if "j \<in> set jm" "r \<in> set (RankList j)" for j r
  proof -
    have r: "0 \<le> Rank_Rank r" "nat (Rank_Rank r) < n" using assms(7) that by (auto simp: list_all_iff nat_less_iff)
    then show ?thesis using proc m [OF r(2)] by (intro bexI [of _ "proc (nat (Rank_Rank r))"]) simp_all
  qed
  ultimately show ?thesis
    by (intro exI [of _ "map ?new jm"]) (auto simp: list_all2_map2 list.rel_refl_strong intro!: list.rel_refl_strong)
qed

theorem stack_data_reaches_manager_witness:
  "\<exists>jm'. InitStackData (fold (\<lambda>st fs. save_rep_and_stack_info 1 fs st)
        [(demo_globals 1)\<lparr>stackHigherAddress := 9000\<rparr>, demo_globals 0] ((\<lambda>_. None)(STACK_REP_INFO_FILE_NAME \<mapsto> []))
        STACK_REP_INFO_FILE_NAME) False 0 (InitJobMap 1 2) = Inr (True, 1, jm') \<and>
     map StackAdd (RankList (jm' ! 0)) = [8040, 9000]"
proof -
  let ?sts = "[(demo_globals 1)\<lparr>stackHigherAddress := 9000\<rparr>, demo_globals 0]"
  let ?sel = "\<lambda>r r'. \<exists>st \<in> set ?sts. rank (node st) = Rank_Rank r \<and> r' = r\<lparr>StackAdd := stackHigherAddress st\<rparr>"
  have d: "rank (node (demo_globals r)) = r" "stackHigherAddress (demo_globals r) = 8040" for r
    by (simp_all add: demo_globals_def process.defs demo_process_def heap.defs)
  have j: "InitJobMap 1 2 = [\<lparr>JobID = 0, RankList = [\<lparr>Rank_Rank = 0, PrevJob = -1, StackAdd = 0\<rparr>, \<lparr>Rank_Rank = 1, PrevJob = -1, StackAdd = 0\<rparr>],
      Modified = 1\<rparr>]"
    by (simp add: InitJobMap_def NewJob_def InsertRank_def upt_rec numeral_2_eq_2)
  have img: "(\<lambda>st. rank (node st)) ` set ?sts = int ` {0..<2}"
    by (auto simp: d image_iff intro: bexI [of _ 0] bexI [of _ 1])
  have "\<exists>jm'. InitStackData (fold (\<lambda>st fs. save_rep_and_stack_info 1 fs st) ?sts
        ((\<lambda>_. None)(STACK_REP_INFO_FILE_NAME \<mapsto> [])) STACK_REP_INFO_FILE_NAME) False 0 (InitJobMap 1 2) = Inr (True, word_of_int 1, jm') \<and>
      list_all2 (\<lambda>j j'. \<exists>rs. j' = j\<lparr>RankList := rs\<rparr> \<and> list_all2 ?sel (RankList j) rs) (InitJobMap 1 2) jm'"
    by (rule stack_data_reaches_manager [OF _ img _ _ _ refl]) (simp_all add: d j del: One_nat_def)
  then obtain jm' where i: "InitStackData (fold (\<lambda>st fs. save_rep_and_stack_info 1 fs st) ?sts
        ((\<lambda>_. None)(STACK_REP_INFO_FILE_NAME \<mapsto> [])) STACK_REP_INFO_FILE_NAME) False 0 (InitJobMap 1 2) = Inr (True, 1, jm')"
      and jm: "list_all2 (\<lambda>j j'. \<exists>rs. j' = j\<lparr>RankList := rs\<rparr> \<and> list_all2 ?sel (RankList j) rs) (InitJobMap 1 2) jm'"
    unfolding word_of_int_1 by blast
  obtain rs where rs: "jm' ! 0 = (InitJobMap 1 2 ! 0)\<lparr>RankList := rs\<rparr>" "list_all2 ?sel (RankList (InitJobMap 1 2 ! 0)) rs"
    using list_all2_nthD [OF jm, of 0] by (auto simp: j)
  have "map StackAdd rs = [8040, 9000]" using rs(2) unfolding j by (auto simp: d list_all2_Cons1)
  then show ?thesis using i rs(1) by (intro exI [of _ jm']) (simp only: fold.simps, simp)
qed

end
