(* ===== verification/Redistribute.thy ===== *)
theory Redistribute
  imports Comm Status_Files "HOL-Library.Multiset"
begin

text \<open>
  How the manager of \<open>src/manager/manager/manager.go\<close> changes its job map: \<open>Choose\<close> takes
  random replicas out of their jobs, \<open>Assign\<close> puts them into jobs that have room, and the
  loop of \<open>main\<close> writes the map and reads the stack addresses back. The random generators
  are the lists of the numbers they return; a list that ends too early is \<open>Short_Input\<close>, so
  that a loop which no list of numbers brings to its end is a loop that does not return.
  A map key without a job and a slice out of range make Go panic (\<open>Out_Of_Bounds\<close>).
\<close>

section \<open>The operations\<close>

definition GetNumberOfRanks :: "GoJob \<Rightarrow> nat" where
  "GetNumberOfRanks j = length (RankList j)"

definition GetRank :: "int \<Rightarrow> GoJob \<Rightarrow> Rank result" where
  "GetRank i j =
     (if int (length (RankList j)) < i + 1 then Inr \<lparr>Rank_Rank = 0, PrevJob = 0, StackAdd = 0\<rparr>
      else aget (RankList j) i)"

definition RemoveI :: "int \<Rightarrow> GoJob \<Rightarrow> GoJob result" where
  "RemoveI i j =
     (if 0 \<le> i \<and> i + 1 \<le> int (length (RankList j))
      then Inr (j\<lparr>RankList := take (nat i) (RankList j) @ drop (nat i + 1) (RankList j)\<rparr>)
      else Inl Out_Of_Bounds)"

primrec choose_loop :: "nat \<Rightarrow> int \<Rightarrow> Rank list \<Rightarrow> int list \<Rightarrow> JobMap \<Rightarrow> (Rank list \<times> int list \<times> JobMap) result" where
  "choose_loop 0 n c ds jm = Inr (c, ds, jm)"
| "choose_loop (Suc i) n c ds jm =
     (if n \<le> int (length c) then Inr (c, ds, jm)
      else case ds of [] \<Rightarrow> Inl Short_Input
        | randomJob # ds1 \<Rightarrow> bindE (aget jm randomJob) (\<lambda>j.
            if GetNumberOfRanks j = 1 then choose_loop i n c ds1 jm
            else case ds1 of [] \<Rightarrow> Inl Short_Input
              | randomRankIndex # ds2 \<Rightarrow>
                  bindE (GetRank randomRankIndex j) (\<lambda>r.
                  bindE (RemoveI randomRankIndex j) (\<lambda>j1.
                    choose_loop i n (c @ [r]) ds2 (jm[nat randomJob := j1\<lparr>Modified := 1\<rparr>])))))"

definition Choose :: "int \<Rightarrow> int list \<Rightarrow> JobMap \<Rightarrow> (Rank list \<times> int list \<times> JobMap) result" where
  "Choose n ds jm = choose_loop (length jm div 2) n [] ds jm"

text \<open>The test of the second condition reads the first rank of the job only if the first holds.\<close>

definition accepts :: "Rank \<Rightarrow> int \<Rightarrow> GoJob \<Rightarrow> bool result" where
  "accepts r randomJob j =
     (if PrevJob r = randomJob then Inr False
      else bindE (aget (RankList j) 0) (\<lambda>r0. Inr (StackAdd r0 = StackAdd r)))"

fun Assign :: "Rank list \<Rightarrow> int list \<Rightarrow> JobMap \<Rightarrow> (int list \<times> JobMap) result" where
  "Assign [] ds jm = Inr (ds, jm)"
| "Assign (r # rs) [] jm = Inl Short_Input"
| "Assign (r # rs) (randomJob # ds) jm =
     bindE (aget jm randomJob) (\<lambda>j.
       if GetNumberOfRanks j = 2 then Assign (r # rs) ds jm
       else bindE (accepts r randomJob j) (\<lambda>ok.
              if ok then Assign rs ds (jm[nat randomJob := (InsertRank r j)\<lparr>Modified := 1\<rparr>])
              else Assign (r # rs) ds jm))"

text \<open>One turn of the loop of \<open>main\<close> up to the map it writes.\<close>

definition redistribute :: "int \<Rightarrow> int list \<Rightarrow> int list \<Rightarrow> JobMap \<Rightarrow> JobMap result" where
  "redistribute n ds es jm =
     bindE (Choose n ds jm) (\<lambda>(c, _, jm1). bindE (Assign c es jm1) (\<lambda>(_, jm2). Inr jm2))"

text \<open>
  The loop of \<open>main\<close>: the job map and the last replication index before update number \<open>i\<close>,
  for \<open>j\<close> jobs, \<open>r\<close> ranks and \<open>n\<close> ranks to move in every update.
\<close>

inductive manager_main :: "nat \<Rightarrow> nat \<Rightarrow> int \<Rightarrow> nat \<Rightarrow> JobMap \<Rightarrow> 32 word \<Rightarrow> bool" for j r n where
  start: "0 < j \<Longrightarrow> j \<le> r \<Longrightarrow> manager_main j r n 0 (InitJobMap j r) 0"
| update: "manager_main j r n i jm idx \<Longrightarrow> redistribute n ds es jm = Inr jm1 \<Longrightarrow>
    InitStackData stack (i \<noteq> 0) idx (ResetModified jm1) = Inr (same, idx1, jm2) \<Longrightarrow>
    manager_main j r n (Suc i) jm2 idx1"

section \<open>Moving ranks\<close>

definition jobs_ok :: "JobMap \<Rightarrow> bool" where
  "jobs_ok jm \<longleftrightarrow> list_all (\<lambda>j. RankList j \<noteq> [] \<and> (Modified j = 0 \<or> Modified j = 1)) jm"

text \<open>A job that is not what it was is marked as modified.\<close>

definition marks :: "JobMap \<Rightarrow> JobMap \<Rightarrow> bool" where
  "marks jm jm' \<longleftrightarrow> length jm' = length jm \<and> (\<forall>k < length jm. jm' ! k = jm ! k \<or> Modified (jm' ! k) = 1)"

lemma marks_refl [simp]: "marks jm jm"
  by (simp add: marks_def)

lemma marks_update: "Modified j = 1 \<Longrightarrow> marks (jm[k := j]) jm' \<Longrightarrow> marks jm jm'"
  unfolding marks_def by (metis length_list_update nth_list_update_eq nth_list_update_neq)

text \<open>A job from which ranks were only taken.\<close>

definition shrinks :: "JobMap \<Rightarrow> JobMap \<Rightarrow> bool" where
  "shrinks jm jm' \<longleftrightarrow> (\<forall>k < length jm. set (RankList (jm' ! k)) \<subseteq> set (RankList (jm ! k)))"

lemma shrinks_update:
  assumes "set (RankList j) \<subseteq> set (RankList (jm ! k))" and "shrinks (jm[k := j]) jm'"
  shows "shrinks jm jm'"
  using assms unfolding shrinks_def by (metis length_list_update nth_list_update_eq nth_list_update_neq subset_trans)

lemma mset_concat_update:
  assumes "k < length xs"
  shows "mset (concat (xs[k := y])) + mset (xs ! k) = mset (concat xs) + mset y"
  using assms
proof (induction xs arbitrary: k)
  case Nil
  then show ?case by simp
next
  case (Cons x xs)
  then show ?case by (cases k) (simp_all add: ac_simps)
qed

lemma mset_all_ranks_update:
  assumes "k < length jm"
  shows "mset (all_ranks (jm[k := j])) + mset (ranks (jm ! k)) = mset (all_ranks jm) + mset (ranks j)"
  using mset_concat_update [of k "map ranks jm" "ranks j"] assms by (simp add: all_ranks_def map_update)

lemma jobs_ok_update: "jobs_ok jm \<Longrightarrow> RankList j \<noteq> [] \<Longrightarrow> Modified j = 1 \<Longrightarrow> jobs_ok (jm[k := j])"
  by (auto simp: jobs_ok_def list_all_iff dest: set_update_subset_insert [THEN subsetD])

lemma jobs_ok_nth: "jobs_ok jm \<Longrightarrow> k < length jm \<Longrightarrow> RankList (jm ! k) \<noteq> []"
  by (simp add: jobs_ok_def list_all_length)

text \<open>What was taken out of a job is the rank that was read.\<close>

lemma RemoveI_takes:
  assumes "RemoveI i j = Inr j1" and "GetRank i j = Inr r" and "RankList j \<noteq> []" and "GetNumberOfRanks j \<noteq> 1"
  shows "mset (RankList j) = add_mset r (mset (RankList j1))" "RankList j1 \<noteq> []" "Modified j1 = Modified j"
proof -
  obtain xs where xs: "RankList j = xs" by simp
  have i: "nat i < length xs" "j1 = j\<lparr>RankList := take (nat i) xs @ drop (nat i + 1) xs\<rparr>" "r = xs ! nat i"
    using assms(1,2) xs by (auto simp: RemoveI_def GetRank_def aget_Inr split: if_splits)
  have "xs = take (nat i) xs @ r # drop (nat i + 1) xs" using i(1,3) by (simp add: id_take_nth_drop)
  then have "mset xs = mset (take (nat i) xs @ r # drop (nat i + 1) xs)" by simp
  then show m: "mset (RankList j) = add_mset r (mset (RankList j1))" using i(2) xs by simp
  show "Modified j1 = Modified j" using i(2) by simp
  have "size (mset (RankList j)) = Suc (size (mset (RankList j1)))" using m by simp
  then show "RankList j1 \<noteq> []" using assms(3,4) by (auto simp: GetNumberOfRanks_def)
qed

lemma choose_loop_moves:
  assumes "choose_loop i n c ds jm = Inr (c', ds', jm')" and "jobs_ok jm"
  shows "jobs_ok jm' \<and> marks jm jm' \<and> shrinks jm jm' \<and>
     mset (all_ranks jm') + mset (map Rank_Rank c') = mset (all_ranks jm) + mset (map Rank_Rank c)"
  using assms
proof (induction i arbitrary: c ds jm)
  case 0
  then show ?case by (simp add: shrinks_def)
next
  case (Suc i)
  show ?case
  proof (cases "n \<le> int (length c)")
    case True
    then show ?thesis using Suc.prems by (simp add: shrinks_def)
  next
    case False
    then obtain d ds1 where ds: "ds = d # ds1" using Suc.prems(1) by (cases ds) auto
    obtain k where k: "k < length jm" "d = int k"
      using Suc.prems(1) False ds by (auto simp: bindE_eq_Inr_iff aget_Inr)
    show ?thesis
    proof (cases "GetNumberOfRanks (jm ! k) = 1")
      case True
      then show ?thesis using Suc False ds k by simp
    next
      case many: False
      obtain e ds2 where ds1: "ds1 = e # ds2" using Suc.prems(1) False ds k many by (cases ds1) auto
      obtain r j1 where r: "GetRank e (jm ! k) = Inr r" "RemoveI e (jm ! k) = Inr j1"
        and loop: "choose_loop i n (c @ [r]) ds2 (jm[k := j1\<lparr>Modified := 1\<rparr>]) = Inr (c', ds', jm')"
        using Suc.prems(1) False ds k many ds1 by (auto simp: bindE_eq_Inr_iff)
      note t = RemoveI_takes [OF r(2,1) jobs_ok_nth [OF Suc.prems(2) k(1)] many]
      let ?j = "j1\<lparr>Modified := 1\<rparr>"
      have "jobs_ok (jm[k := ?j])" using Suc.prems(2) t(2) by (intro jobs_ok_update) simp_all
      note IH = Suc.IH [OF loop this]
      have "mset (ranks (jm ! k)) = add_mset (Rank_Rank r) (mset (ranks ?j))"
        using arg_cong [OF t(1), of "image_mset Rank_Rank"] by (simp add: ranks_def)
      then have "mset (all_ranks (jm[k := ?j])) + mset (map Rank_Rank (c @ [r])) = mset (all_ranks jm) + mset (map Rank_Rank c)"
        using mset_all_ranks_update [OF k(1), of ?j] by simp
      moreover have "set (RankList ?j) \<subseteq> set (RankList (jm ! k))"
        using arg_cong [OF t(1), of set_mset] by auto
      ultimately show ?thesis using IH marks_update [of ?j jm k jm'] shrinks_update [of ?j jm k jm'] by simp
    qed
  qed
qed

text \<open>
  What \<open>Assign\<close> does to the jobs: it only appends ranks, each with the stack address of the
  first rank of its new job.
\<close>

definition extends :: "JobMap \<Rightarrow> JobMap \<Rightarrow> bool" where
  "extends jm jm' \<longleftrightarrow> length jm' = length jm \<and>
     (\<forall>k < length jm. \<exists>new. RankList (jm' ! k) = RankList (jm ! k) @ new \<and>
        list_all (\<lambda>r. StackAdd r = StackAdd (hd (RankList (jm ! k)))) new)"

lemma extends_refl [simp]: "extends jm jm"
  by (simp add: extends_def)

lemma extends_update:
  assumes "k < length jm" and "RankList (jm ! k) \<noteq> []" and "StackAdd r = StackAdd (RankList (jm ! k) ! 0)"
    and "RankList j = RankList (jm ! k) @ [r]" and "extends (jm[k := j]) jm'"
  shows "extends jm jm'"
proof -
  have "\<exists>new. RankList (jm' ! x) = RankList (jm ! x) @ new \<and>
      list_all (\<lambda>r. StackAdd r = StackAdd (hd (RankList (jm ! x)))) new" if x: "x < length jm" for x
  proof (cases "x = k")
    case True
    then obtain new where "RankList (jm' ! x) = RankList j @ new"
      "list_all (\<lambda>r. StackAdd r = StackAdd (hd (RankList j))) new"
      using assms(1,5) by (auto simp: extends_def dest!: spec [of _ k])
    then show ?thesis using assms(2,3,4) True by (intro exI [of _ "r # new"]) (simp add: hd_conv_nth nth_append)
  next
    case False
    then show ?thesis using assms(5) x by (auto simp: extends_def dest!: spec [of _ x])
  qed
  then show ?thesis using assms(5) by (simp add: extends_def)
qed

lemma Assign_moves:
  assumes "Assign c ds jm = Inr (ds', jm')" and "jobs_ok jm"
  shows "jobs_ok jm' \<and> marks jm jm' \<and> extends jm jm' \<and>
     mset (all_ranks jm') = mset (all_ranks jm) + mset (map Rank_Rank c)"
  using assms
proof (induction c ds jm rule: Assign.induct)
  case (3 r rs d ds jm)
  obtain k where k: "k < length jm" "d = int k"
    using "3.prems"(1) by (auto simp: bindE_eq_Inr_iff aget_Inr)
  have j: "aget jm d = Inr (jm ! k)" using k by simp
  show ?case
  proof (cases "GetNumberOfRanks (jm ! k) = 2")
    case True
    then show ?thesis using "3.IH"(1) [OF j True] "3.prems" j by simp
  next
    case False
    obtain ok where ok: "accepts r d (jm ! k) = Inr ok" using "3.prems"(1) j False by (auto simp: bindE_eq_Inr_iff)
    show ?thesis
    proof (cases ok)
      case no: False
      then show ?thesis using "3.IH"(3) [OF j False ok] "3.prems" j False ok by simp
    next
      case True
      let ?j = "(InsertRank r (jm ! k))\<lparr>Modified := 1\<rparr>"
      have ne: "RankList (jm ! k) \<noteq> []" using jobs_ok_nth [OF "3.prems"(2) k(1)] .
      have sa: "StackAdd r = StackAdd (RankList (jm ! k) ! 0)"
        using ok True by (auto simp: accepts_def bindE_eq_Inr_iff aget_Inr split: if_splits)
      have loop: "Assign rs ds (jm[k := ?j]) = Inr (ds', jm')" using "3.prems"(1) j False ok True k(2) by simp
      have "jobs_ok (jm[k := ?j])" using "3.prems"(2) by (intro jobs_ok_update) (simp_all add: InsertRank_def)
      then have IH: "jobs_ok jm'" "marks (jm[k := ?j]) jm'" "extends (jm[k := ?j]) jm'"
        "mset (all_ranks jm') = mset (all_ranks (jm[k := ?j])) + mset (map Rank_Rank rs)"
        using "3.IH"(2) [OF j False ok True] loop k(2) by simp_all
      have "mset (all_ranks (jm[k := ?j])) = add_mset (Rank_Rank r) (mset (all_ranks jm))"
        using mset_all_ranks_update [OF k(1), of ?j] by (simp add: ranks_def InsertRank_def)
      then show ?thesis
        using IH marks_update [OF _ IH(2)] extends_update [OF k(1) ne sa _ IH(3)] by (simp add: InsertRank_def)
    qed
  qed
qed simp_all

text \<open>
  One update: the ranks are still all there, every job keeps one, changed jobs are marked, and
  a rank that is new in a job has the stack address of the first rank of that job.
\<close>

definition newcomers_fit :: "JobMap \<Rightarrow> JobMap \<Rightarrow> bool" where
  "newcomers_fit jm jm' \<longleftrightarrow> (\<forall>k < length jm. \<forall>r \<in> set (RankList (jm' ! k)) - set (RankList (jm ! k)).
     StackAdd r = StackAdd (hd (RankList (jm' ! k))))"

lemma marks_trans: "marks jm jm1 \<Longrightarrow> marks jm1 jm2 \<Longrightarrow> marks jm jm2"
  unfolding marks_def by metis

lemma redistribute_moves:
  assumes "redistribute n ds es jm = Inr jm'" and "jobs_ok jm"
  shows "jobs_ok jm' \<and> marks jm jm' \<and> newcomers_fit jm jm' \<and> mset (all_ranks jm') = mset (all_ranks jm)"
proof -
  obtain c ds1 jm1 ds2 where c: "choose_loop (length jm div 2) n [] ds jm = Inr (c, ds1, jm1)"
    and a: "Assign c es jm1 = Inr (ds2, jm')"
    using assms(1) by (auto simp: redistribute_def Choose_def bindE_eq_Inr_iff)
  note m1 = choose_loop_moves [OF c assms(2)]
  have m2: "jobs_ok jm'" "marks jm1 jm'" "extends jm1 jm'"
    "mset (all_ranks jm') = mset (all_ranks jm1) + mset (map Rank_Rank c)"
    using Assign_moves [OF a] m1 by blast+
  have "StackAdd x = StackAdd (hd (RankList (jm' ! k)))"
    if k: "k < length jm" and x: "x \<in> set (RankList (jm' ! k))" "x \<notin> set (RankList (jm ! k))" for k x
  proof -
    have k1: "k < length jm1" using k m1 by (simp add: marks_def)
    obtain new where new: "RankList (jm' ! k) = RankList (jm1 ! k) @ new"
      "list_all (\<lambda>r. StackAdd r = StackAdd (hd (RankList (jm1 ! k)))) new"
      using m2(3) k1 by (auto simp: extends_def)
    have "x \<in> set new" using x new(1) m1 k by (auto simp: shrinks_def)
    moreover have "hd (RankList (jm' ! k)) = hd (RankList (jm1 ! k))"
      using new(1) jobs_ok_nth [of jm1 k] m1 k1 by simp
    ultimately show ?thesis using new(2) by (simp add: list_all_iff)
  qed
  then show ?thesis using m1 m2 marks_trans [of jm jm1 jm'] by (auto simp: newcomers_fit_def)
qed

section \<open>The maps of a run\<close>

lemma stack_data_keeps_ranks:
  assumes "InitStackData stack later idx jm = Inr (same, idx1, jm1)"
  shows "map ranks jm1 = map ranks jm" "map Modified jm1 = map Modified jm"
  using assms by (auto simp: InitStackData_def bindE_eq_Inr_iff Let_def ranks_def comp_def split: if_splits)

lemma jobs_ok_ranks: "jobs_ok jm \<longleftrightarrow> (\<forall>x \<in> set (map ranks jm). x \<noteq> []) \<and> (\<forall>m \<in> set (map Modified jm). m = 0 \<or> m = 1)"
  by (auto simp: jobs_ok_def list_all_iff ranks_def)

lemma InitJobMap_keeps:
  assumes "0 < j" and "j \<le> r"
  shows "jobs_ok (InitJobMap j r)" "mset (all_ranks (InitJobMap j r)) = mset (map int [0..<r])"
proof -
  have "RankList (InitJobMap j r ! k) \<noteq> []" if "k < j" for k
    using InitJobMap_nonempty [OF that assms(2)] .
  then show "jobs_ok (InitJobMap j r)" by (simp add: jobs_ok_def list_all_length InitJobMap_modified)
  have "set (all_ranks (InitJobMap j r)) = int ` {0..<r}" using assms(1) by (rule InitJobMap_ranks_set)
  then show "mset (all_ranks (InitJobMap j r)) = mset (map int [0..<r])"
    using set_eq_iff_mset_eq_distinct [OF InitJobMap_ranks_distinct [OF assms(2)], of "map int [0..<r]"]
    by (simp only: distinct_map set_map set_upt distinct_upt inj_on_of_nat simp_thms)
qed

lemma manager_main_keeps:
  "manager_main j r n i jm idx \<Longrightarrow> jobs_ok jm \<and> length jm = j \<and> mset (all_ranks jm) = mset (map int [0..<r])"
proof (induction rule: manager_main.induct)
  case start
  then show ?case using InitJobMap_keeps by simp
next
  case (update i jm idx ds es jm1 stack same idx1 jm2)
  have m: "jobs_ok jm1" "marks jm jm1" "mset (all_ranks jm1) = mset (all_ranks jm)"
    using redistribute_moves [OF update.hyps(2)] update.IH by blast+
  have r: "map ranks jm2 = map ranks jm1" "map Modified jm2 = map (\<lambda>_. 0) jm1"
    using stack_data_keeps_ranks [OF update.hyps(3)] by (simp_all add: ResetModified_def ranks_def comp_def)
  have "jobs_ok jm2" using m(1) by (simp add: jobs_ok_ranks r)
  moreover have "length jm2 = j" using arg_cong [OF r(1), of length] m(2) update.IH by (simp add: marks_def)
  moreover have "mset (all_ranks jm2) = mset (all_ranks jm)" using r(1) m(3) by (simp add: all_ranks_def)
  ultimately show ?case using update.IH by simp
qed

lemma valid_from_mset:
  assumes "jobs_ok jm" and "mset (all_ranks jm) = mset (map int [0..<r])" and "r < 2147483648"
  shows "valid_map jm" "length (all_ranks jm) = r" "set (all_ranks jm) = int ` {0..<r}"
proof -
  have d: "distinct (map int [0..<r])" by (simp add: distinct_map)
  show l: "length (all_ranks jm) = r" using arg_cong [OF assms(2), of size] by simp
  show s: "set (all_ranks jm) = int ` {0..<r}" using arg_cong [OF assms(2), of set_mset] by simp
  have "distinct (all_ranks jm)" using assms(2) d by (metis mset_eq_imp_distinct_iff)
  then show "valid_map jm" using assms(1,3) l s by (simp add: valid_map_def jobs_ok_def) (auto simp: list_all_iff)
qed

lemma InitJobMap_valid:
  assumes "0 < j" and "j \<le> r" and "r < 2147483648"
  shows "valid_map (InitJobMap j r) \<and> set (all_ranks (InitJobMap j r)) = int ` {0..<r}"
  using valid_from_mset [OF InitJobMap_keeps [OF assms(1,2)] assms(3)] by simp

text \<open>
  C8: every map of a run. However the random numbers fall and whatever the stack address file
  holds, each map the manager writes after \<open>Choose\<close> and \<open>Assign\<close> still has all \<open>j\<close> jobs with
  at least one rank each and every spawned rank exactly once, a changed job is marked as
  modified, and a rank that is new in a job has the stack address of the first rank there
  (another address makes the transfer abort with 800). Its file is therefore accepted by
  \<open>parse_map_file\<close> in every process that has the tables of an earlier map or none.
\<close>

theorem manager_maps_load:
  assumes "manager_main j r n i jm idx" and "redistribute n ds es jm = Inr jm'" and "r < 2147483648"
    and "ckpt_restore st = RESTORE_NO" and "old_map_ok r st"
  shows "valid_map jm' \<and> length jm' = j \<and> set (all_ranks jm') = int ` {0..<r} \<and>
     marks jm jm' \<and> newcomers_fit jm jm' \<and>
     (\<exists>st'. parse_map_file (Some (WriteToFile jm')) st = Inr st' \<and> map_loaded jm' st st')"
proof -
  have inv: "jobs_ok jm" "length jm = j" "mset (all_ranks jm) = mset (map int [0..<r])"
    using manager_main_keeps [OF assms(1)] by blast+
  have m: "jobs_ok jm'" "marks jm jm'" "newcomers_fit jm jm'" "mset (all_ranks jm') = mset (map int [0..<r])"
    using redistribute_moves [OF assms(2) inv(1)] inv(3) by simp_all
  note v = valid_from_mset [OF m(1,4) assms(3)]
  show ?thesis using v m(2,3) inv(2) parse_map_loads [OF v(1) assms(4)] assms(5) by (simp add: marks_def)
qed

text \<open>
  The first update of two jobs on three ranks: rank 0 leaves job 0, where rank 2 stays, and is
  added to job 1.
\<close>

lemma demo_redistribute:
  "redistribute 1 [0, 0] [1] (InitJobMap 2 3) =
     Inr [\<lparr>JobID = 0, RankList = [\<lparr>Rank_Rank = 2, PrevJob = -1, StackAdd = 0\<rparr>], Modified = 1\<rparr>,
       \<lparr>JobID = 1, RankList = [\<lparr>Rank_Rank = 1, PrevJob = -1, StackAdd = 0\<rparr>, \<lparr>Rank_Rank = 0, PrevJob = -1, StackAdd = 0\<rparr>],
        Modified = 1\<rparr>]"
  by (simp add: redistribute_def Choose_def InitJobMap_def NewJob_def InsertRank_def GetNumberOfRanks_def GetRank_def
      RemoveI_def accepts_def aget_def upt_rec numeral_eq_Suc)

theorem manager_maps_load_witness:
  "\<exists>st'. parse_map_file (Some (WriteToFile
       [\<lparr>JobID = 0, RankList = [\<lparr>Rank_Rank = 2, PrevJob = -1, StackAdd = 0\<rparr>], Modified = 1\<rparr>,
        \<lparr>JobID = 1, RankList = [\<lparr>Rank_Rank = 1, PrevJob = -1, StackAdd = 0\<rparr>, \<lparr>Rank_Rank = 0, PrevJob = -1, StackAdd = 0\<rparr>],
         Modified = 1\<rparr>])) (demo_globals 1) = Inr st'"
proof -
  have "manager_main 2 3 1 0 (InitJobMap 2 3) 0" by (rule manager_main.start) simp_all
  from manager_maps_load [OF this demo_redistribute, of "demo_globals 1"] readme_map_loads(2) [of 1]
  show ?thesis
    by (auto simp: old_map_ok_def demo_globals_def process.defs demo_process_def heap.defs demo_node_def)
qed

section \<open>Looking for room\<close>

text \<open>A job that can take the rank: not of two ranks, not its previous job, the same stack address.\<close>

definition has_room :: "JobMap \<Rightarrow> Rank \<Rightarrow> nat \<Rightarrow> bool" where
  "has_room jm r k \<longleftrightarrow> k < length jm \<and> GetNumberOfRanks (jm ! k) \<noteq> 2 \<and> PrevJob r \<noteq> int k \<and>
     StackAdd (hd (RankList (jm ! k))) = StackAdd r"

lemma accepts_nth: "RankList j \<noteq> [] \<Longrightarrow> accepts r d j = Inr (PrevJob r \<noteq> d \<and> StackAdd (hd (RankList j)) = StackAdd r)"
  by (simp add: accepts_def aget_def hd_conv_nth)

lemma Assign_without_room:
  assumes "jobs_ok jm" and "\<forall>k. \<not> has_room jm r k"
  shows "Assign (r # rs) ds jm \<noteq> Inr y"
proof (induction ds)
  case Nil
  then show ?case by simp
next
  case (Cons d ds)
  show ?case
  proof (cases "0 \<le> d \<and> nat d < length jm")
    case True
    have "\<not> has_room jm r (nat d)" using assms(2) by blast
    then show ?thesis
      using True Cons.IH accepts_nth [OF jobs_ok_nth [OF assms(1)], of "nat d" r d] by (auto simp: aget_def has_room_def)
  next
    case False
    then show ?thesis by (auto simp: aget_def)
  qed
qed

lemma Assign_takes_room:
  assumes "jobs_ok jm" and "has_room jm r k"
  shows "Assign (r # rs) (int k # ds) jm = Assign rs ds (jm[k := (InsertRank r (jm ! k))\<lparr>Modified := 1\<rparr>])"
  using assms accepts_nth [OF jobs_ok_nth [OF assms(1)], of k r "int k"] by (auto simp: has_room_def)

text \<open>
  C32: whether \<open>Assign\<close> returns. For a rank that is to be placed, some sequence of random
  numbers ends the loop if and only if a job has room for it: one that has not exactly two
  ranks, is not the rank's previous job and whose first rank has the same stack address.
  Otherwise the loop goes on for ever, whatever the generator returns, because the code
  neither gives a rank back nor gives up.
\<close>

theorem Assign_returns_iff:
  assumes "jobs_ok jm"
  shows "(\<exists>ds y. Assign [r] ds jm = Inr y) \<longleftrightarrow> (\<exists>k. has_room jm r k)"
proof
  assume "\<exists>ds y. Assign [r] ds jm = Inr y"
  then show "\<exists>k. has_room jm r k" using Assign_without_room [OF assms] by blast
next
  assume "\<exists>k. has_room jm r k"
  then obtain k where "has_room jm r k" by blast
  from Assign_takes_room [OF assms this, of "[]" "[]"] show "\<exists>ds y. Assign [r] ds jm = Inr y"
    by (intro exI [of _ "[int k]"]) simp
qed

text \<open>
  Three stack addresses on three ranks: \<open>Choose\<close> takes the second rank of job 0, and no job
  will ever take it again.
\<close>

definition stuck_map :: JobMap where
  "stuck_map = [\<lparr>JobID = 0, RankList = [\<lparr>Rank_Rank = 0, PrevJob = -1, StackAdd = 16\<rparr>], Modified = 1\<rparr>,
     \<lparr>JobID = 1, RankList = [\<lparr>Rank_Rank = 1, PrevJob = -1, StackAdd = 32\<rparr>], Modified = 0\<rparr>]"

theorem Assign_returns_iff_witness:
  "Choose 1 [0, 1] [\<lparr>JobID = 0, RankList = [\<lparr>Rank_Rank = 0, PrevJob = -1, StackAdd = 16\<rparr>,
        \<lparr>Rank_Rank = 2, PrevJob = -1, StackAdd = 48\<rparr>], Modified = 0\<rparr>,
      \<lparr>JobID = 1, RankList = [\<lparr>Rank_Rank = 1, PrevJob = -1, StackAdd = 32\<rparr>], Modified = 0\<rparr>] =
     Inr ([\<lparr>Rank_Rank = 2, PrevJob = -1, StackAdd = 48\<rparr>], [], stuck_map) \<and>
   \<not> (\<exists>ds y. Assign [\<lparr>Rank_Rank = 2, PrevJob = -1, StackAdd = 48\<rparr>] ds stuck_map = Inr y)"
proof -
  let ?r = "\<lparr>Rank_Rank = 2, PrevJob = -1, StackAdd = 48\<rparr>"
  have "jobs_ok stuck_map" by (simp add: jobs_ok_def stuck_map_def)
  moreover have "\<not> has_room stuck_map ?r k" for k
    by (cases k) (auto simp: has_room_def stuck_map_def less_Suc_eq)
  ultimately have "\<not> (\<exists>ds y. Assign [?r] ds stuck_map = Inr y)"
    using Assign_returns_iff by blast
  then show ?thesis
    by (simp add: Choose_def stuck_map_def GetNumberOfRanks_def GetRank_def RemoveI_def aget_def numeral_eq_Suc)
qed

end
