(* ===== verification/Ulfm.thy ===== *)
theory Ulfm
  imports Comm
begin

text \<open>
  \<open>src/mpi/ulfm.c\<close>: what a process does when others have died. The error handler shrinks
  the world communicator, renames the surviving ranks in the job list (\<open>update_job_list\<close>)
  and splits the communicators anew, or, inside a point-to-point call, only notes the dead
  ranks. An MPI group is the list of its processes in rank order; the translation of ranks
  between groups is the parameter \<open>translate\<close>, and what MPI reports of the failure is a
  record.
\<close>

section \<open>Renaming the ranks of the job list\<close>

definition MPI_UNDEFINED :: int where "MPI_UNDEFINED = -32766"

text \<open>
  The inner loop over the workers of job \<open>i\<close>, in place: \<open>j\<close> reads, \<open>overwrite_pointer\<close>
  writes; \<open>n\<close> passes are left.
\<close>

primrec compact_workers :: "nat \<Rightarrow> int \<Rightarrow> int \<Rightarrow> int \<Rightarrow> int \<Rightarrow> int list \<Rightarrow> 'a globals_scheme \<Rightarrow> 'a globals_scheme result" where
  "compact_workers 0 j overwrite_pointer i sz translated_ranks st = Inr st"
| "compact_workers (Suc n) j overwrite_pointer i sz translated_ranks st =
     bindE (aget (job_list st) i) (\<lambda>entry.
     bindE (some_or Uninitialised entry) (\<lambda>jb.
     bindE (aget (rank_list jb) j) (\<lambda>rk.
     bindE (guardE (rk < sz) Assert_Failed) (\<lambda>_.
     bindE (aget translated_ranks rk) (\<lambda>t.
       if t = MPI_UNDEFINED
       then let jb1 = jb\<lparr>worker_count := worker_count jb - 1\<rparr>
            in bindE (guardE (worker_count jb1 \<noteq> 0) (Abort_With 200)) (\<lambda>_.
               bindE (aset (job_list st) i (Some jb1)) (\<lambda>jl.
                 compact_workers n (j + 1) overwrite_pointer i sz translated_ranks (st\<lparr>job_list := jl\<rparr>)))
       else bindE (aset (rank_list jb) overwrite_pointer t) (\<lambda>rl.
            bindE (aset (job_list st) i (Some (jb\<lparr>rank_list := rl\<rparr>))) (\<lambda>jl.
            bindE (some_or Null_Deref (rank_2_job st)) (\<lambda>tbl.
            bindE (aset tbl t (Some i)) (\<lambda>tbl1.
            bindE (aset (rank_ignore_list st) t 0) (\<lambda>ign.
              compact_workers n (j + 1) (overwrite_pointer + 1) i sz translated_ranks
                (st\<lparr>job_list := jl, rank_2_job := Some tbl1, rank_ignore_list := ign\<rparr>)))))))))))"

primrec update_jobs :: "nat \<Rightarrow> int \<Rightarrow> int \<Rightarrow> int list \<Rightarrow> 'a globals_scheme \<Rightarrow> 'a globals_scheme result" where
  "update_jobs 0 i sz translated_ranks st = Inr st"
| "update_jobs (Suc n) i sz translated_ranks st =
     bindE (aget (job_list st) i) (\<lambda>entry.
     bindE (some_or Uninitialised entry) (\<lambda>jb.
     bindE (compact_workers (nat (worker_count jb)) 0 0 i sz translated_ranks st) (\<lambda>st1.
       update_jobs n (i + 1) sz translated_ranks st1)))"

definition update_job_list :: "int \<Rightarrow> int list \<Rightarrow> 'a globals_scheme \<Rightarrow> 'a globals_scheme result" where
  "update_job_list sz translated_ranks st =
     (let st1 = st\<lparr>node := (node st)\<lparr>node_checkpoint_master := NO\<rparr>\<rparr>
      in bindE (update_jobs (nat (jobs_count (node st1))) 0 sz translated_ranks st1) (\<lambda>st2.
         bindE (aget translated_ranks (rank (node st2))) (\<lambda>t.
         let st3 = st2\<lparr>node := (node st2)\<lparr>rank := t\<rparr>\<rparr>
         in bindE (aget (job_list st3) (job_id (node st3))) (\<lambda>entry.
            bindE (some_or Uninitialised entry) (\<lambda>jb.
            bindE (aget (rank_list jb) 0) (\<lambda>first.
              Inr (if first = rank (node st3)
                   then st3\<lparr>node := (node st3)\<lparr>node_checkpoint_master := YES\<rparr>\<rparr> else st3)))))))"

section \<open>The error handler\<close>

type_synonym MPI_Group = "nat list"

record ulfm = globals +
  last_group_failed :: MPI_Group
  previous_world_group :: MPI_Group

text \<open>
  What MPI answers during one run of the handler: the class of the error, the acknowledged
  dead processes, the groups of the world and of the shrunken world, and the duplicate of
  the shrunken communicator.
\<close>

record failure =
  proc_shrink_pending :: bool
  error_class_proc_failed :: bool
  acked :: MPI_Group
  world_group :: MPI_Group
  shrunk_group :: MPI_Group
  shrunk_dup :: MPI_Comm

type_synonym translation = "MPI_Group \<Rightarrow> int list \<Rightarrow> MPI_Group \<Rightarrow> int list"

primrec ignore_failed :: "int list \<Rightarrow> 'a globals_scheme \<Rightarrow> 'a globals_scheme result" where
  "ignore_failed [] st = Inr st"
| "ignore_failed (r # rs) st =
     (if r \<noteq> MPI_UNDEFINED
      then bindE (aset (rank_ignore_list st) r 1) (\<lambda>ign.
           let st1 = st\<lparr>rank_ignore_list := ign\<rparr>
           in bindE (some_or Null_Deref (rank_2_job st1)) (\<lambda>tbl.
              bindE (aget tbl r) (\<lambda>e.
              bindE (some_or Uninitialised e) (\<lambda>jid.
              bindE (aget (job_list st1) jid) (\<lambda>entry.
              bindE (some_or Uninitialised entry) (\<lambda>_. ignore_failed rs st1))))))
      else ignore_failed rs st)"

text \<open>
  One run of the handler. It calls MPI itself (\<open>Comm_shrink\<close>, \<open>Comm_dup\<close>, \<open>Comm_split\<close>); these calls
  are taken to succeed. A further death inside one of them, which would run the handler again
  from within, is not modelled: deaths come one handler run after the other.
\<close>

definition rep_errhandler :: "translation \<Rightarrow> splitter \<Rightarrow> failure \<Rightarrow> MPI_Comm \<Rightarrow> 'a ulfm_scheme \<Rightarrow> 'a ulfm_scheme result" where
  "rep_errhandler translate split f pcomm st =
     bindE (guardE (proc_shrink_pending f \<or> error_class_proc_failed f) (Abort_With 300)) (\<lambda>_.
       let world = rep_mpi_comm_world (node st)
       in if pcomm = world \<and> ignore_process_failure st = 0
          then let st1 = st\<lparr>last_group_failed := acked f, previous_world_group := world_group f\<rparr>;
                   sz = length (world_group f);
                   tr = translate (world_group f) (map int [0..<sz]) (shrunk_group f)
               in bindE (update_job_list (int sz) tr st1) (\<lambda>st2.
                  let st3 = st2\<lparr>node := (node st2)\<lparr>rep_mpi_comm_world := shrunk_dup f\<rparr>\<rparr>;
                      st4 = (if active_comm (node st3) \<noteq> MPI_COMM_NULL
                             then st3\<lparr>node := (node st3)\<lparr>active_comm := MPI_COMM_NULL\<rparr>\<rparr> else st3);
                      st5 = st4\<lparr>node := (node st4)\<lparr>world_job_comm := MPI_COMM_NULL\<rparr>\<rparr>
                  in Inr (update_comms split st5))
          else if pcomm = world
          then let st1 = st\<lparr>last_group_failed := acked f, process_shrinking_pending := 1\<rparr>;
                   failed = translate (acked f) (map int [0..<length (acked f)]) (world_group f)
               in ignore_failed failed st1
          else Inr st)"

text \<open>The root test: the first ranks of the job list against the dead ranks of the old world.\<close>

primrec any_root :: "nat \<Rightarrow> int \<Rightarrow> int list \<Rightarrow> 'a globals_scheme \<Rightarrow> int result" where
  "any_root 0 i dead st = Inr 0"
| "any_root (Suc n) i dead st =
     (if dead = [] then any_root n (i + 1) dead st
      else bindE (aget (job_list st) i) (\<lambda>entry.
           bindE (some_or Uninitialised entry) (\<lambda>jb.
           bindE (aget (rank_list jb) 0) (\<lambda>first.
             if first \<in> set dead then Inr 1 else any_root n (i + 1) dead st))))"

definition is_failed_node_world_job_comm_root :: "translation \<Rightarrow> 'a ulfm_scheme \<Rightarrow> int result" where
  "is_failed_node_world_job_comm_root translate st =
     any_root (nat (jobs_count (node st))) 0
       (translate (last_group_failed st) (map int [0..<length (last_group_failed st)]) (previous_world_group st)) st"

section \<open>The renaming refines a filter\<close>

text \<open>The new names of the workers that live, in their old order.\<close>

definition survivors :: "int list \<Rightarrow> int list \<Rightarrow> int list" where
  "survivors tr ws = map (\<lambda>r. tr ! nat r) (filter (\<lambda>r. tr ! nat r \<noteq> MPI_UNDEFINED) ws)"

text \<open>A stored rank the translation knows; its new name indexes tables of \<open>n\<close> entries.\<close>

definition renamable :: "int list \<Rightarrow> nat \<Rightarrow> int \<Rightarrow> bool" where
  "renamable tr n r \<longleftrightarrow> 0 \<le> r \<and> nat r < length tr \<and>
     (tr ! nat r \<noteq> MPI_UNDEFINED \<longrightarrow> 0 \<le> tr ! nat r \<and> nat (tr ! nat r) < n)"

lemma survivors_simps [simp]:
  "survivors tr [] = []"
  "survivors tr (r # rs) = (if tr ! nat r = MPI_UNDEFINED then survivors tr rs else tr ! nat r # survivors tr rs)"
  by (simp_all add: survivors_def)

lemma aget_nat: "0 \<le> i \<Longrightarrow> nat i < length xs \<Longrightarrow> aget xs i = Inr (xs ! nat i)"
  by (simp add: aget_Inr)

lemma aset_nat: "0 \<le> i \<Longrightarrow> nat i < length xs \<Longrightarrow> aset xs i v = Inr (xs[nat i := v])"
  by (simp add: aset_Inr)

text \<open>The state after job \<open>i\<close>, now described by \<open>jb\<close>, has got the survivors \<open>ts\<close>.\<close>

definition renamed :: "nat \<Rightarrow> Job \<Rightarrow> int list \<Rightarrow> 'a globals_scheme \<Rightarrow> 'a globals_scheme" where
  "renamed i jb ts st = st\<lparr>job_list := (job_list st)[i := Some jb],
     rank_2_job := Some (fold (\<lambda>t tb. tb[nat t := Some (int i)]) ts (the (rank_2_job st))),
     rank_ignore_list := fold (\<lambda>t l. l[nat t := 0]) ts (rank_ignore_list st)\<rparr>"

lemma renamed_renamed: "rank_2_job st = Some tbl \<Longrightarrow>
   renamed i jb' ts' (renamed i jb ts st) = renamed i jb' (ts @ ts') st"
  by (simp add: renamed_def)

lemma renamed_sel [simp]:
  "rank_2_job (renamed i jb ts st) = Some (fold (\<lambda>t tb. tb[nat t := Some (int i)]) ts (the (rank_2_job st)))"
  "node (renamed i jb ts st) = node st" "length (job_list (renamed i jb ts st)) = length (job_list st)"
  by (simp_all add: renamed_def)

definition tables :: "nat \<Rightarrow> 'a globals_scheme \<Rightarrow> bool" where
  "tables n st \<longleftrightarrow> (\<exists>tbl. rank_2_job st = Some tbl \<and> n \<le> length tbl) \<and> n \<le> length (rank_ignore_list st)"

lemma length_fold_update [simp]: "length (fold (\<lambda>t tb. tb[f t := v]) ts tb) = length tb"
  by (induction ts arbitrary: tb) auto

lemma tables_renamed: "tables n st \<Longrightarrow> tables n (renamed i jb ts st)"
  by (auto simp: tables_def renamed_def)

lemma compact_dead:
  assumes "i < length (job_list st)" and "job_list st ! i = Some jb"
    and "rank_list jb = xs @ r # ys" and "renamable tr n r" and "tr ! nat r = MPI_UNDEFINED"
  shows "compact_workers (Suc k) (int (length xs)) p (int i) (int (length tr)) tr st =
     (if worker_count jb = 1 then Inl (Abort_With 200)
      else compact_workers k (int (length xs) + 1) p (int i) (int (length tr)) tr
        (st\<lparr>job_list := (job_list st)[i := Some (jb\<lparr>worker_count := worker_count jb - 1\<rparr>)]\<rparr>))"
proof -
  have "0 \<le> r" "nat r < length tr" "r < int (length tr)" using assms(4) by (auto simp: renamable_def)
  then show ?thesis using assms(1-3,5) by (simp add: some_or_Some guardE_def aget_nat)
qed

lemma compact_alive:
  assumes "i < length (job_list st)" and "job_list st ! i = Some jb"
    and "rank_list jb = xs @ r # ys" and "renamable tr n r" and "tr ! nat r \<noteq> MPI_UNDEFINED"
    and "p \<le> length xs" and "tables n st"
  shows "compact_workers (Suc k) (int (length xs)) (int p) (int i) (int (length tr)) tr st =
     compact_workers k (int (length xs) + 1) (int p + 1) (int i) (int (length tr)) tr
       (renamed i (jb\<lparr>rank_list := (rank_list jb)[p := tr ! nat r]\<rparr>) [tr ! nat r] st)"
proof -
  obtain tbl where t: "rank_2_job st = Some tbl" "n \<le> length tbl" "n \<le> length (rank_ignore_list st)"
    using assms(7) by (auto simp: tables_def)
  have r: "0 \<le> r" "nat r < length tr" "0 \<le> tr ! nat r" "nat (tr ! nat r) < n"
    using assms(4,5) by (auto simp: renamable_def)
  show ?thesis
    using assms(1-3,5,6) t r
    by (simp add: some_or_Some guardE_True aget_nat aset_nat renamed_def)
qed

lemma compact_workers_ok:
  assumes "i < length (job_list st)" and "job_list st ! i = Some jb"
    and "rank_list jb = pre @ mid @ rs @ suf" and "worker_count jb = int (length pre + length rs)"
    and "tables n st" and "list_all (renamable tr n) rs" and "pre @ survivors tr rs \<noteq> []"
  shows "\<exists>jb'. compact_workers (length rs) (int (length pre + length mid)) (int (length pre)) (int i) (int (length tr)) tr st =
       Inr (renamed i jb' (survivors tr rs) st) \<and> job_job_id jb' = job_job_id jb \<and>
     worker_count jb' = int (length pre + length (survivors tr rs)) \<and> workers jb' = pre @ survivors tr rs \<and>
     length (rank_list jb') = length (rank_list jb)"
  using assms
proof (induction rs arbitrary: pre mid st jb)
  case Nil
  obtain tbl where "rank_2_job st = Some tbl" using Nil.prems(5) by (auto simp: tables_def)
  moreover have "(job_list st)[i := Some jb] = job_list st" using Nil.prems(2) by (metis list_update_id)
  ultimately have "st = renamed i jb [] st" by (simp add: renamed_def)
  then show ?case using Nil.prems(3,4) by (intro exI [of _ jb]) (simp add: workers_def)
next
  case (Cons r rs)
  obtain tbl where tbl: "rank_2_job st = Some tbl" using Cons.prems(5) by (auto simp: tables_def)
  have r: "renamable tr n r" "list_all (renamable tr n) rs" using Cons.prems(6) by auto
  have rl: "rank_list jb = (pre @ mid) @ r # (rs @ suf)" using Cons.prems(3) by simp
  show ?case
  proof (cases "tr ! nat r = MPI_UNDEFINED")
    case True
    let ?jb = "jb\<lparr>worker_count := worker_count jb - 1\<rparr>" and ?st = "renamed i (jb\<lparr>worker_count := worker_count jb - 1\<rparr>) [] st"
    have st: "st\<lparr>job_list := (job_list st)[i := Some ?jb]\<rparr> = ?st" using tbl by (simp add: renamed_def)
    have "worker_count jb \<noteq> 1" using Cons.prems(4,7) True by (cases rs; cases pre) auto
    then have step: "compact_workers (length (r # rs)) (int (length pre + length mid)) (int (length pre)) (int i) (int (length tr)) tr st =
        compact_workers (length rs) (int (length pre + length (mid @ [r]))) (int (length pre)) (int i) (int (length tr)) tr ?st"
      using compact_dead [OF Cons.prems(1,2) rl r(1) True, of "length rs" "int (length pre)"] st by (simp add: algebra_simps)
    have "job_list ?st ! i = Some ?jb" using Cons.prems(1) by (simp add: renamed_def)
    then obtain jb' where "compact_workers (length rs) (int (length pre + length (mid @ [r]))) (int (length pre)) (int i)
          (int (length tr)) tr ?st = Inr (renamed i jb' (survivors tr rs) ?st)" "job_job_id jb' = job_job_id ?jb"
        "worker_count jb' = int (length pre + length (survivors tr rs))" "workers jb' = pre @ survivors tr rs"
        "length (rank_list jb') = length (rank_list ?jb)"
      using Cons.IH [of ?st ?jb pre "mid @ [r]"] Cons.prems r(2) True tables_renamed by fastforce
    then show ?thesis using step True tbl by (auto simp: renamed_renamed)
  next
    case False
    let ?t = "tr ! nat r"
    let ?jb = "jb\<lparr>rank_list := (rank_list jb)[length pre := ?t]\<rparr>"
    let ?st = "renamed i ?jb [?t] st"
    define mid' where "mid' = (if mid = [] then [] else tl mid @ [r])"
    have rl': "rank_list ?jb = (pre @ [?t]) @ mid' @ rs @ suf" and m: "length mid' = length mid"
      using Cons.prems(3) by (cases mid; simp add: mid'_def list_update_append)+
    have step: "compact_workers (length (r # rs)) (int (length pre + length mid)) (int (length pre)) (int i) (int (length tr)) tr st =
        compact_workers (length rs) (int (length (pre @ [?t]) + length mid')) (int (length (pre @ [?t]))) (int i) (int (length tr)) tr ?st"
      using compact_alive [OF Cons.prems(1,2) rl r(1) False _ Cons.prems(5), of "length pre" "length rs"] m
      by (simp add: algebra_simps)
    have "job_list ?st ! i = Some ?jb" using Cons.prems(1) by (simp add: renamed_def)
    then obtain jb' where "compact_workers (length rs) (int (length (pre @ [?t]) + length mid')) (int (length (pre @ [?t]))) (int i)
          (int (length tr)) tr ?st = Inr (renamed i jb' (survivors tr rs) ?st)" "job_job_id jb' = job_job_id ?jb"
        "worker_count jb' = int (length (pre @ [?t]) + length (survivors tr rs))"
        "workers jb' = (pre @ [?t]) @ survivors tr rs" "length (rank_list jb') = length (rank_list ?jb)"
      using Cons.IH [of ?st ?jb "pre @ [?t]" mid'] Cons.prems r(2) rl' tables_renamed [OF Cons.prems(5)] by fastforce
    then show ?thesis using step False tbl by (auto simp: renamed_renamed)
  qed
qed

lemma compact_all_dead:
  assumes "i < length (job_list st)" and "job_list st ! i = Some jb"
    and "rank_list jb = mid @ rs @ suf" and "worker_count jb = int (length rs)"
    and "list_all (renamable tr n) rs" and "survivors tr rs = []" and "rs \<noteq> []"
  shows "compact_workers (length rs) (int (length mid)) 0 (int i) (int (length tr)) tr st = Inl (Abort_With 200)"
  using assms
proof (induction rs arbitrary: mid st jb)
  case Nil
  then show ?case by simp
next
  case (Cons r rs)
  let ?jb = "jb\<lparr>worker_count := worker_count jb - 1\<rparr>"
  let ?st = "st\<lparr>job_list := (job_list st)[i := Some ?jb]\<rparr>"
  have d: "tr ! nat r = MPI_UNDEFINED" using Cons.prems(6) by (simp split: if_splits)
  have r: "renamable tr n r" using Cons.prems(5) by simp
  have step: "compact_workers (length (r # rs)) (int (length mid)) 0 (int i) (int (length tr)) tr st =
      (if rs = [] then Inl (Abort_With 200)
       else compact_workers (length rs) (int (length (mid @ [r]))) 0 (int i) (int (length tr)) tr ?st)"
    using compact_dead [OF Cons.prems(1,2) _ r d, of mid "rs @ suf" "length rs" 0] Cons.prems(3,4)
    by (simp add: algebra_simps)
  show ?case
  proof (cases "rs = []")
    case True
    then show ?thesis unfolding step by simp
  next
    case False
    then show ?thesis
      unfolding step using Cons.prems d by (simp only: if_False) (intro Cons.IH [where jb = ?jb], auto)
  qed
qed

text \<open>A job list that is well formed for a translation into tables of \<open>n\<close> entries.\<close>

definition wf_job :: "int list \<Rightarrow> nat \<Rightarrow> Job \<Rightarrow> bool" where
  "wf_job tr n jb \<longleftrightarrow> 0 < worker_count jb \<and> nat (worker_count jb) \<le> length (rank_list jb) \<and>
     list_all (renamable tr n) (workers jb)"

definition follows :: "int list \<Rightarrow> Job \<Rightarrow> Job \<Rightarrow> bool" where
  "follows tr jb jb' \<longleftrightarrow> workers jb' = survivors tr (workers jb) \<and> worker_count jb' = int (length (workers jb')) \<and>
     job_job_id jb' = job_job_id jb \<and> length (rank_list jb') = length (rank_list jb)"

lemma compact_job:
  assumes "i < length (job_list st)" and "job_list st ! i = Some jb" and "wf_job tr n jb" and "tables n st"
  shows "survivors tr (workers jb) \<noteq> [] \<Longrightarrow>
     \<exists>jb'. compact_workers (nat (worker_count jb)) 0 0 (int i) (int (length tr)) tr st = Inr (renamed i jb' (workers jb') st) \<and>
       follows tr jb jb'"
    and "survivors tr (workers jb) = [] \<Longrightarrow>
     compact_workers (nat (worker_count jb)) 0 0 (int i) (int (length tr)) tr st = Inl (Abort_With 200)"
proof -
  have l: "length (workers jb) = nat (worker_count jb)" "worker_count jb = int (length (workers jb))" "workers jb \<noteq> []"
    "list_all (renamable tr n) (workers jb)"
    using assms(3) by (auto simp: wf_job_def workers_def)
  have rl: "rank_list jb = [] @ [] @ workers jb @ drop (nat (worker_count jb)) (rank_list jb)"
    "rank_list jb = [] @ workers jb @ drop (nat (worker_count jb)) (rank_list jb)"
    by (simp_all add: workers_def)
  show "\<exists>jb'. compact_workers (nat (worker_count jb)) 0 0 (int i) (int (length tr)) tr st =
      Inr (renamed i jb' (workers jb') st) \<and> follows tr jb jb'" if "survivors tr (workers jb) \<noteq> []"
  proof -
    have "worker_count jb = int (length [] + length (workers jb))" using l(2) by simp
    from compact_workers_ok [OF assms(1,2) rl(1) this assms(4) l(4)] that l(1)
    obtain jb' where "compact_workers (nat (worker_count jb)) 0 0 (int i) (int (length tr)) tr st =
        Inr (renamed i jb' (survivors tr (workers jb)) st)" "job_job_id jb' = job_job_id jb"
        "worker_count jb' = int (length (survivors tr (workers jb)))" "workers jb' = survivors tr (workers jb)"
        "length (rank_list jb') = length (rank_list jb)"
      by auto
    then show ?thesis by (intro exI [of _ jb']) (simp add: follows_def)
  qed
  show "compact_workers (nat (worker_count jb)) 0 0 (int i) (int (length tr)) tr st = Inl (Abort_With 200)"
    if "survivors tr (workers jb) = []"
    using compact_all_dead [OF assms(1,2) rl(2) l(2,4) that l(3)] l(1) by simp
qed

definition renamed_all :: "nat \<Rightarrow> Job list \<Rightarrow> 'a globals_scheme \<Rightarrow> 'a globals_scheme" where
  "renamed_all i js st = fold (\<lambda>(k, jb). renamed k jb (workers jb)) (enumerate i js) st"

lemma renamed_other: "k \<noteq> i \<Longrightarrow> job_list (renamed i jb ts st) ! k = job_list st ! k"
  by (simp add: renamed_def)

lemma update_jobs_ok:
  assumes "i + length js \<le> length (job_list st)" and "\<forall>k < length js. job_list st ! (i + k) = Some (js ! k)"
    and "list_all (wf_job tr n) js" and "tables n st" and "list_all (\<lambda>jb. survivors tr (workers jb) \<noteq> []) js"
  shows "\<exists>js'. update_jobs (length js) (int i) (int (length tr)) tr st = Inr (renamed_all i js' st) \<and>
     list_all2 (follows tr) js js'"
  using assms
proof (induction js arbitrary: i st)
  case Nil
  then show ?case by (intro exI [of _ "[]"]) (simp add: renamed_all_def)
next
  case (Cons jb js)
  have i: "i < length (job_list st)" "job_list st ! i = Some jb" using Cons.prems(1,2) by force+
  obtain jb' where jb': "compact_workers (nat (worker_count jb)) 0 0 (int i) (int (length tr)) tr st =
      Inr (renamed i jb' (workers jb') st)" "follows tr jb jb'"
    using compact_job(1) [OF i, of tr n] Cons.prems(3-5) by auto
  let ?st = "renamed i jb' (workers jb') st"
  have "\<forall>k < length js. job_list ?st ! (Suc i + k) = Some (js ! k)"
    using Cons.prems(2) by (auto simp: renamed_other)
  then obtain js' where "update_jobs (length js) (int (Suc i)) (int (length tr)) tr ?st = Inr (renamed_all (Suc i) js' ?st)"
      "list_all2 (follows tr) js js'"
    using Cons.IH [of "Suc i" ?st] Cons.prems tables_renamed [OF Cons.prems(4)] by auto
  then show ?case
    using i jb' by (intro exI [of _ "jb' # js'"]) (simp add: some_or_Some renamed_all_def add.commute)
qed

lemma renamed_all_node [simp]: "node (renamed_all i js st) = node st"
  unfolding renamed_all_def by (induction js arbitrary: i st) simp_all

lemma renamed_all_more:
  "globals.more (renamed_all i js st) = globals.more st"
  "process_shrinking_pending (renamed_all i js st) = process_shrinking_pending st"
  unfolding renamed_all_def by (induction js arbitrary: i st) (simp_all add: renamed_def)

lemma renamed_all_keeps_tables: "tables n st \<Longrightarrow> tables n (renamed_all i js st)"
  unfolding renamed_all_def by (induction js arbitrary: i st) (simp_all add: tables_renamed)

lemma renamed_all_Cons: "renamed_all i (jb # js) st = renamed_all (Suc i) js (renamed i jb (workers jb) st)"
  by (simp add: renamed_all_def)

lemma renamed_all_list:
  "i + length js \<le> length (job_list st) \<Longrightarrow> job_list (renamed_all i js st) =
     take i (job_list st) @ map Some js @ drop (i + length js) (job_list st)"
proof (induction js arbitrary: i st)
  case Nil
  then show ?case by (simp add: renamed_all_def)
next
  case (Cons jb js)
  have "job_list (renamed i jb (workers jb) st) = (job_list st)[i := Some jb]" by (simp add: renamed_def)
  then show ?case
    using Cons by (simp add: renamed_all_Cons take_Suc_conv_app_nth)
qed

text \<open>Afterwards every new name leads to its job and is not ignored.\<close>

definition indexed :: "nat \<Rightarrow> int list list \<Rightarrow> 'a globals_scheme \<Rightarrow> bool" where
  "indexed i wss st \<longleftrightarrow> (\<forall>k < length wss. \<forall>t \<in> set (wss ! k).
     the (rank_2_job st) ! nat t = Some (int (i + k)) \<and> rank_ignore_list st ! nat t = 0)"

lemma renamed_all_tables:
  assumes "tables n st" and "distinct (concat (map workers js))"
    and "\<forall>t \<in> set (concat (map workers js)). 0 \<le> t \<and> nat t < n"
  shows "indexed i (map workers js) (renamed_all i js st) \<and>
     (\<forall>x < n. x \<notin> nat ` set (concat (map workers js)) \<longrightarrow>
        the (rank_2_job (renamed_all i js st)) ! x = the (rank_2_job st) ! x \<and>
        rank_ignore_list (renamed_all i js st) ! x = rank_ignore_list st ! x)"
  using assms
proof (induction js arbitrary: i st)
  case Nil
  then show ?case by (simp add: indexed_def renamed_all_def)
next
  case (Cons jb js)
  let ?st = "renamed i jb (workers jb) st" and ?W = "set (concat (map workers js))"
  have n: "n \<le> length (the (rank_2_job st))" "n \<le> length (rank_ignore_list st)"
    using Cons.prems(1) by (auto simp: tables_def)
  have d: "distinct (concat (map workers js))" "set (workers jb) \<inter> ?W = {}"
    "\<forall>t \<in> ?W. 0 \<le> t \<and> nat t < n" "\<forall>t \<in> set (workers jb). 0 \<le> t \<and> nat t < n"
    using Cons.prems(2,3) by auto
  note IH = Cons.IH [OF tables_renamed [OF Cons.prems(1), of i jb "workers jb"] d(1,3), of "Suc i"]
  have at: "the (rank_2_job ?st) ! x = (if x \<in> nat ` set (workers jb) then Some (int i) else the (rank_2_job st) ! x)"
    "rank_ignore_list ?st ! x = (if x \<in> nat ` set (workers jb) then 0 else rank_ignore_list st ! x)" if "x < n" for x
    using that n by (auto simp: renamed_def fold_table)
  have own: "nat t \<notin> nat ` ?W" if "t \<in> set (workers jb)" for t
    using that d by (metis disjoint_iff image_iff nat_0_le)
  have "the (rank_2_job (renamed_all (Suc i) js ?st)) ! nat t = Some (int i) \<and>
      rank_ignore_list (renamed_all (Suc i) js ?st) ! nat t = 0" if "t \<in> set (workers jb)" for t
    using that IH own [OF that] d(4) at [of "nat t"] by simp
  moreover have "\<forall>k < length js. \<forall>t \<in> set (workers (js ! k)).
      the (rank_2_job (renamed_all (Suc i) js ?st)) ! nat t = Some (int (Suc i + k)) \<and>
      rank_ignore_list (renamed_all (Suc i) js ?st) ! nat t = 0"
    using IH by (simp add: indexed_def)
  ultimately have "indexed i (map workers (jb # js)) (renamed_all (Suc i) js ?st)"
    by (auto simp: indexed_def nth_Cons' less_Suc_eq_0_disj)
  then show ?case using IH at by (auto simp: renamed_all_Cons image_Un)
qed

text \<open>The state before a failure is handled: a map in force, the process itself alive in it.\<close>

definition before_failure :: "int list \<Rightarrow> Job list \<Rightarrow> 'a globals_scheme \<Rightarrow> bool" where
  "before_failure tr js st \<longleftrightarrow> job_list st = map Some js \<and> jobs_count (node st) = int (length js) \<and>
     list_all (wf_job tr (length tr)) js \<and> tables (length tr) st \<and>
     distinct (concat (map (\<lambda>jb. survivors tr (workers jb)) js)) \<and>
     0 \<le> job_id (node st) \<and> nat (job_id (node st)) < length js \<and>
     0 \<le> rank (node st) \<and> nat (rank (node st)) < length tr"

lemma survivors_bound:
  "list_all (renamable tr n) ws \<Longrightarrow> t \<in> set (survivors tr ws) \<Longrightarrow> 0 \<le> t \<and> nat t < n"
  by (auto simp: survivors_def list_all_iff renamable_def)

lemma follows_workers: "list_all2 (follows tr) js js' \<Longrightarrow> map workers js' = map (\<lambda>jb. survivors tr (workers jb)) js"
  by (induction rule: list_all2_induct) (simp_all add: follows_def)

lemma follows_first:
  "follows tr jb jb' \<Longrightarrow> survivors tr (workers jb) \<noteq> [] \<Longrightarrow> aget (rank_list jb') 0 = Inr (hd (survivors tr (workers jb)))"
proof -
  assume f: "follows tr jb jb'" and ne: "survivors tr (workers jb) \<noteq> []"
  let ?n = "nat (worker_count jb')"
  have t: "take ?n (rank_list jb') = survivors tr (workers jb)" using f by (simp add: follows_def workers_def)
  then have "rank_list jb' \<noteq> []" "?n \<noteq> 0" using ne by (metis take_Nil, metis take_0)
  then have "hd (take ?n (rank_list jb')) = rank_list jb' ! 0" by (simp add: hd_conv_nth)
  then show ?thesis using t \<open>rank_list jb' \<noteq> []\<close> by (simp add: aget_Inr)
qed

lemma update_job_list_ok:
  assumes "before_failure tr js st" and live: "list_all (\<lambda>jb. survivors tr (workers jb) \<noteq> []) js"
  shows "\<exists>st' js'. update_job_list (int (length tr)) tr st = Inr st' \<and> job_list st' = map Some js' \<and>
     list_all2 (follows tr) js js' \<and> indexed 0 (map workers js') st' \<and> globals.more st' = globals.more st \<and>
     process_shrinking_pending st' = process_shrinking_pending st \<and> (\<forall>n. tables n st \<longrightarrow> tables n st') \<and>
     node st' = (node st)\<lparr>rank := tr ! nat (rank (node st)), node_checkpoint_master :=
       (if hd (survivors tr (workers (js ! nat (job_id (node st))))) = tr ! nat (rank (node st)) then YES else NO)\<rparr>"
proof -
  define st1 where "st1 = st\<lparr>node := (node st)\<lparr>node_checkpoint_master := NO\<rparr>\<rparr>"
  let ?k = "nat (job_id (node st))"
  have b: "job_list st1 = map Some js" "jobs_count (node st) = int (length js)" "list_all (wf_job tr (length tr)) js"
    "tables (length tr) st1" "distinct (concat (map (\<lambda>jb. survivors tr (workers jb)) js))"
    "0 \<le> job_id (node st)" "?k < length js" "0 \<le> rank (node st)" "nat (rank (node st)) < length tr"
    using assms(1) by (auto simp: before_failure_def st1_def tables_def)
  obtain js' where u: "update_jobs (length js) 0 (int (length tr)) tr st1 = Inr (renamed_all 0 js' st1)"
      "list_all2 (follows tr) js js'"
    using update_jobs_ok [of 0 js st1 tr "length tr"] b live by auto
  let ?st2 = "renamed_all 0 js' st1"
  have len: "length js' = length js" using u(2) by (simp add: list_all2_lengthD)
  then have jl: "job_list ?st2 = map Some js'" using renamed_all_list [of 0 js' st1] b(1) by simp
  have w: "map workers js' = map (\<lambda>jb. survivors tr (workers jb)) js" using u(2) by (rule follows_workers)
  have bd: "\<forall>t \<in> set (concat (map workers js')). 0 \<le> t \<and> nat t < length tr"
    unfolding w using b(3) survivors_bound by (fastforce simp: list_all_iff wf_job_def)
  have ix: "indexed 0 (map workers js') ?st2"
    using renamed_all_tables [OF b(4) _ bd, of 0] b(5) w by simp
  have "aget (rank_list (js' ! ?k)) 0 = Inr (hd (survivors tr (workers (js ! ?k))))"
    using b(7) live list_all2_nthD [OF u(2) b(7)] by (intro follows_first) (auto simp: list_all_length)
  moreover have "aget (job_list ?st2) (job_id (node st)) = Inr (Some (js' ! ?k))"
    using b(6,7) len by (simp add: jl aget_nat)
  moreover have "aget tr (rank (node st)) = Inr (tr ! nat (rank (node st)))" using b(8,9) by (simp add: aget_nat)
  ultimately have "update_job_list (int (length tr)) tr st = Inr (?st2\<lparr>node := (node st)\<lparr>rank := tr ! nat (rank (node st)),
      node_checkpoint_master :=
        (if hd (survivors tr (workers (js ! ?k))) = tr ! nat (rank (node st)) then YES else NO)\<rparr>\<rparr>)"
    using u(1) b(2) unfolding st1_def by (simp add: update_job_list_def some_or_Some Let_def)
  moreover have "tables n (?st2\<lparr>node := x\<rparr>)" if "tables n st" for n x
    using renamed_all_keeps_tables [of n st1 0 js'] that by (simp add: tables_def st1_def)
  ultimately show ?thesis using jl u(2) ix by (auto simp: indexed_def renamed_all_more st1_def)
qed

text \<open>
  C6: surviving a failure. When every job has a survivor, \<open>update_job_list\<close> returns and every
  job's workers are its surviving workers under their new names, in their old order (the
  in-place compaction is a filter), \<open>worker_count\<close> counts them, \<open>rank_2_job\<close> leads every new
  name to its job, no survivor is on the ignore list, and the process takes its new rank and
  is checkpoint master exactly when it is now the first of its job.
\<close>

theorem update_job_list_renames:
  assumes "before_failure tr js st" and "list_all (\<lambda>jb. survivors tr (workers jb) \<noteq> []) js"
  shows "\<exists>st' js'. update_job_list (int (length tr)) tr st = Inr st' \<and> job_list st' = map Some js' \<and>
     list_all2 (follows tr) js js' \<and> indexed 0 (map workers js') st' \<and>
     node st' = (node st)\<lparr>rank := tr ! nat (rank (node st)), node_checkpoint_master :=
       (if hd (survivors tr (workers (js ! nat (job_id (node st))))) = tr ! nat (rank (node st)) then YES else NO)\<rparr>"
  using update_job_list_ok [OF assms] by blast

lemma update_jobs_dead:
  assumes "i + length js \<le> length (job_list st)" and "\<forall>k < length js. job_list st ! (i + k) = Some (js ! k)"
    and "list_all (wf_job tr n) js" and "tables n st" and "\<exists>jb \<in> set js. survivors tr (workers jb) = []"
  shows "update_jobs (length js) (int i) (int (length tr)) tr st = Inl (Abort_With 200)"
  using assms
proof (induction js arbitrary: i st)
  case Nil
  then show ?case by simp
next
  case (Cons jb js)
  have i: "i < length (job_list st)" "job_list st ! i = Some jb" using Cons.prems(1,2) by force+
  have wf: "wf_job tr n jb" "list_all (wf_job tr n) js" using Cons.prems(3) by auto
  show ?case
  proof (cases "survivors tr (workers jb) = []")
    case True
    then show ?thesis using compact_job(2) [OF i wf(1) Cons.prems(4)] i by (simp add: some_or_Some)
  next
    case False
    then obtain jb' where jb': "compact_workers (nat (worker_count jb)) 0 0 (int i) (int (length tr)) tr st =
        Inr (renamed i jb' (workers jb') st)"
      using compact_job(1) [OF i wf(1) Cons.prems(4)] by auto
    let ?st = "renamed i jb' (workers jb') st"
    have "\<forall>k < length js. job_list ?st ! (Suc i + k) = Some (js ! k)"
      using Cons.prems(2) by (auto simp: renamed_other)
    then have "update_jobs (length js) (int (Suc i)) (int (length tr)) tr ?st = Inl (Abort_With 200)"
      using Cons.IH [of "Suc i" ?st] Cons.prems(1,5) wf(2) tables_renamed [OF Cons.prems(4)] False by auto
    then show ?thesis using i jb' by (simp add: some_or_Some add.commute)
  qed
qed

text \<open>
  A job that has lost all its workers ends the run: \<open>update_job_list\<close> aborts the world
  with code 200.
\<close>

lemma update_job_list_aborts:
  assumes "before_failure tr js st" and "\<exists>jb \<in> set js. survivors tr (workers jb) = []"
  shows "update_job_list (int (length tr)) tr st = Inl (Abort_With 200)"
proof -
  let ?st = "st\<lparr>node := (node st)\<lparr>node_checkpoint_master := NO\<rparr>\<rparr>"
  have "update_jobs (length js) (int 0) (int (length tr)) tr ?st = Inl (Abort_With 200)"
    using assms by (intro update_jobs_dead [where n = "length tr"]) (auto simp: before_failure_def tables_def)
  then show ?thesis using assms(1) by (simp add: update_job_list_def before_failure_def)
qed

section \<open>The handler\<close>

definition world_translation :: "translation \<Rightarrow> failure \<Rightarrow> int list" where
  "world_translation translate f =
     translate (world_group f) (map int [0..<length (world_group f)]) (shrunk_group f)"

definition dead_ranks :: "translation \<Rightarrow> failure \<Rightarrow> int list" where
  "dead_ranks translate f = translate (acked f) (map int [0..<length (acked f)]) (world_group f)"

text \<open>The handler runs its shrinking branch.\<close>

definition shrinks :: "translation \<Rightarrow> failure \<Rightarrow> MPI_Comm \<Rightarrow> 'a ulfm_scheme \<Rightarrow> bool" where
  "shrinks translate f pcomm st \<longleftrightarrow> (proc_shrink_pending f \<or> error_class_proc_failed f) \<and>
     pcomm = rep_mpi_comm_world (node st) \<and> ignore_process_failure st = 0 \<and>
     length (world_translation translate f) = length (world_group f)"

lemma ulfm_cong:
  "before_failure tr js (st\<lparr>last_group_failed := g, previous_world_group := h\<rparr>) = before_failure tr js st"
  by (simp add: before_failure_def tables_def)

lemma same_groups:
  fixes st st' :: "'a ulfm_scheme"
  assumes "globals.more st' = globals.more st"
  shows "last_group_failed st' = last_group_failed st" "previous_world_group st' = previous_world_group st"
  using assms by (cases st; cases st'; simp)+

lemma errhandler_shrinks:
  assumes "shrinks translate f pcomm st" and "before_failure (world_translation translate f) js st"
    and "list_all (\<lambda>jb. survivors (world_translation translate f) (workers jb) \<noteq> []) js"
  defines "n \<equiv> (node st)\<lparr>rank := world_translation translate f ! nat (rank (node st)),
     node_checkpoint_master := (if hd (survivors (world_translation translate f) (workers (js ! nat (job_id (node st)))))
       = world_translation translate f ! nat (rank (node st)) then YES else NO)\<rparr>"
  shows "\<exists>st' js'. rep_errhandler translate split f pcomm st = Inr st' \<and> job_list st' = map Some js' \<and>
     list_all2 (follows (world_translation translate f)) js js' \<and> indexed 0 (map workers js') st' \<and>
     node st' = n\<lparr>rep_mpi_comm_world := shrunk_dup f, active_comm := split 0 (shrunk_dup f) (active_request n),
       world_job_comm := split 1 (shrunk_dup f) (job_request n)\<rparr> \<and>
     last_group_failed st' = acked f \<and> previous_world_group st' = world_group f \<and>
     process_shrinking_pending st' = process_shrinking_pending st \<and> (\<forall>n. tables n st \<longrightarrow> tables n st')"
proof -
  let ?st = "st\<lparr>last_group_failed := acked f, previous_world_group := world_group f\<rparr>"
  let ?tr = "world_translation translate f"
  have "before_failure ?tr js ?st" using assms(2) by (simp add: ulfm_cong)
  then obtain st2 js' where u: "update_job_list (int (length ?tr)) ?tr ?st = Inr st2" "job_list st2 = map Some js'"
      "list_all2 (follows ?tr) js js'" "indexed 0 (map workers js') st2" "globals.more st2 = globals.more ?st" "node st2 = n"
      "process_shrinking_pending st2 = process_shrinking_pending st" "\<forall>n. tables n st \<longrightarrow> tables n st2"
    using update_job_list_ok [of ?tr js ?st] assms(3) unfolding n_def by (auto simp: tables_def)
  have "last_group_failed st2 = acked f" "previous_world_group st2 = world_group f"
    using same_groups [OF u(5)] by simp_all
  moreover have "update_job_list (int (length (world_group f))) ?tr ?st = Inr st2"
    using u(1) assms(1) by (simp add: shrinks_def)
  then have "rep_errhandler translate split f pcomm st = Inr (st2\<lparr>node := n\<lparr>rep_mpi_comm_world := shrunk_dup f,
      active_comm := split 0 (shrunk_dup f) (active_request n), world_job_comm := split 1 (shrunk_dup f) (job_request n)\<rparr>\<rparr>)"
    using assms(1) u(6) unfolding shrinks_def
    by (auto simp: rep_errhandler_def guardE_True Let_def update_comms_def active_request_def job_request_def
        world_translation_def [symmetric])
  ultimately show ?thesis using u(2,3,4,7,8) by (auto simp: indexed_def tables_def)
qed

text \<open>
  The error handler on the world communicator. When processes of the world died, every
  job has a survivor and failures are not being ignored, the handler returns with the job
  list renamed for the shrunken world, the process's new rank and mastership, the world
  communicator replaced by the duplicate of the shrunken one, and both derived communicators
  split from it with the new mastership; the dead group and the old world are recorded.
\<close>

lemma rep_errhandler_recovers:
  assumes "shrinks translate f pcomm st" and "before_failure (world_translation translate f) js st"
    and "list_all (\<lambda>jb. survivors (world_translation translate f) (workers jb) \<noteq> []) js"
  defines "n \<equiv> (node st)\<lparr>rank := world_translation translate f ! nat (rank (node st)),
     node_checkpoint_master := (if hd (survivors (world_translation translate f) (workers (js ! nat (job_id (node st)))))
       = world_translation translate f ! nat (rank (node st)) then YES else NO)\<rparr>"
  shows "\<exists>st' js'. rep_errhandler translate split f pcomm st = Inr st' \<and> job_list st' = map Some js' \<and>
     list_all2 (follows (world_translation translate f)) js js' \<and> indexed 0 (map workers js') st' \<and>
     node st' = n\<lparr>rep_mpi_comm_world := shrunk_dup f, active_comm := split 0 (shrunk_dup f) (active_request n),
       world_job_comm := split 1 (shrunk_dup f) (job_request n)\<rparr> \<and>
     last_group_failed st' = acked f \<and> previous_world_group st' = world_group f"
  unfolding n_def using errhandler_shrinks [OF assms(1-3), of split] by blast

text \<open>The translation of ranks between groups, as the MPI standard defines it.\<close>

primrec index_from :: "int \<Rightarrow> MPI_Group \<Rightarrow> nat \<Rightarrow> int" where
  "index_from i [] p = MPI_UNDEFINED"
| "index_from i (q # g) p = (if q = p then i else index_from (i + 1) g p)"

definition group_translate :: translation where
  "group_translate g1 rs g2 = map (\<lambda>r. index_from 0 g2 (g1 ! nat r)) rs"

text \<open>The world of the README's map, seen by process 1, when process 2 dies.\<close>

definition readme_jobs :: "Job list" where
  "readme_jobs = [\<lparr>job_job_id = 0, worker_count = 1, rank_list = [0]\<rparr>, \<lparr>job_job_id = 1, worker_count = 2, rank_list = [2, 1]\<rparr>]"

definition readme_world :: ulfm where
  "readme_world = globals.extend ((demo_globals 1)\<lparr>job_list := map Some readme_jobs,
       rank_2_job := Some [Some 0, Some 1, Some 1], rank_ignore_list := [0, 0, 0],
       node := (node (demo_globals 1))\<lparr>job_id := 1, jobs_count := 2\<rparr>\<rparr>)
     \<lparr>last_group_failed = [], previous_world_group = []\<rparr>"

definition readme_failure :: failure where
  "readme_failure = \<lparr>proc_shrink_pending = False, error_class_proc_failed = True, acked = [2],
     world_group = [0, 1, 2], shrunk_group = [0, 1], shrunk_dup = Comm_Handle 9\<rparr>"

lemma readme_translation:
  "world_translation group_translate readme_failure = [0, 1, MPI_UNDEFINED]"
  "dead_ranks group_translate readme_failure = [2]"
  by (simp_all add: world_translation_def dead_ranks_def group_translate_def readme_failure_def upt_rec)

lemma readme_sel:
  "job_list readme_world = map Some readme_jobs" "jobs_count (node readme_world) = 2" "rank (node readme_world) = 1"
  "job_id (node readme_world) = 1" "rank_2_job readme_world = Some [Some 0, Some 1, Some 1]"
  "rank_ignore_list readme_world = [0, 0, 0]" "rep_mpi_comm_world (node readme_world) = Comm_Handle 0"
  "ignore_process_failure readme_world = 0"
  by (simp_all add: readme_world_def globals.defs demo_globals_def process.defs demo_node_def)

lemma readme_recovers:
  "shrinks group_translate readme_failure (Comm_Handle 0) readme_world"
  "before_failure (world_translation group_translate readme_failure) readme_jobs readme_world"
  "list_all (\<lambda>jb. survivors (world_translation group_translate readme_failure) (workers jb) \<noteq> []) readme_jobs"
proof -
  show "shrinks group_translate readme_failure (Comm_Handle 0) readme_world"
    by (simp add: shrinks_def readme_sel readme_translation) (simp add: readme_failure_def)
  show "before_failure (world_translation group_translate readme_failure) readme_jobs readme_world"
    "list_all (\<lambda>jb. survivors (world_translation group_translate readme_failure) (workers jb) \<noteq> []) readme_jobs"
    by (simp_all add: before_failure_def readme_translation readme_sel readme_jobs_def wf_job_def workers_def tables_def
        renamable_def MPI_UNDEFINED_def)
qed

theorem update_job_list_renames_witness:
  "\<exists>st' js'. update_job_list 3 [0, 1, MPI_UNDEFINED] readme_world = Inr st' \<and> job_list st' = map Some js' \<and>
     list_all2 (follows [0, 1, MPI_UNDEFINED]) readme_jobs js' \<and> rank (node st') = 1 \<and>
     node_checkpoint_master (node st') = YES"
proof -
  obtain st' js' where "update_job_list 3 [0, 1, MPI_UNDEFINED] readme_world = Inr st'" "job_list st' = map Some js'"
      "list_all2 (follows [0, 1, MPI_UNDEFINED]) readme_jobs js'"
      and n: "node st' = (node readme_world)\<lparr>rank := 1, node_checkpoint_master :=
        (if hd (survivors [0, 1, MPI_UNDEFINED] (workers (readme_jobs ! 1))) = 1 then YES else NO)\<rparr>"
    using update_job_list_renames [OF readme_recovers(2,3)] by (auto simp: readme_translation readme_sel)
  moreover have "survivors [0, 1, MPI_UNDEFINED] (workers (readme_jobs ! 1)) = [1]"
    by (simp add: readme_jobs_def workers_def MPI_UNDEFINED_def)
  ultimately show ?thesis by (intro exI [of _ st'] exI [of _ js']) (simp add: n)
qed

lemma rep_errhandler_recovers_witness:
  "\<exists>st'. rep_errhandler group_translate (\<lambda>k _ _. Comm_Handle k) readme_failure (Comm_Handle 0) readme_world = Inr st' \<and>
     last_group_failed st' = [2] \<and> rep_mpi_comm_world (node st') = Comm_Handle 9"
  using rep_errhandler_recovers [OF readme_recovers, of "\<lambda>k _ _. Comm_Handle k"]
  by (auto simp: readme_failure_def)

section \<open>The root test\<close>

lemma any_root_eq:
  assumes "i + length js \<le> length (job_list st)" and "\<forall>k < length js. job_list st ! (i + k) = Some (js ! k)"
    and "\<forall>jb \<in> set js. rank_list jb \<noteq> []"
  shows "any_root (length js) (int i) dead st = Inr (if \<exists>jb \<in> set js. rank_list jb ! 0 \<in> set dead then 1 else 0)"
  using assms
proof (induction js arbitrary: i)
  case Nil
  then show ?case by simp
next
  case (Cons jb js)
  have i: "i < length (job_list st)" "job_list st ! i = Some jb" using Cons.prems(1,2) by force+
  have "any_root (length js) (int (Suc i)) dead st = Inr (if \<exists>jb \<in> set js. rank_list jb ! 0 \<in> set dead then 1 else 0)"
  proof (rule Cons.IH)
    show "\<forall>k < length js. job_list st ! (Suc i + k) = Some (js ! k)" using Cons.prems(2) by auto
  qed (use Cons.prems in auto)
  moreover have "aget (rank_list jb) 0 = Inr (rank_list jb ! 0)" using Cons.prems(3) by (simp add: aget_Inr)
  ultimately show ?case using i by (auto simp: some_or_Some add.commute)
qed

text \<open>
  What \<open>is_failed_node_world_job_comm_root\<close> really tests after the handler has run: whether
  the new name of some job's first survivor equals the old name of a dead process. The
  comment promises whether a dead process was the root of its job. In the world of the
  README's map the two differ: process 2, the root of job 1, dies and the answer is 0.
\<close>

lemma root_test_uses_new_names:
  assumes "shrinks translate f pcomm st" and "before_failure (world_translation translate f) js st"
    and "list_all (\<lambda>jb. survivors (world_translation translate f) (workers jb) \<noteq> []) js"
  shows "\<exists>st'. rep_errhandler translate split f pcomm st = Inr st' \<and>
     is_failed_node_world_job_comm_root translate st' =
       Inr (if \<exists>jb \<in> set js. hd (survivors (world_translation translate f) (workers jb)) \<in> set (dead_ranks translate f)
            then 1 else 0)"
proof -
  obtain st' js' where s: "rep_errhandler translate split f pcomm st = Inr st'" "job_list st' = map Some js'"
      "list_all2 (follows (world_translation translate f)) js js'" "jobs_count (node st') = jobs_count (node st)"
      "last_group_failed st' = acked f" "previous_world_group st' = world_group f"
    using errhandler_shrinks [OF assms, of split] by fastforce
  have len: "length js' = length js" "jobs_count (node st') = int (length js)"
    using s(3,4) assms(2) by (simp_all add: list_all2_lengthD before_failure_def)
  have first: "rank_list (js' ! k) \<noteq> [] \<and> rank_list (js' ! k) ! 0 = hd (survivors (world_translation translate f) (workers (js ! k)))"
    if "k < length js" for k
    using follows_first [of "world_translation translate f" "js ! k" "js' ! k"] list_all2_nthD [OF s(3) that] assms(3) that
    by (auto simp: list_all_length aget_Inr)
  then have "(\<exists>jb \<in> set js'. rank_list jb ! 0 \<in> D) \<longleftrightarrow>
      (\<exists>jb \<in> set js. hd (survivors (world_translation translate f) (workers jb)) \<in> D)" for D
    using len(1) by (metis in_set_conv_nth)
  moreover have "\<forall>jb \<in> set js'. rank_list jb \<noteq> []" using first len(1) by (metis in_set_conv_nth)
  ultimately have "is_failed_node_world_job_comm_root translate st' =
      Inr (if \<exists>jb \<in> set js. hd (survivors (world_translation translate f) (workers jb)) \<in> set (dead_ranks translate f)
           then 1 else 0)"
    using any_root_eq [of 0 js' st' "dead_ranks translate f"] s(2,5,6) len
    by (simp add: is_failed_node_world_job_comm_root_def dead_ranks_def)
  then show ?thesis using s(1) by blast
qed

lemma root_test_uses_new_names_witness:
  "\<exists>st'. rep_errhandler group_translate (\<lambda>k _ _. Comm_Handle k) readme_failure (Comm_Handle 0) readme_world = Inr st' \<and>
     is_failed_node_world_job_comm_root group_translate st' = Inr 0 \<and>
     hd (workers (readme_jobs ! 1)) \<in> set (dead_ranks group_translate readme_failure)"
  using root_test_uses_new_names [OF readme_recovers, of "\<lambda>k _ _. Comm_Handle k"]
  by (simp add: readme_translation readme_jobs_def workers_def MPI_UNDEFINED_def)

section \<open>Failures noted for later\<close>

text \<open>A dead rank that the tables know.\<close>

definition known_rank :: "'a globals_scheme \<Rightarrow> int \<Rightarrow> bool" where
  "known_rank st r \<longleftrightarrow> 0 \<le> r \<and> nat r < length (rank_ignore_list st) \<and>
     (\<exists>tbl jid jb. rank_2_job st = Some tbl \<and> nat r < length tbl \<and> tbl ! nat r = Some jid \<and>
        0 \<le> jid \<and> nat jid < length (job_list st) \<and> job_list st ! nat jid = Some jb)"

lemma ignore_failed_eq:
  assumes "\<forall>r \<in> set rs. r = MPI_UNDEFINED \<or> known_rank st r"
  shows "ignore_failed rs st = Inr (st\<lparr>rank_ignore_list :=
     fold (\<lambda>r l. l[nat r := 1]) (filter (\<lambda>r. r \<noteq> MPI_UNDEFINED) rs) (rank_ignore_list st)\<rparr>)"
  using assms
proof (induction rs arbitrary: st)
  case Nil
  then show ?case by simp
next
  case (Cons r rs)
  show ?case
  proof (cases "r = MPI_UNDEFINED")
    case True
    then show ?thesis using Cons by simp
  next
    case False
    let ?st = "st\<lparr>rank_ignore_list := (rank_ignore_list st)[nat r := 1]\<rparr>"
    obtain tbl jid jb where k: "0 \<le> r" "nat r < length (rank_ignore_list st)" "rank_2_job st = Some tbl"
        "nat r < length tbl" "tbl ! nat r = Some jid" "0 \<le> jid" "nat jid < length (job_list st)"
        "job_list st ! nat jid = Some jb"
      using Cons.prems False by (auto simp: known_rank_def)
    have "\<forall>r \<in> set rs. r = MPI_UNDEFINED \<or> known_rank ?st r"
      using Cons.prems by (auto simp: known_rank_def)
    then show ?thesis using False k Cons.IH [of ?st] by (simp add: aset_nat aget_nat some_or_Some)
  qed
qed

text \<open>
  Inside a point-to-point call, where failures are ignored, the handler changes no rank
  and no communicator: it puts exactly the dead ranks on the ignore list and marks a
  shrinking of the world as pending.
\<close>

lemma rep_errhandler_defers:
  assumes "proc_shrink_pending f \<or> error_class_proc_failed f" and "ignore_process_failure st \<noteq> 0"
    and "\<forall>r \<in> set (dead_ranks translate f). r = MPI_UNDEFINED \<or> known_rank st r"
  defines "dead \<equiv> filter (\<lambda>r. r \<noteq> MPI_UNDEFINED) (dead_ranks translate f)"
  shows "\<exists>ign. rep_errhandler translate split f (rep_mpi_comm_world (node st)) st =
       Inr (st\<lparr>last_group_failed := acked f, process_shrinking_pending := 1, rank_ignore_list := ign\<rparr>) \<and>
     length ign = length (rank_ignore_list st) \<and>
     (\<forall>x < length ign. ign ! x = (if x \<in> nat ` set dead then 1 else rank_ignore_list st ! x))"
proof -
  let ?st = "st\<lparr>last_group_failed := acked f, process_shrinking_pending := 1\<rparr>"
  have "\<forall>r \<in> set (dead_ranks translate f). r = MPI_UNDEFINED \<or> known_rank ?st r"
    using assms(3) by (simp add: known_rank_def)
  then have "rep_errhandler translate split f (rep_mpi_comm_world (node st)) st =
      Inr (?st\<lparr>rank_ignore_list := fold (\<lambda>r l. l[nat r := 1]) dead (rank_ignore_list st)\<rparr>)"
    using assms(1,2) ignore_failed_eq [of "dead_ranks translate f" ?st]
    by (simp add: rep_errhandler_def guardE_True Let_def dead_ranks_def dead_def)
  then show ?thesis by (auto simp: fold_table intro!: exI [of _ "fold (\<lambda>r l. l[nat r := 1]) dead (rank_ignore_list st)"])
qed

lemma rep_errhandler_defers_witness:
  "\<exists>ign. rep_errhandler group_translate (\<lambda>k _ _. Comm_Handle k) readme_failure (Comm_Handle 0)
       (readme_world\<lparr>ignore_process_failure := 1\<rparr>) =
       Inr (readme_world\<lparr>ignore_process_failure := 1, last_group_failed := [2], process_shrinking_pending := 1, rank_ignore_list := ign\<rparr>) \<and>
     ign ! 2 = 1 \<and> ign ! 1 = 0"
proof -
  let ?st = "readme_world\<lparr>ignore_process_failure := 1\<rparr>"
  have "\<forall>r \<in> set (dead_ranks group_translate readme_failure). r = MPI_UNDEFINED \<or> known_rank ?st r"
    by (simp add: readme_translation known_rank_def readme_sel readme_jobs_def)
  then obtain ign where "rep_errhandler group_translate (\<lambda>k _ _. Comm_Handle k) readme_failure (Comm_Handle 0) ?st =
       Inr (?st\<lparr>last_group_failed := [2], process_shrinking_pending := 1, rank_ignore_list := ign\<rparr>)" "length ign = 3"
      "\<forall>x < length ign. ign ! x = (if x \<in> nat ` set (filter (\<lambda>r. r \<noteq> MPI_UNDEFINED)
        (dead_ranks group_translate readme_failure)) then 1 else rank_ignore_list ?st ! x)"
    using rep_errhandler_defers [of readme_failure ?st group_translate "\<lambda>k _ _. Comm_Handle k"]
    by (auto simp: readme_sel) (auto simp: readme_failure_def)
  then show ?thesis
    by (intro exI [of _ ign]) (simp add: readme_translation readme_sel MPI_UNDEFINED_def)
qed

section \<open>The number of jobs\<close>

text \<open>No failure changes the number of jobs, and with it the size of what a gather collects.\<close>

lemma compact_node: "compact_workers n j p i sz tr st = Inr st' \<Longrightarrow> node st' = node st"
  by (induction n arbitrary: j p st) (auto simp: bindE_eq_Inr_iff Let_def split: if_splits)

lemma update_jobs_node: "update_jobs n i sz tr st = Inr st' \<Longrightarrow> node st' = node st"
  by (induction n arbitrary: i st) (auto simp: bindE_eq_Inr_iff dest!: compact_node)

lemma update_job_list_jobs: "update_job_list sz tr st = Inr st' \<Longrightarrow> jobs_count (node st') = jobs_count (node st)"
  by (auto simp: update_job_list_def Let_def bindE_eq_Inr_iff dest!: update_jobs_node)

lemma ignore_failed_node: "ignore_failed rs st = Inr st' \<Longrightarrow> node st' = node st"
  by (induction rs arbitrary: st) (auto simp: bindE_eq_Inr_iff Let_def split: if_splits)

lemma rep_errhandler_jobs:
  assumes "rep_errhandler tln sp f c st = Inr st'"
  shows "jobs_count (node st') = jobs_count (node st)"
proof (cases "c = rep_mpi_comm_world (node st) \<and> ignore_process_failure st = 0")
  case True
  let ?tr = "tln (world_group f) (map int [0..<length (world_group f)]) (shrunk_group f)"
  have "\<exists>st2. update_job_list (int (length (world_group f))) ?tr
        (st\<lparr>last_group_failed := acked f, previous_world_group := world_group f\<rparr>) = Inr st2 \<and>
      jobs_count (node st') = jobs_count (node st2)"
    using assms unfolding rep_errhandler_def Let_def if_P [OF True]
    by (elim bindE_E) (auto simp: update_comms_def Let_def)
  then show ?thesis by (auto dest: update_job_list_jobs)
next
  case False
  then show ?thesis
    using assms unfolding rep_errhandler_def Let_def if_not_P [OF False]
    by (elim bindE_E) (auto split: if_splits dest!: ignore_failed_node)
qed

section \<open>The error handler asks for no answers\<close>

text \<open>A run of the handler never lacks input, so the loops around it need a bounded number of answers.\<close>

lemma bindE_Inl_iff: "bindE m f = Inl e \<longleftrightarrow> m = Inl e \<or> (\<exists>x. m = Inr x \<and> f x = Inl e)"
  by (cases m) auto

lemma access_answers:
  "aget xs i \<noteq> Inl Short_Input" "aset ys i v \<noteq> Inl Short_Input"
  "e \<noteq> Short_Input \<Longrightarrow> some_or e x \<noteq> Inl Short_Input" "e \<noteq> Short_Input \<Longrightarrow> guardE b e \<noteq> Inl Short_Input"
  by (auto simp: aget_def aset_def some_or_def guardE_def split: option.splits)

lemma compact_answers: "compact_workers n j p i sz tr st \<noteq> Inl Short_Input"
  by (induction n arbitrary: j p st) (auto simp: bindE_Inl_iff access_answers Let_def)

lemma update_jobs_answers: "update_jobs n i sz tr st \<noteq> Inl Short_Input"
  by (induction n arbitrary: i st) (auto simp: bindE_Inl_iff access_answers compact_answers)

lemma ignore_failed_answers: "ignore_failed rs st \<noteq> Inl Short_Input"
  by (induction rs arbitrary: st) (auto simp: bindE_Inl_iff access_answers Let_def)

lemma any_root_answers: "any_root n i dead st \<noteq> Inl Short_Input"
  by (induction n arbitrary: i) (auto simp: bindE_Inl_iff access_answers)

lemma handler_answers: "rep_errhandler tln sp f c st \<noteq> Inl Short_Input"
proof -
  have "update_job_list sz tr st' \<noteq> Inl Short_Input" for sz tr and st' :: "'a ulfm_scheme"
    by (auto simp: update_job_list_def bindE_Inl_iff access_answers update_jobs_answers Let_def)
  then show ?thesis
    by (auto simp: rep_errhandler_def bindE_Inl_iff access_answers ignore_failed_answers Let_def)
qed

lemma root_test_answers: "is_failed_node_world_job_comm_root tln st \<noteq> Inl Short_Input"
  by (simp add: is_failed_node_world_job_comm_root_def any_root_answers)

end
