(* ===== verification/Collectives.thy ===== *)
theory Collectives
  imports Ulfm "HOL-Library.Sublist"
begin

text \<open>
  The collective operations of \<open>src/mpi/init.c\<close>, seen by one process. Every call into the
  MPI library consumes the next answer of a trace: the status it returns, the failure its
  error handler would see, the conjunction of the flags the other processes pass to an
  agreement, and the bytes it puts into the caller's buffer (none on the root of a
  broadcast). A run that needs more answers than the trace has does not return within it
  (\<open>Short_Input\<close>). \<open>poll\<close> is \<open>is_file_update_set\<close>, which every collective calls first.
  Every loop is bounded by the trace or by the number of trials.
\<close>

unbundle bit_operations_syntax

section \<open>Answers of the library\<close>

definition MPI_SUCCESS :: int where "MPI_SUCCESS = 0"
definition NO_TRIALS :: nat where "NO_TRIALS = 10"

record answer =
  astatus :: int
  afailure :: failure
  aflag :: int
  adata :: "byte list option"

text \<open>A buffer of which the call may overwrite the first \<open>n\<close> bytes.\<close>

definition put :: "nat \<Rightarrow> answer \<Rightarrow> byte list \<Rightarrow> byte list" where
  "put n a buf = (case adata a of None \<Rightarrow> buf | Some d \<Rightarrow> take n d @ drop n buf)"

text \<open>
  A call on a communicator. Its errors go to \<open>rep_errhandler\<close>, which \<open>MPI_Init\<close> sets on the
  world communicator and the others inherit from it.
\<close>

definition call_on :: "translation \<Rightarrow> splitter \<Rightarrow> (Node \<Rightarrow> MPI_Comm) \<Rightarrow> answer \<Rightarrow> 'a ulfm_scheme \<Rightarrow> 'a ulfm_scheme result" where
  "call_on tln sp comm a st =
     (if astatus a = MPI_SUCCESS then Inr st
      else rep_errhandler tln sp (afailure a) (comm (node st)) st)"

text \<open>
  \<open>PMPIX_Comm_agree\<close> combines the flags of all processes by a bitwise and. A pending shrink
  is carried out first; the call then reports an error without having agreed.
\<close>

definition MPI_Comm_agree :: "translation \<Rightarrow> splitter \<Rightarrow> int \<Rightarrow> answer \<Rightarrow> 'a ulfm_scheme \<Rightarrow>
    (int \<times> int \<times> 'a ulfm_scheme) result" where
  "MPI_Comm_agree tln sp flag a st =
     (if process_shrinking_pending st \<noteq> 0
      then bindE (rep_errhandler tln sp ((afailure a)\<lparr>proc_shrink_pending := True\<rparr>) (rep_mpi_comm_world (node st)) st)
             (\<lambda>st1. Inr (MPI_SUCCESS + 12, flag, st1\<lparr>process_shrinking_pending := 0\<rparr>))
      else bindE (call_on tln sp rep_mpi_comm_world a st) (\<lambda>st1. Inr (astatus a, flag AND aflag a, st1)))"

primrec agree_loop :: "translation \<Rightarrow> splitter \<Rightarrow> int \<Rightarrow> answer list \<Rightarrow> 'a ulfm_scheme \<Rightarrow>
    (int \<times> answer list \<times> 'a ulfm_scheme) result" where
  "agree_loop tln sp flag [] st = Inl Short_Input"
| "agree_loop tln sp flag (a # tr) st =
     bindE (MPI_Comm_agree tln sp flag a st) (\<lambda>(s, flag1, st1).
       if s \<noteq> MPI_SUCCESS then agree_loop tln sp flag1 tr st1 else Inr (flag1, tr, st1))"

lemma agree_loop_shorter: "agree_loop tln sp flag tr st = Inr (flag1, tr1, st1) \<Longrightarrow> length tr1 < length tr"
proof (induction tr arbitrary: flag st)
  case Nil
  then show ?case by simp
next
  case (Cons a tr)
  then show ?case by (auto simp: bindE_eq_Inr_iff split: if_splits prod.splits) fastforce
qed

section \<open>Scatter, Gather, Allgather, Allreduce\<close>

text \<open>
  The second half of the four operations: broadcast the result inside the job until all
  agree, unless the process that held the result has died (flag 0: repeat the operation).
\<close>

function bcast_loop :: "translation \<Rightarrow> splitter \<Rightarrow> (Node \<Rightarrow> nat) \<Rightarrow> byte list \<Rightarrow> answer list \<Rightarrow> 'a ulfm_scheme \<Rightarrow>
    (int \<times> int \<times> byte list \<times> answer list \<times> 'a ulfm_scheme) result" where
  "bcast_loop tln sp bytes rbuf [] st = Inl Short_Input"
| "bcast_loop tln sp bytes rbuf (a # tr) st =
     (let mpi_status = astatus a; rbuf1 = put (bytes (node st)) a rbuf
      in bindE (call_on tln sp world_job_comm a st) (\<lambda>st0.
         bindE (agree_loop tln sp (if mpi_status = MPI_SUCCESS then 1 else 0) tr st0) (\<lambda>(flag, tr1, st1).
         if flag = 0
         then bindE (is_failed_node_world_job_comm_root tln st1) (\<lambda>r.
                if r \<noteq> 0 then Inr (0, mpi_status, rbuf1, tr1, st1)
                else bcast_loop tln sp bytes rbuf1 tr1 st1)
         else Inr (flag, mpi_status, rbuf1, tr1, st1))))"
  by pat_completeness auto
termination
  by (relation "measure (\<lambda>(tln, sp, bytes, rbuf, tr, st). length tr)") (auto dest: agree_loop_shorter)

text \<open>
  The outer loop. \<open>reset\<close> tells whether a trial starts with \<open>mpi_status = MPI_SUCCESS\<close> (only
  Scatter does); a process outside \<open>active_comm\<close> makes no main call and keeps the status.
\<close>

function collective_loop :: "translation \<Rightarrow> splitter \<Rightarrow> bool \<Rightarrow> (Node \<Rightarrow> nat) \<Rightarrow> (Node \<Rightarrow> nat) \<Rightarrow> nat \<Rightarrow> int \<Rightarrow>
    byte list \<Rightarrow> answer list \<Rightarrow> 'a ulfm_scheme \<Rightarrow> (byte list \<times> answer list \<times> 'a ulfm_scheme) result" where
  "collective_loop tln sp reset main bytes total_trails mpi_status0 rbuf tr st =
     (if NO_TRIALS \<le> total_trails + 1 then Inl (Abort_With 10)
      else bindE (if active_comm (node st) \<noteq> MPI_COMM_NULL
                  then (case tr of [] \<Rightarrow> Inl Short_Input
                        | a # tr1 \<Rightarrow> bindE (call_on tln sp active_comm a st) (\<lambda>st0.
                            Inr (astatus a, put (main (node st)) a rbuf, tr1, st0)))
                  else Inr (if reset then MPI_SUCCESS else mpi_status0, rbuf, tr, st)) (\<lambda>(mpi_status, rbuf1, tr1, st0).
           bindE (agree_loop tln sp (if mpi_status = MPI_SUCCESS then 1 else 0) tr1 st0) (\<lambda>(flag, tr2, st1).
           if flag = 0
           then collective_loop tln sp reset main bytes (total_trails + 1) mpi_status rbuf1 tr2 st1
           else bindE (bcast_loop tln sp bytes rbuf1 tr2 st1) (\<lambda>(flag1, mpi_status1, rbuf2, tr3, st2).
                  if flag1 = 0
                  then collective_loop tln sp reset main bytes (total_trails + 1) mpi_status1 rbuf2 tr3 st2
                  else Inr (rbuf2, tr3, st2)))))"
  by pat_completeness auto
termination
  by (relation "measure (\<lambda>(tln, sp, reset, main, bytes, t, ms, rbuf, tr, st). NO_TRIALS - t)") auto

declare collective_loop.simps [simp del]

text \<open>\<open>on_world\<close>: the caller passed \<open>MPI_COMM_WORLD\<close>; otherwise \<open>comm_to_use\<close> is never set.\<close>

type_synonym 's poll = "'s \<Rightarrow> 's result"

definition collective :: "'a ulfm_scheme poll \<Rightarrow> translation \<Rightarrow> splitter \<Rightarrow> bool \<Rightarrow> (Node \<Rightarrow> nat) \<Rightarrow> (Node \<Rightarrow> nat) \<Rightarrow> bool \<Rightarrow>
    byte list \<Rightarrow> answer list \<Rightarrow> 'a ulfm_scheme \<Rightarrow> (int \<times> byte list \<times> answer list \<times> 'a ulfm_scheme) result" where
  "collective poll tln sp reset main bytes on_world rbuf tr st =
     bindE (poll st) (\<lambda>st1.
     bindE (guardE on_world Uninitialised) (\<lambda>_.
     bindE (collective_loop tln sp reset main bytes 0 MPI_SUCCESS rbuf tr st1) (\<lambda>(rb, tr1, st2).
       Inr (MPI_SUCCESS, rb, tr1, st2))))"

text \<open>Sizes in bytes: \<open>n\<close> is the receive count times the size of the type.\<close>

definition MPI_Scatter :: "'a ulfm_scheme poll \<Rightarrow> translation \<Rightarrow> splitter \<Rightarrow> nat \<Rightarrow> bool \<Rightarrow>
    byte list \<Rightarrow> answer list \<Rightarrow> 'a ulfm_scheme \<Rightarrow> (int \<times> byte list \<times> answer list \<times> 'a ulfm_scheme) result" where
  "MPI_Scatter poll tln sp n = collective poll tln sp True (\<lambda>_. n) (\<lambda>_. n)"

definition MPI_Gather :: "'a ulfm_scheme poll \<Rightarrow> translation \<Rightarrow> splitter \<Rightarrow> nat \<Rightarrow> bool \<Rightarrow>
    byte list \<Rightarrow> answer list \<Rightarrow> 'a ulfm_scheme \<Rightarrow> (int \<times> byte list \<times> answer list \<times> 'a ulfm_scheme) result" where
  "MPI_Gather poll tln sp n =
     collective poll tln sp False (\<lambda>nd. n * nat (jobs_count nd)) (\<lambda>nd. n * nat (jobs_count nd))"

definition MPI_Allgather :: "'a ulfm_scheme poll \<Rightarrow> translation \<Rightarrow> splitter \<Rightarrow> nat \<Rightarrow> bool \<Rightarrow>
    byte list \<Rightarrow> answer list \<Rightarrow> 'a ulfm_scheme \<Rightarrow> (int \<times> byte list \<times> answer list \<times> 'a ulfm_scheme) result" where
  "MPI_Allgather poll tln sp n =
     collective poll tln sp False (\<lambda>nd. n * nat (jobs_count nd)) (\<lambda>nd. n * nat (jobs_count nd))"

definition MPI_Allreduce :: "'a ulfm_scheme poll \<Rightarrow> translation \<Rightarrow> splitter \<Rightarrow> nat \<Rightarrow> bool \<Rightarrow>
    byte list \<Rightarrow> answer list \<Rightarrow> 'a ulfm_scheme \<Rightarrow> (int \<times> byte list \<times> answer list \<times> 'a ulfm_scheme) result" where
  "MPI_Allreduce poll tln sp n = collective poll tln sp False (\<lambda>_. n) (\<lambda>_. n)"

section \<open>Bcast\<close>

text \<open>
  The root of the library call is the first worker of job \<open>root\<close> in the job list at the time
  of the trial. The roots of all trials are returned for reference.
\<close>

function bcast_trials :: "translation \<Rightarrow> splitter \<Rightarrow> nat \<Rightarrow> int \<Rightarrow> nat \<Rightarrow> byte list \<Rightarrow> answer list \<Rightarrow> 'a ulfm_scheme \<Rightarrow>
    (int list \<times> byte list \<times> answer list \<times> 'a ulfm_scheme) result" where
  "bcast_trials tln sp n root total_trails buf tr st =
     (if NO_TRIALS \<le> total_trails + 1 then Inl (Abort_With 10)
      else bindE (aget (job_list st) root) (\<lambda>entry.
           bindE (some_or Uninitialised entry) (\<lambda>jb.
           bindE (aget (rank_list jb) 0) (\<lambda>root_rank.
           case tr of [] \<Rightarrow> Inl Short_Input
           | a # tr1 \<Rightarrow>
               bindE (call_on tln sp rep_mpi_comm_world a st) (\<lambda>st0.
               bindE (agree_loop tln sp (if astatus a = MPI_SUCCESS then 1 else 0) tr1 st0) (\<lambda>(flag, tr2, st1).
                 if flag = 0
                 then bindE (bcast_trials tln sp n root (total_trails + 1) (put n a buf) tr2 st1)
                        (\<lambda>(roots, b, tr3, st2). Inr (root_rank # roots, b, tr3, st2))
                 else Inr ([root_rank], put n a buf, tr2, st1)))))))"
  by pat_completeness auto
termination
  by (relation "measure (\<lambda>(tln, sp, n, root, t, buf, tr, st). NO_TRIALS - t)") auto

declare bcast_trials.simps [simp del]

definition MPI_Bcast :: "'a ulfm_scheme poll \<Rightarrow> translation \<Rightarrow> splitter \<Rightarrow> nat \<Rightarrow> int \<Rightarrow> bool \<Rightarrow> byte list \<Rightarrow> answer list \<Rightarrow>
    'a ulfm_scheme \<Rightarrow> (int \<times> int list \<times> byte list \<times> answer list \<times> 'a ulfm_scheme) result" where
  "MPI_Bcast poll tln sp n root on_world buf tr st =
     bindE (poll st) (\<lambda>st1.
     bindE (guardE on_world Uninitialised) (\<lambda>_.
     bindE (bcast_trials tln sp n root 0 buf tr st1) (\<lambda>(roots, b, tr1, st2).
       Inr (MPI_SUCCESS, roots, b, tr1, st2))))"

section \<open>Reduce\<close>

text \<open>\<open>DO_COMM_AGREE\<close>: after a failed agreement a process that became master gives up its success.\<close>

primrec do_comm_agree :: "translation \<Rightarrow> splitter \<Rightarrow> int \<Rightarrow> NodeCheckpointMaster \<Rightarrow> answer list \<Rightarrow> 'a ulfm_scheme \<Rightarrow>
    (int \<times> NodeCheckpointMaster \<times> answer list \<times> 'a ulfm_scheme) result" where
  "do_comm_agree tln sp flag bkup [] st = Inl Short_Input"
| "do_comm_agree tln sp flag bkup (a # tr) st =
     bindE (MPI_Comm_agree tln sp flag a st) (\<lambda>(s, flag1, st1).
       if s \<noteq> MPI_SUCCESS
       then (if bkup \<noteq> node_checkpoint_master (node st1)
             then do_comm_agree tln sp (static_rank (node st1)) (node_checkpoint_master (node st1)) tr st1
             else do_comm_agree tln sp flag1 bkup tr st1)
       else Inr (flag1, bkup, tr, st1))"

lemma do_comm_agree_shorter:
  "do_comm_agree tln sp flag bkup tr st = Inr (flag1, bkup1, tr1, st1) \<Longrightarrow> length tr1 < length tr"
proof (induction tr arbitrary: flag bkup st)
  case Nil
  then show ?case by simp
next
  case (Cons a tr)
  then show ?case by (auto simp: bindE_eq_Inr_iff split: if_splits prod.splits) fastforce+
qed

function reduce_bcast_loop :: "translation \<Rightarrow> splitter \<Rightarrow> nat \<Rightarrow> int \<Rightarrow> int \<Rightarrow> NodeCheckpointMaster \<Rightarrow> byte list \<Rightarrow> answer list \<Rightarrow>
    'a ulfm_scheme \<Rightarrow> (int \<times> int \<times> NodeCheckpointMaster \<times> byte list \<times> answer list \<times> 'a ulfm_scheme) result" where
  "reduce_bcast_loop tln sp n root flag bkup rbuf tr st =
     bindE (if job_id (node st) = root
            then (case tr of [] \<Rightarrow> Inl Short_Input
                  | a # tr1 \<Rightarrow> bindE (call_on tln sp world_job_comm a st) (\<lambda>st0. Inr (astatus a, put n a rbuf, tr1, st0)))
            else Inr (MPI_SUCCESS, rbuf, tr, st)) (\<lambda>(mpi_status, rbuf1, tr1, st0).
     bindE (do_comm_agree tln sp (if mpi_status = MPI_SUCCESS then -1 else flag) bkup tr1 st0) (\<lambda>(flag1, bkup1, tr2, st1).
       if flag1 \<noteq> -1
       then bindE (is_failed_node_world_job_comm_root tln st1) (\<lambda>r.
              if r \<noteq> 0 then Inr (flag1, mpi_status, bkup1, rbuf1, tr2, st1)
              else reduce_bcast_loop tln sp n root flag1 bkup1 rbuf1 tr2 st1)
       else Inr (flag1, mpi_status, bkup1, rbuf1, tr2, st1)))"
  by pat_completeness auto
termination
  by (relation "measure (\<lambda>(tln, sp, n, root, flag, bkup, rbuf, tr, st). length tr)")
    (auto dest!: do_comm_agree_shorter simp: bindE_eq_Inr_iff split: if_splits list.splits)

declare reduce_bcast_loop.simps [simp del]

text \<open>\<open>flag\<close> is not initialised; \<open>flag0\<close> is what it holds at the start.\<close>

function reduce_loop :: "translation \<Rightarrow> splitter \<Rightarrow> nat \<Rightarrow> int \<Rightarrow> nat \<Rightarrow> int \<Rightarrow> int \<Rightarrow> NodeCheckpointMaster \<Rightarrow> byte list \<Rightarrow> answer list \<Rightarrow>
    'a ulfm_scheme \<Rightarrow> (byte list \<times> answer list \<times> 'a ulfm_scheme) result" where
  "reduce_loop tln sp n root total_trails flag mpi_status bkup rbuf tr st =
     (if NO_TRIALS \<le> total_trails + 1 then Inl (Abort_With 10)
      else bindE (if active_comm (node st) \<noteq> MPI_COMM_NULL
                  then (case tr of [] \<Rightarrow> Inl Short_Input
                        | a # tr1 \<Rightarrow> bindE (call_on tln sp active_comm a st) (\<lambda>st0. Inr (astatus a, put n a rbuf, tr1, st0)))
                  else Inr (mpi_status, rbuf, tr, st)) (\<lambda>(mpi_status1, rbuf1, tr1, st0).
           bindE (do_comm_agree tln sp (if mpi_status1 = MPI_SUCCESS then -1 else flag) bkup tr1 st0)
             (\<lambda>(flag1, bkup1, tr2, st1).
           if flag1 \<noteq> -1
           then reduce_loop tln sp n root (total_trails + 1) flag1 mpi_status1 bkup1 rbuf1 tr2 st1
           else bindE (reduce_bcast_loop tln sp n root flag1 bkup1 rbuf1 tr2 st1)
                  (\<lambda>(flag2, mpi_status2, bkup2, rbuf2, tr3, st2).
                  if flag2 \<noteq> -1
                  then reduce_loop tln sp n root (total_trails + 1) flag2 mpi_status2 bkup2 rbuf2 tr3 st2
                  else Inr (rbuf2, tr3, st2)))))"
  by pat_completeness auto
termination
  by (relation "measure (\<lambda>(tln, sp, n, root, t, flag, ms, bkup, rbuf, tr, st). NO_TRIALS - t)") auto

declare reduce_loop.simps [simp del]

definition MPI_Reduce :: "'a ulfm_scheme poll \<Rightarrow> translation \<Rightarrow> splitter \<Rightarrow> nat \<Rightarrow> int \<Rightarrow> bool \<Rightarrow> int \<Rightarrow> byte list \<Rightarrow> answer list \<Rightarrow>
    'a ulfm_scheme \<Rightarrow> (int \<times> byte list \<times> answer list \<times> 'a ulfm_scheme) result" where
  "MPI_Reduce poll tln sp n root on_world flag0 rbuf tr st =
     bindE (poll st) (\<lambda>st1.
     bindE (guardE on_world Uninitialised) (\<lambda>_.
     bindE (reduce_loop tln sp n root 0 flag0 MPI_SUCCESS (node_checkpoint_master (node st1)) rbuf tr st1) (\<lambda>(rb, tr1, st2).
       Inr (MPI_SUCCESS, rb, tr1, st2))))"

section \<open>Barrier, rank and size\<close>

definition MPI_Barrier :: "translation \<Rightarrow> splitter \<Rightarrow> answer \<Rightarrow> 'a ulfm_scheme \<Rightarrow> (int \<times> 'a ulfm_scheme) result" where
  "MPI_Barrier tln sp a st = bindE (call_on tln sp rep_mpi_comm_world a st) (\<lambda>st1. Inr (astatus a, st1))"

definition MPI_Comm_rank :: "'a ulfm_scheme \<Rightarrow> int" where
  "MPI_Comm_rank st = job_id (node st)"

definition MPI_Comm_size :: "'a ulfm_scheme \<Rightarrow> int" where
  "MPI_Comm_size st = jobs_count (node st)"

section \<open>Runs without failures\<close>

definition quiet :: "answer \<Rightarrow> bool" where
  "quiet a \<longleftrightarrow> astatus a = MPI_SUCCESS \<and> aflag a = 1"

lemma call_on_quiet: "astatus a = MPI_SUCCESS \<Longrightarrow> call_on tln sp comm a st = Inr st"
  by (simp add: call_on_def)

lemma agree_quiet:
  "process_shrinking_pending st = 0 \<Longrightarrow> astatus a = MPI_SUCCESS \<Longrightarrow>
   agree_loop tln sp flag (a # tr) st = Inr (flag AND aflag a, tr, st)"
  by (simp add: MPI_Comm_agree_def call_on_quiet)

text \<open>The four operations that share one body, with the bytes each passes around in a job.\<close>

definition operations :: "'a ulfm_scheme poll \<Rightarrow> translation \<Rightarrow> splitter \<Rightarrow> nat \<Rightarrow> Node \<Rightarrow>
    ((bool \<Rightarrow> byte list \<Rightarrow> answer list \<Rightarrow> 'a ulfm_scheme \<Rightarrow>
      (int \<times> byte list \<times> answer list \<times> 'a ulfm_scheme) result) \<times> nat) set" where
  "operations poll tln sp n nd =
     {(MPI_Scatter poll tln sp n, n), (MPI_Allreduce poll tln sp n, n),
      (MPI_Gather poll tln sp n, n * nat (jobs_count nd)), (MPI_Allgather poll tln sp n, n * nat (jobs_count nd))}"

lemma collective_quiet:
  assumes "poll st = Inr st1" and "process_shrinking_pending st1 = 0" and "list_all quiet [a, b, c, d]"
    and "(op, k) \<in> operations poll tln sp n (node st1)"
  defines "main \<equiv> if active_comm (node st1) = MPI_COMM_NULL then [] else [a]"
  shows "op True rbuf (main @ b # c # d # rest) st = Inr (MPI_SUCCESS, put k c (fold (put k) main rbuf), rest, st1)"
proof -
  have q: "astatus a = MPI_SUCCESS" "astatus b = MPI_SUCCESS" "astatus c = MPI_SUCCESS" "astatus d = MPI_SUCCESS"
    "aflag b = 1" "aflag d = 1" using assms(3) by (simp_all add: quiet_def)
  have bc: "bcast_loop tln sp bytes rb (c # d # rest) st1 = Inr (1, MPI_SUCCESS, put (bytes (node st1)) c rb, rest, st1)"
    for bytes rb using q assms(2) by (simp add: call_on_quiet agree_quiet del: agree_loop.simps)
  have "collective_loop tln sp reset mn bytes 0 MPI_SUCCESS rbuf (main @ b # c # d # rest) st1 =
      Inr (put (bytes (node st1)) c (fold (put (mn (node st1))) main rbuf), rest, st1)" for reset mn bytes
    unfolding collective_loop.simps [of _ _ _ _ _ 0] main_def
    using q assms(2) bc
    by (simp add: NO_TRIALS_def call_on_quiet agree_quiet del: agree_loop.simps bcast_loop.simps)
  then show ?thesis
    using assms(1,4) by (auto simp: operations_def collective_def guardE_True MPI_Scatter_def MPI_Gather_def
        MPI_Allgather_def MPI_Allreduce_def)
qed

text \<open>
  C24: the collectives without a failure. Scatter, Gather, Allgather and Allreduce on the
  world return success after one trial on every process: a member of \<open>active_comm\<close> makes
  the library call and all processes then take part in one broadcast inside their job, so
  the buffer holds the data of the call overwritten by the data of that broadcast, of the
  size the operation needs; the state is that after the poll.
\<close>

theorem collectives_fault_free:
  assumes "poll st = Inr st1" and "process_shrinking_pending st1 = 0" and "list_all quiet [a, b, c, d]"
    and "(op, k) \<in> operations poll tln sp n (node st1)"
  defines "main \<equiv> if active_comm (node st1) = MPI_COMM_NULL then [] else [a]"
  shows "op True rbuf (main @ b # c # d # rest) st = Inr (MPI_SUCCESS, put k c (fold (put k) main rbuf), rest, st1)"
  unfolding main_def using assms(1-4) by (rule collective_quiet)

definition quiet_answer :: "byte list option \<Rightarrow> answer" where
  "quiet_answer d = \<lparr>astatus = 0, afailure = readme_failure, aflag = 1, adata = d\<rparr>"

definition any_split :: splitter where "any_split = (\<lambda>k _ _. Comm_Handle k)"

lemma quiet_answer [simp]: "quiet (quiet_answer d)" "adata (quiet_answer d) = d" "astatus (quiet_answer d) = MPI_SUCCESS"
  "aflag (quiet_answer d) = 1"
  by (simp_all add: quiet_def quiet_answer_def MPI_SUCCESS_def)

lemma readme_quiet:
  "process_shrinking_pending readme_world = 0" "active_comm (node readme_world) = Comm_Handle 2"
  "world_job_comm (node readme_world) = Comm_Handle 1"
  by (simp_all add: readme_world_def globals.defs demo_globals_def process.defs demo_node_def)

theorem collectives_fault_free_witness:
  "MPI_Gather Inr group_translate any_split 1 True [0, 0]
     [quiet_answer (Some [5, 6]), quiet_answer None, quiet_answer None, quiet_answer None] readme_world =
     Inr (MPI_SUCCESS, [5, 6], [], readme_world)"
  using collectives_fault_free [of Inr readme_world readme_world "quiet_answer (Some [5, 6])" "quiet_answer None"
      "quiet_answer None" "quiet_answer None" "MPI_Gather Inr group_translate any_split 1" 2 group_translate any_split 1
      "[0, 0]" "[]"]
  by (simp add: readme_quiet operations_def readme_sel put_def)

section \<open>Returning only after agreement\<close>

lemma agree_agreed:
  "agree_loop tln sp flag tr st = Inr (flag1, tr1, st1) \<Longrightarrow>
   \<exists>pre a. tr = pre @ a # tr1 \<and> astatus a = MPI_SUCCESS \<and> (flag1 \<noteq> 0 \<longrightarrow> flag \<noteq> 0 \<and> aflag a \<noteq> 0)"
proof (induction tr arbitrary: flag st)
  case Nil
  then show ?case by simp
next
  case (Cons a tr)
  obtain s f2 st2 where ca: "MPI_Comm_agree tln sp flag a st = Inr (s, f2, st2)"
      and r: "(if s \<noteq> MPI_SUCCESS then agree_loop tln sp f2 tr st2 else Inr (f2, tr, st2)) = Inr (flag1, tr1, st1)"
    using Cons.prems by (auto simp: bindE_eq_Inr_iff)
  have f2: "f2 = flag \<or> f2 = flag AND aflag a" "s = MPI_SUCCESS \<Longrightarrow> f2 = flag AND aflag a \<and> astatus a = MPI_SUCCESS"
    using ca by (auto simp: MPI_Comm_agree_def bindE_eq_Inr_iff MPI_SUCCESS_def split: if_splits)
  show ?case
  proof (cases "s = MPI_SUCCESS")
    case True
    then show ?thesis using r f2(2) by (intro exI [of _ "[]"] exI [of _ a]) auto
  next
    case False
    then have "agree_loop tln sp f2 tr st2 = Inr (flag1, tr1, st1)" using r by simp
    from Cons.IH [OF this] obtain pre b where b: "tr = pre @ b # tr1" "astatus b = MPI_SUCCESS"
        "flag1 \<noteq> 0 \<longrightarrow> f2 \<noteq> 0 \<and> aflag b \<noteq> 0"
      by blast
    have "f2 \<noteq> 0 \<longrightarrow> flag \<noteq> 0" using f2(1) by auto
    then show ?thesis using b by (intro exI [of _ "a # pre"] exI [of _ b]) auto
  qed
qed

lemma call_on_jobs: "call_on tln sp comm a st = Inr st' \<Longrightarrow> jobs_count (node st') = jobs_count (node st)"
  by (auto simp: call_on_def split: if_splits dest: rep_errhandler_jobs)

lemma MPI_Comm_agree_jobs:
  "MPI_Comm_agree tln sp flag a st = Inr (s, flag1, st') \<Longrightarrow> jobs_count (node st') = jobs_count (node st)"
  by (auto simp: MPI_Comm_agree_def bindE_eq_Inr_iff split: if_splits dest!: rep_errhandler_jobs call_on_jobs)

lemma agree_loop_jobs:
  "agree_loop tln sp flag tr st = Inr (flag1, tr1, st') \<Longrightarrow> jobs_count (node st') = jobs_count (node st)"
  by (induction tr arbitrary: flag st)
    (auto simp: bindE_eq_Inr_iff split: if_splits dest!: MPI_Comm_agree_jobs)

text \<open>
  How the run of an operation that passes \<open>k\<close> bytes around must have ended: with a successful
  broadcast \<open>c\<close> of \<open>k\<close> bytes into the buffer as the earlier calls \<open>xs\<close> of the run left it, and
  with one agreement behind it, which the process entered with the flag of success, which
  consumed all other answers \<open>votes\<close> and ended in the returned state with a flag that is not 0.
\<close>

definition agreed_end :: "translation \<Rightarrow> splitter \<Rightarrow> nat \<Rightarrow> byte list \<Rightarrow> answer list \<Rightarrow> byte list \<Rightarrow> answer list \<Rightarrow>
    'a ulfm_scheme \<Rightarrow> bool" where
  "agreed_end tln sp k rbuf tr rb tr1 st1 \<longleftrightarrow> (\<exists>pre xs c votes a st0 flag. tr = pre @ c # votes @ a # tr1 \<and>
     astatus c = MPI_SUCCESS \<and> subseq xs pre \<and> rb = put k c (fold (put k) xs rbuf) \<and>
     agree_loop tln sp 1 (votes @ a # tr1) st0 = Inr (flag, tr1, st1) \<and> flag \<noteq> 0 \<and> astatus a = MPI_SUCCESS \<and> aflag a \<noteq> 0)"

lemma agreed_endI:
  assumes "astatus c = MPI_SUCCESS" and "agree_loop tln sp 1 tr st0 = Inr (flag, tr1, st1)" and "flag \<noteq> 0"
  shows "agreed_end tln sp k rbuf (c # tr) (put k c rbuf) tr1 st1"
proof -
  obtain votes a where "tr = votes @ a # tr1" "astatus a = MPI_SUCCESS" "aflag a \<noteq> 0"
    using agree_agreed [OF assms(2)] assms(3) by blast
  then show ?thesis
    using assms unfolding agreed_end_def
    by (intro exI [of _ "[]"] exI [of _ c] exI [of _ votes] exI [of _ a] exI [of _ st0] exI [of _ flag]) auto
qed

lemma agreed_end_append:
  assumes "agreed_end tln sp k (fold (put k) xs rbuf) tr rb tr1 st1" and "subseq xs ys"
  shows "agreed_end tln sp k rbuf (ys @ tr) rb tr1 st1"
proof -
  obtain pre zs c votes a st0 flag where e: "tr = pre @ c # votes @ a # tr1" "astatus c = MPI_SUCCESS" "subseq zs pre"
      "rb = put k c (fold (put k) zs (fold (put k) xs rbuf))" "agree_loop tln sp 1 (votes @ a # tr1) st0 = Inr (flag, tr1, st1)"
      "flag \<noteq> 0" "astatus a = MPI_SUCCESS" "aflag a \<noteq> 0"
    using assms(1) unfolding agreed_end_def by blast
  have "subseq (xs @ zs) (ys @ pre)" using assms(2) e(3) by (rule list_emb_append_mono)
  then show ?thesis
    using e unfolding agreed_end_def
    by (intro exI [of _ "ys @ pre"] exI [of _ "xs @ zs"] exI [of _ c] exI [of _ votes] exI [of _ a] exI [of _ st0] exI [of _ flag])
      simp
qed

text \<open>Sizes that depend on the number of jobs only.\<close>

definition sized :: "(Node \<Rightarrow> nat) \<Rightarrow> nat \<Rightarrow> 'a globals_scheme \<Rightarrow> bool" where
  "sized bytes k st \<longleftrightarrow> (\<forall>nd. jobs_count nd = jobs_count (node st) \<longrightarrow> bytes nd = k)"

lemma sized_at: "sized bytes k st \<Longrightarrow> bytes (node st) = k"
  by (simp add: sized_def)

lemma sized_cong: "jobs_count (node st') = jobs_count (node st) \<Longrightarrow> sized bytes k st' = sized bytes k st"
  by (simp add: sized_def)

lemma bcast_loop_agreed:
  "bcast_loop tln sp bytes rbuf tr st = Inr (flag, ms, rb, tr1, st1) \<Longrightarrow> sized bytes k st \<Longrightarrow>
   jobs_count (node st1) = jobs_count (node st) \<and> (\<exists>pre xs. tr = pre @ tr1 \<and> subseq xs pre \<and> rb = fold (put k) xs rbuf) \<and>
   (flag \<noteq> 0 \<longrightarrow> agreed_end tln sp k rbuf tr rb tr1 st1)"
proof (induction tln sp bytes rbuf tr st rule: bcast_loop.induct)
  case (1 tln sp bytes rbuf st)
  then show ?case by simp
next
  case (2 tln sp bytes rbuf a tr st)
  let ?b = "put (bytes (node st)) a rbuf"
  obtain st0 f tr2 st2 where c: "call_on tln sp world_job_comm a st = Inr st0"
      "agree_loop tln sp (if astatus a = MPI_SUCCESS then 1 else 0) tr st0 = Inr (f, tr2, st2)"
      and r: "(if f = 0 then bindE (is_failed_node_world_job_comm_root tln st2) (\<lambda>r.
                if r \<noteq> 0 then Inr (0, astatus a, ?b, tr2, st2) else bcast_loop tln sp bytes ?b tr2 st2)
              else Inr (f, astatus a, ?b, tr2, st2)) = Inr (flag, ms, rb, tr1, st1)"
    using 2(2) unfolding bcast_loop.simps Let_def by (elim bindE_E) (simp split: prod.splits)
  have k: "bytes (node st) = k" using 2(3) by (rule sized_at)
  have j: "jobs_count (node st2) = jobs_count (node st)" using call_on_jobs [OF c(1)] agree_loop_jobs [OF c(2)] by simp
  obtain pre b where b: "tr = pre @ b # tr2" "f \<noteq> 0 \<longrightarrow> astatus a = MPI_SUCCESS"
    using agree_agreed [OF c(2)] by (auto split: if_splits)
  have split: "a # tr = (a # pre @ [b]) @ tr2" "subseq [a] (a # pre @ [b])" using b(1) by simp_all
  show ?case
  proof (cases "f = 0")
    case False
    then have "agreed_end tln sp k rbuf (a # tr) (put k a rbuf) tr2 st2"
      using b(2) c(2) by (intro agreed_endI) auto
    moreover have "\<exists>pre xs. a # tr = pre @ tr2 \<and> subseq xs pre \<and> put k a rbuf = fold (put k) xs rbuf"
      using split by (intro exI [of _ "a # pre @ [b]"] exI [of _ "[a]"]) simp
    ultimately show ?thesis using False r j k by auto
  next
    case True
    then obtain q where q: "is_failed_node_world_job_comm_root tln st2 = Inr q"
      "(if q \<noteq> 0 then Inr (0, astatus a, ?b, tr2, st2) else bcast_loop tln sp bytes ?b tr2 st2) = Inr (flag, ms, rb, tr1, st1)"
      using r by (auto simp: bindE_eq_Inr_iff)
    show ?thesis
    proof (cases "q = 0")
      case True
      have "sized bytes k st2" using 2(3) sized_cong [OF j] by simp
      then have ih: "jobs_count (node st1) = jobs_count (node st2) \<and>
          (\<exists>pre xs. tr2 = pre @ tr1 \<and> subseq xs pre \<and> rb = fold (put k) xs ?b) \<and>
          (flag \<noteq> 0 \<longrightarrow> agreed_end tln sp k ?b tr2 rb tr1 st1)"
        using 2(1) [OF refl refl c _ _ \<open>f = 0\<close> q(1)] q(2) True by simp
      then obtain pre2 xs where p: "tr2 = pre2 @ tr1" "subseq xs pre2" "rb = fold (put k) xs ?b" by blast
      have "\<exists>pre xs. a # tr = pre @ tr1 \<and> subseq xs pre \<and> rb = fold (put k) xs rbuf"
        using split(1) p k list_emb_append_mono [OF split(2) p(2)]
        by (intro exI [of _ "(a # pre @ [b]) @ pre2"] exI [of _ "[a] @ xs"]) simp
      moreover have "agreed_end tln sp k rbuf (a # tr) rb tr1 st1" if "flag \<noteq> 0"
        unfolding split(1) using ih k that by (intro agreed_end_append [OF _ split(2)]) simp
      ultimately show ?thesis using ih j by simp
    next
      case False
      have "\<exists>pre xs. a # tr = pre @ tr2 \<and> subseq xs pre \<and> put k a rbuf = fold (put k) xs rbuf"
        using split by (intro exI [of _ "a # pre @ [b]"] exI [of _ "[a]"]) simp
      then show ?thesis using False q(2) j k by auto
    qed
  qed
qed

lemma collective_loop_agreed:
  "collective_loop tln sp reset main bytes t ms rbuf tr st = Inr (rb, tr1, st1) \<Longrightarrow> sized main k st \<Longrightarrow> sized bytes k st \<Longrightarrow>
   agreed_end tln sp k rbuf tr rb tr1 st1"
proof (induction tln sp reset main bytes t ms rbuf tr st rule: collective_loop.induct)
  case (1 tln sp reset main bytes t ms rbuf tr st)
  let ?first = "if active_comm (node st) \<noteq> MPI_COMM_NULL
      then (case tr of [] \<Rightarrow> Inl Short_Input
            | a # tr1 \<Rightarrow> bindE (call_on tln sp active_comm a st) (\<lambda>st0. Inr (astatus a, put (main (node st)) a rbuf, tr1, st0)))
      else Inr (if reset then MPI_SUCCESS else ms, rbuf, tr, st)"
  have t: "\<not> NO_TRIALS \<le> t + 1" using 1(3) by (auto simp: collective_loop.simps [of _ _ _ _ _ t] split: if_splits)
  let ?rest = "\<lambda>m1 rb1 f tr3 st2. if f = 0 then collective_loop tln sp reset main bytes (t + 1) m1 rb1 tr3 st2
        else bindE (bcast_loop tln sp bytes rb1 tr3 st2) (\<lambda>(flag1, m2, rb2, tr4, st3).
          if flag1 = 0 then collective_loop tln sp reset main bytes (t + 1) m2 rb2 tr4 st3
          else Inr (rb2, tr4, st3))"
  have "bindE ?first (\<lambda>(m1, rb1, tr2, st0). bindE (agree_loop tln sp (if m1 = MPI_SUCCESS then 1 else 0) tr2 st0)
      (\<lambda>(f, tr3, st2). ?rest m1 rb1 f tr3 st2)) = Inr (rb, tr1, st1)"
    using 1(3) unfolding collective_loop.simps [of _ _ _ _ _ t] if_not_P [OF t] .
  then obtain m1 rb1 tr2 st0 where c1: "?first = Inr (m1, rb1, tr2, st0)"
      "bindE (agree_loop tln sp (if m1 = MPI_SUCCESS then 1 else 0) tr2 st0) (\<lambda>(f, tr3, st2). ?rest m1 rb1 f tr3 st2) = Inr (rb, tr1, st1)"
    by (rule bindE_E) (auto split: prod.splits)
  from c1(2) obtain f tr3 st2 where c2: "agree_loop tln sp (if m1 = MPI_SUCCESS then 1 else 0) tr2 st0 = Inr (f, tr3, st2)"
      and r: "?rest m1 rb1 f tr3 st2 = Inr (rb, tr1, st1)"
    by (rule bindE_E) (auto split: prod.splits)
  note c = c1(1) c2
  have "\<exists>ys xs. tr = ys @ tr2 \<and> subseq xs ys \<and> rb1 = fold (put k) xs rbuf \<and> jobs_count (node st0) = jobs_count (node st)"
  proof (cases "active_comm (node st) = MPI_COMM_NULL")
    case True
    then show ?thesis using c(1) by (intro exI [of _ "[]"]) auto
  next
    case False
    then obtain a where "tr = a # tr2" "rb1 = put k a rbuf" "call_on tln sp active_comm a st = Inr st0"
      using c(1) sized_at [OF 1(4)] by (auto split: list.splits simp: bindE_eq_Inr_iff)
    then show ?thesis by (intro exI [of _ "[a]"]) (auto dest: call_on_jobs)
  qed
  then obtain ys xs where y: "tr = ys @ tr2" "subseq xs ys" "rb1 = fold (put k) xs rbuf" "jobs_count (node st0) = jobs_count (node st)"
    by blast
  obtain zs where z: "tr2 = zs @ tr3" using agree_agreed [OF c(2)] by auto
  have e: "tr = (ys @ zs) @ tr3" "subseq xs (ys @ zs)"
    using y(1) z list_emb_append_mono [OF y(2), of "[]" zs] by simp_all
  have "jobs_count (node st2) = jobs_count (node st)" using agree_loop_jobs [OF c(2)] y(4) by simp
  note size = sized_cong [OF this]
  show ?case
  proof (cases "f = 0")
    case True
    then have "agreed_end tln sp k (fold (put k) xs rbuf) tr3 rb tr1 st1"
      using 1(1) [OF t c(1) refl refl refl c(2) refl refl True] 1(4,5) r y(3) size by simp
    then show ?thesis unfolding e(1) using e(2) by (rule agreed_end_append)
  next
    case False
    then obtain g m2 rb2 tr4 st3 where b: "bcast_loop tln sp bytes rb1 tr3 st2 = Inr (g, m2, rb2, tr4, st3)"
      "(if g = 0 then collective_loop tln sp reset main bytes (t + 1) m2 rb2 tr4 st3 else Inr (rb2, tr4, st3)) = Inr (rb, tr1, st1)"
      using r by (auto elim!: bindE_E)
    have "sized bytes k st2" using 1(5) size by simp
    from bcast_loop_agreed [OF b(1) this] obtain pre us where u: "jobs_count (node st3) = jobs_count (node st2)"
        "tr3 = pre @ tr4" "subseq us pre" "rb2 = fold (put k) us rb1" "g \<noteq> 0 \<longrightarrow> agreed_end tln sp k rb1 tr3 rb2 tr4 st3"
      by blast
    show ?thesis
    proof (cases "g = 0")
      case True
      then have "agreed_end tln sp k (fold (put k) us rb1) tr4 rb tr1 st1"
        using 1(2) [OF t c(1) refl refl refl c(2) refl refl False b(1) refl refl refl refl True] b(2) 1(4,5) u(4)
        by (simp add: sized_cong [OF u(1)] size)
      then have "agreed_end tln sp k rb1 tr3 rb tr1 st1" unfolding u(2) using u(3) by (rule agreed_end_append)
      then show ?thesis unfolding e(1) y(3) using e(2) by (rule agreed_end_append)
    next
      case False
      then have "agreed_end tln sp k rb1 tr3 rb tr1 st1" using u(5) b(2) by simp
      then show ?thesis unfolding e(1) y(3) using e(2) by (rule agreed_end_append)
    qed
  qed
qed

text \<open>
  C23: a collective reports success only for a result that arrived. Whatever failures the
  trace holds, if Scatter, Gather, Allgather or Allreduce returns, it returns success and the
  last thing that happened is the broadcast inside the job and its agreement: the broadcast
  succeeded, the buffer is that of the earlier calls with the \<open>k\<close> bytes the broadcast brought
  on top (\<open>k\<close> being the size of the operation, for the number of jobs at the time of the
  call), and every later answer went into one agreement that the process entered with the
  flag 1, that no process voted against, and in whose state the operation returns.
\<close>

theorem collectives_return_agreed:
  assumes "poll st = Inr st0" and "(op, k) \<in> operations poll tln sp n (node st0)"
    and "op on_world rbuf tr st = Inr (s, rb, tr1, st1)"
  shows "s = MPI_SUCCESS \<and> agreed_end tln sp k rbuf tr rb tr1 st1"
proof -
  obtain reset main bytes where "op = collective poll tln sp reset main bytes" "sized main k st0" "sized bytes k st0"
    using assms(2) by (auto simp: operations_def MPI_Scatter_def MPI_Gather_def MPI_Allgather_def MPI_Allreduce_def sized_def)
  then show ?thesis
    using assms(1,3) collective_loop_agreed by (auto simp: collective_def elim!: bindE_E)
qed

theorem collectives_return_agreed_witness:
  "\<exists>s rb st1. MPI_Gather Inr group_translate any_split 1 True [0, 0]
     [quiet_answer (Some [5, 6]), quiet_answer None, quiet_answer None, quiet_answer None] readme_world = Inr (s, rb, [], st1) \<and>
     rb = [5, 6] \<and> agreed_end group_translate any_split 2 [0, 0]
       [quiet_answer (Some [5, 6]), quiet_answer None, quiet_answer None, quiet_answer None] rb [] st1"
proof -
  let ?tr = "[quiet_answer (Some [5, 6]), quiet_answer None, quiet_answer None, quiet_answer None]"
  have o: "(MPI_Gather Inr group_translate any_split 1, 2) \<in> operations Inr group_translate any_split 1 (node readme_world)"
    by (simp add: operations_def readme_sel)
  have "MPI_Gather Inr group_translate any_split 1 True [0, 0] ?tr readme_world = Inr (MPI_SUCCESS, [5, 6], [], readme_world)"
    using collective_quiet [OF _ _ _ o, of readme_world "quiet_answer (Some [5, 6])" "quiet_answer None"
      "quiet_answer None" "quiet_answer None" "[0, 0]" "[]"] by (simp add: readme_quiet put_def)
  moreover from this have "agreed_end group_translate any_split 2 [0, 0] ?tr [5, 6] [] readme_world"
    using collectives_return_agreed [OF _ o] by blast
  ultimately show ?thesis by blast
qed

section \<open>A death during the broadcast inside the job\<close>

text \<open>
  What a process sees of it, if MPI follows its standard and ULFM: the broadcast \<open>c\<close> on the
  job's communicator reports the failure; the next agreement \<open>e\<close> of the world reports it too,
  since it has not been acknowledged yet, and its error handler shrinks the world, in which
  every job has a survivor; the agreement after that, \<open>d\<close>, succeeds. A process that passes
  \<open>MPI_UNDEFINED\<close> to a split gets no communicator.
\<close>

definition dies_in_bcast :: "translation \<Rightarrow> splitter \<Rightarrow> Job list \<Rightarrow> answer \<Rightarrow> answer \<Rightarrow> answer \<Rightarrow> 'a ulfm_scheme \<Rightarrow> bool" where
  "dies_in_bcast tln sp js c e d st \<longleftrightarrow>
     astatus c \<noteq> MPI_SUCCESS \<and> error_class_proc_failed (afailure c) \<and> world_job_comm (node st) \<noteq> rep_mpi_comm_world (node st) \<and>
     astatus e \<noteq> MPI_SUCCESS \<and> process_shrinking_pending st = 0 \<and>
     shrinks tln (afailure e) (rep_mpi_comm_world (node st)) st \<and>
     before_failure (world_translation tln (afailure e)) js st \<and>
     list_all (\<lambda>jb. survivors (world_translation tln (afailure e)) (workers jb) \<noteq> []) js \<and>
     (\<forall>key. sp 0 (shrunk_dup (afailure e)) (None, key) = MPI_COMM_NULL) \<and> astatus d = MPI_SUCCESS"

text \<open>The process is not the first survivor of its job.\<close>

definition stays_replica :: "translation \<Rightarrow> Job list \<Rightarrow> answer \<Rightarrow> 'a globals_scheme \<Rightarrow> bool" where
  "stays_replica tln js e st \<longleftrightarrow> (let tr = world_translation tln (afailure e)
     in hd (survivors tr (workers (js ! nat (job_id (node st))))) \<noteq> tr ! nat (rank (node st)))"

lemma dies_in_bcast_handler:
  assumes "dies_in_bcast tln sp js c e d st" and "stays_replica tln js e st"
  obtains st' where "rep_errhandler tln sp (afailure e) (rep_mpi_comm_world (node st)) st = Inr st'"
    "call_on tln sp world_job_comm c st = Inr st"
    "agree_loop tln sp flag (e # d # tr) st = Inr (flag AND aflag e AND aflag d, tr, st')"
    "process_shrinking_pending st' = 0" "active_comm (node st') = MPI_COMM_NULL" "node_checkpoint_master (node st') = NO"
    "is_failed_node_world_job_comm_root tln st' = Inr (if \<exists>jb \<in> set js.
       hd (survivors (world_translation tln (afailure e)) (workers jb)) \<in> set (dead_ranks tln (afailure e)) then 1 else 0)"
proof -
  note a = assms(1) [unfolded dies_in_bcast_def]
  let ?f = "afailure e"
  have f: "shrinks tln ?f (rep_mpi_comm_world (node st)) st" "before_failure (world_translation tln ?f) js st"
    "list_all (\<lambda>jb. survivors (world_translation tln ?f) (workers jb) \<noteq> []) js"
    using a by simp_all
  obtain st' where h: "rep_errhandler tln sp (afailure e) (rep_mpi_comm_world (node st)) st = Inr st'"
      "process_shrinking_pending st' = 0" "active_comm (node st') = MPI_COMM_NULL" "node_checkpoint_master (node st') = NO"
    using a assms(2) errhandler_shrinks [OF f, of sp] by (auto simp: stays_replica_def Let_def active_request_def)
  moreover have "call_on tln sp world_job_comm c st = Inr st"
    using a by (simp add: call_on_def rep_errhandler_def guardE_True Let_def)
  moreover have "agree_loop tln sp flag (e # d # tr) st = Inr (flag AND aflag e AND aflag d, tr, st')"
    using a h by (simp add: MPI_Comm_agree_def call_on_def and.assoc)
  moreover have "is_failed_node_world_job_comm_root tln st' = Inr (if \<exists>jb \<in> set js.
       hd (survivors (world_translation tln (afailure e)) (workers jb)) \<in> set (dead_ranks tln (afailure e)) then 1 else 0)"
    using root_test_uses_new_names [OF f, of sp] h(1) by auto
  ultimately show ?thesis using that by blast
qed

text \<open>
  A world of four processes: job 1 has the workers 1, 2 and 3, seen by the last of them when
  process \<open>dead\<close> dies.
\<close>

definition trio_jobs :: "Job list" where
  "trio_jobs = [\<lparr>job_job_id = 0, worker_count = 1, rank_list = [0]\<rparr>, \<lparr>job_job_id = 1, worker_count = 3, rank_list = [1, 2, 3]\<rparr>]"

definition trio_world :: ulfm where
  "trio_world = readme_world\<lparr>job_list := map Some trio_jobs, rank_2_job := Some [Some 0, Some 1, Some 1, Some 1],
     rank_ignore_list := [0, 0, 0, 0], node := (node readme_world)\<lparr>rank := 3, active_comm := MPI_COMM_NULL\<rparr>\<rparr>"

definition trio_failed :: "nat \<Rightarrow> int \<Rightarrow> answer" where
  "trio_failed dead flag = \<lparr>astatus = 75, afailure = \<lparr>proc_shrink_pending = False, error_class_proc_failed = True, acked = [dead],
     world_group = [0, 1, 2, 3], shrunk_group = filter (\<lambda>p. p \<noteq> dead) [0, 1, 2, 3], shrunk_dup = Comm_Handle 9\<rparr>,
     aflag = flag, adata = None\<rparr>"

definition colour_split :: splitter where
  "colour_split = (\<lambda>k _ (colour, _). if colour = None then MPI_COMM_NULL else Comm_Handle k)"

lemma trio_sel:
  "job_list trio_world = map Some trio_jobs" "jobs_count (node trio_world) = 2" "rank (node trio_world) = 3"
  "job_id (node trio_world) = 1" "rank_2_job trio_world = Some [Some 0, Some 1, Some 1, Some 1]"
  "rank_ignore_list trio_world = [0, 0, 0, 0]" "rep_mpi_comm_world (node trio_world) = Comm_Handle 0"
  "ignore_process_failure trio_world = 0" "process_shrinking_pending trio_world = 0"
  "active_comm (node trio_world) = MPI_COMM_NULL" "world_job_comm (node trio_world) = Comm_Handle 1"
  "node_checkpoint_master (node trio_world) = NO"
  by (simp_all add: trio_world_def readme_sel readme_quiet)
    (simp add: readme_world_def globals.defs demo_globals_def process.defs demo_node_def)

lemma trio_translation:
  "world_translation group_translate (afailure (trio_failed 1 v)) = [0, MPI_UNDEFINED, 1, 2]"
  "dead_ranks group_translate (afailure (trio_failed 1 v)) = [1]"
  "world_translation group_translate (afailure (trio_failed 2 v)) = [0, 1, MPI_UNDEFINED, 2]"
  "dead_ranks group_translate (afailure (trio_failed 2 v)) = [2]"
  by (simp_all add: world_translation_def dead_ranks_def group_translate_def trio_failed_def upt_rec)

lemmas trio_translations = trio_translation trio_translation(1,2) [unfolded One_nat_def]

lemma trio_failed_sel [simp]:
  "astatus (trio_failed dead v) = 75" "aflag (trio_failed dead v) = v" "adata (trio_failed dead v) = None"
  "error_class_proc_failed (afailure (trio_failed dead v))" "world_group (afailure (trio_failed dead v)) = [0, 1, 2, 3]"
  by (simp_all add: trio_failed_def)

lemma trio_dies:
  assumes "dead = 1 \<or> dead = 2" and "astatus d = MPI_SUCCESS"
  shows "dies_in_bcast group_translate colour_split trio_jobs (trio_failed dead u) (trio_failed dead v) d trio_world"
proof -
  let ?f = "afailure (trio_failed dead v)"
  have "shrinks group_translate ?f (Comm_Handle 0) trio_world"
    using assms(1) by (auto simp: shrinks_def trio_sel trio_translations)
  moreover have "before_failure (world_translation group_translate ?f) trio_jobs trio_world"
    "list_all (\<lambda>jb. survivors (world_translation group_translate ?f) (workers jb) \<noteq> []) trio_jobs"
    using assms(1) by (auto simp: before_failure_def trio_translations trio_sel trio_jobs_def wf_job_def workers_def tables_def
        renamable_def MPI_UNDEFINED_def)
  ultimately show "dies_in_bcast group_translate colour_split trio_jobs (trio_failed dead u) (trio_failed dead v) d trio_world"
    using assms(2) by (simp add: dies_in_bcast_def trio_sel colour_split_def MPI_SUCCESS_def)
qed

lemma trio_stays: "dead = 1 \<or> dead = 2 \<Longrightarrow> stays_replica group_translate trio_jobs (trio_failed dead v) trio_world"
  by (auto simp: stays_replica_def trio_sel trio_translations trio_jobs_def workers_def MPI_UNDEFINED_def)

section \<open>A status that is never reset\<close>

lemma stale_status_loop:
  assumes "active_comm (node st) = MPI_COMM_NULL" and "process_shrinking_pending st = 0" and "mpi_status \<noteq> MPI_SUCCESS"
    and "list_all quiet tr" and "NO_TRIALS \<le> total_trails + 1 + length tr"
  shows "collective_loop tln sp False main bytes total_trails mpi_status rbuf tr st = Inl (Abort_With 10)"
  using assms(4,5)
proof (induction tr arbitrary: total_trails)
  case Nil
  then show ?case by (simp add: collective_loop.simps)
next
  case (Cons a tr)
  have "collective_loop tln sp False main bytes (total_trails + 1) mpi_status rbuf tr st = Inl (Abort_With 10)"
    using Cons by simp
  then show ?case
    using assms(1-3) Cons.prems(1)
    by (simp add: collective_loop.simps [of _ _ _ _ _ total_trails] agree_quiet quiet_def del: agree_loop.simps)
qed

text \<open>
  The trial in which a replica sees a death in the broadcast and the root test is positive:
  the next trial starts with the status of that broadcast.
\<close>

lemma failed_trial:
  assumes "dies_in_bcast tln sp js c e d st" and "stays_replica tln js e st" and "active_comm (node st) = MPI_COMM_NULL"
    and "quiet b" and "\<exists>jb \<in> set js. hd (survivors (world_translation tln (afailure e)) (workers jb)) \<in> set (dead_ranks tln (afailure e))"
  obtains st' where "process_shrinking_pending st' = 0" "active_comm (node st') = MPI_COMM_NULL"
    "\<forall>reset. collective_loop tln sp reset main bytes 0 MPI_SUCCESS rbuf (b # c # e # d # tr) st =
       collective_loop tln sp reset main bytes 1 (astatus c) (put (bytes (node st)) c rbuf) tr st'"
proof -
  obtain st' where h: "call_on tln sp world_job_comm c st = Inr st"
      "agree_loop tln sp 0 (e # d # tr) st = Inr (0 AND aflag e AND aflag d, tr, st')"
      "process_shrinking_pending st' = 0" "active_comm (node st') = MPI_COMM_NULL"
      "is_failed_node_world_job_comm_root tln st' = Inr 1"
    using assms(5) by (rule_tac dies_in_bcast_handler [OF assms(1,2), of 0 tr]) auto
  have s: "astatus c \<noteq> MPI_SUCCESS" "process_shrinking_pending st = 0" using assms(1) by (simp_all add: dies_in_bcast_def)
  have "bcast_loop tln sp bytes rbuf (c # e # d # tr) st = Inr (0, astatus c, put (bytes (node st)) c rbuf, tr, st')"
    using h s(1) by (simp del: agree_loop.simps)
  then have "collective_loop tln sp reset main bytes 0 MPI_SUCCESS rbuf (b # c # e # d # tr) st =
      collective_loop tln sp reset main bytes 1 (astatus c) (put (bytes (node st)) c rbuf) tr st'" for reset
    using assms(3,4) s(2)
    by (simp add: collective_loop.simps [of _ _ _ _ _ 0] NO_TRIALS_def agree_quiet quiet_def del: agree_loop.simps bcast_loop.simps)
  with h(3,4) show ?thesis using that by blast
qed

text \<open>
  C39: Gather, Allgather and Allreduce keep \<open>mpi_status\<close> between trials, unlike Scatter. A
  process dies during the broadcast inside a job; the processes notice, shrink the world and
  agree to repeat the operation, as the root test is positive. A replica that is still one
  makes no main call that could replace the status of the failed broadcast and votes against
  success again, in every trial: even if nothing fails any more, \<open>MPI_Gather\<close>,
  \<open>MPI_Allgather\<close> and \<open>MPI_Allreduce\<close> end in the abort with code 10. With the same answers
  \<open>MPI_Scatter\<close> succeeds in the second trial.
\<close>

theorem stale_status_aborts:
  assumes "poll st = Inr st1" and "active_comm (node st1) = MPI_COMM_NULL" and "quiet b"
    and "dies_in_bcast tln sp js c e d st1" and "stays_replica tln js e st1"
    and "\<exists>jb \<in> set js. hd (survivors (world_translation tln (afailure e)) (workers jb)) \<in> set (dead_ranks tln (afailure e))"
    and "list_all quiet (x # y # z # rest)" and "5 \<le> length rest"
    and "op \<in> {MPI_Gather poll tln sp n, MPI_Allgather poll tln sp n, MPI_Allreduce poll tln sp n}"
  shows "op True rbuf (b # c # e # d # x # y # z # rest) st = Inl (Abort_With 10) \<and>
     (\<exists>st2. MPI_Scatter poll tln sp n True rbuf (b # c # e # d # x # y # z # rest) st =
        Inr (MPI_SUCCESS, put n y (put n c rbuf), rest, st2))"
proof
  have s: "astatus c \<noteq> MPI_SUCCESS" using assms(4) by (simp add: dies_in_bcast_def)
  obtain main bytes where op: "op = collective poll tln sp False main bytes"
    using assms(9) by (auto simp: MPI_Gather_def MPI_Allgather_def MPI_Allreduce_def)
  obtain st' where t: "process_shrinking_pending st' = 0" "active_comm (node st') = MPI_COMM_NULL"
      "\<forall>reset. collective_loop tln sp reset main bytes 0 MPI_SUCCESS rbuf (b # c # e # d # x # y # z # rest) st1 =
       collective_loop tln sp reset main bytes 1 (astatus c) (put (bytes (node st1)) c rbuf) (x # y # z # rest) st'"
    by (rule failed_trial [OF assms(4,5,2,3,6), where main = main and bytes = bytes and rbuf = rbuf and tr = "x # y # z # rest"])
  have "collective_loop tln sp False main bytes 1 (astatus c) (put (bytes (node st1)) c rbuf) (x # y # z # rest) st' = Inl (Abort_With 10)"
    by (rule stale_status_loop) (use t s assms(7,8) in \<open>simp_all add: NO_TRIALS_def\<close>)
  then show "op True rbuf (b # c # e # d # x # y # z # rest) st = Inl (Abort_With 10)"
    using t(3) assms(1) by (simp add: op collective_def guardE_True)
next
  obtain st' where t: "process_shrinking_pending st' = 0" "active_comm (node st') = MPI_COMM_NULL"
      "\<forall>reset. collective_loop tln sp reset (\<lambda>_. n) (\<lambda>_. n) 0 MPI_SUCCESS rbuf (b # c # e # d # x # y # z # rest) st1 =
       collective_loop tln sp reset (\<lambda>_. n) (\<lambda>_. n) 1 (astatus c) (put n c rbuf) (x # y # z # rest) st'"
    by (rule failed_trial [OF assms(4,5,2,3,6), where main = "\<lambda>_. n" and bytes = "\<lambda>_. n" and rbuf = rbuf and tr = "x # y # z # rest"])
  have q: "astatus x = MPI_SUCCESS" "astatus y = MPI_SUCCESS" "astatus z = MPI_SUCCESS" "aflag x = 1" "aflag z = 1"
    using assms(7) by (simp_all add: quiet_def)
  have "bcast_loop tln sp (\<lambda>_. n) rb (y # z # rest) st' = Inr (1, MPI_SUCCESS, put n y rb, rest, st')" for rb
    using q t(1) by (simp add: call_on_quiet agree_quiet del: agree_loop.simps)
  then have "collective_loop tln sp True (\<lambda>_. n) (\<lambda>_. n) 1 (astatus c) (put n c rbuf) (x # y # z # rest) st' =
      Inr (put n y (put n c rbuf), rest, st')"
    using q t(1,2)
    by (simp add: collective_loop.simps [of _ _ _ _ _ "Suc 0"] NO_TRIALS_def agree_quiet del: agree_loop.simps bcast_loop.simps)
  then show "\<exists>st2. MPI_Scatter poll tln sp n True rbuf (b # c # e # d # x # y # z # rest) st =
        Inr (MPI_SUCCESS, put n y (put n c rbuf), rest, st2)"
    using t(3) assms(1) by (simp add: MPI_Scatter_def collective_def guardE_True)
qed

theorem stale_status_aborts_witness:
  "MPI_Allreduce Inr group_translate colour_split 4 True []
     (quiet_answer None # trio_failed 1 0 # trio_failed 1 0 # replicate 9 (quiet_answer None)) trio_world = Inl (Abort_With 10)"
proof -
  let ?q = "quiet_answer None"
  have r: "replicate 9 ?q = ?q # ?q # ?q # ?q # replicate 5 ?q" by (simp add: eval_nat_numeral)
  show ?thesis
    unfolding r
    by (rule stale_status_aborts [where poll = Inr and tln = group_translate and sp = colour_split and js = trio_jobs and n = 4
        and ?st1.0 = trio_world, THEN conjunct1])
      (simp_all add: trio_sel trio_dies trio_stays list_all_iff,
       simp add: trio_translations trio_jobs_def workers_def MPI_UNDEFINED_def)
qed

section \<open>A failure that Reduce does not see\<close>

text \<open>
  C40: in Reduce, \<open>SET_FLAG_ON_SUCCESS\<close> only ever sets the flag. After the reduction has been
  agreed on (flag -1), a replica of the root job dies during the broadcast of the result and
  the broadcast fails on another one. The processes notice, shrink the world and agree; but
  the failing replica still holds the flag of success, as has everybody whose mastership did
  not change, so all agree on it and \<open>MPI_Reduce\<close> returns success there, with its receive
  buffer as the failed broadcast left it: no call puts the result into it.
\<close>

theorem reduce_hides_failed_bcast:
  assumes "poll st = Inr st1" and "active_comm (node st1) = MPI_COMM_NULL" and "node_checkpoint_master (node st1) = NO"
    and "job_id (node st1) = root" and "astatus b = MPI_SUCCESS" "aflag b = -1"
    and "dies_in_bcast tln sp js c e d st1" and "stays_replica tln js e st1" and "aflag e = -1" "aflag d = -1"
  shows "\<exists>st2. rep_errhandler tln sp (afailure e) (rep_mpi_comm_world (node st1)) st1 = Inr st2 \<and>
     MPI_Reduce poll tln sp n root True flag0 rbuf (b # c # e # d # rest) st = Inr (MPI_SUCCESS, put n c rbuf, rest, st2)"
proof -
  have s: "astatus c \<noteq> MPI_SUCCESS" "astatus e \<noteq> MPI_SUCCESS" "astatus d = MPI_SUCCESS" "process_shrinking_pending st1 = 0"
    using assms(7) by (simp_all add: dies_in_bcast_def)
  obtain st2 where h: "rep_errhandler tln sp (afailure e) (rep_mpi_comm_world (node st1)) st1 = Inr st2"
      "call_on tln sp world_job_comm c st1 = Inr st1" "process_shrinking_pending st2 = 0" "node_checkpoint_master (node st2) = NO"
    by (rule dies_in_bcast_handler [OF assms(7,8)])
  have "do_comm_agree tln sp (-1) NO (e # d # rest) st1 = Inr (-1, NO, rest, st2)"
    using s h assms(9,10) by (simp add: MPI_Comm_agree_def call_on_def)
  then have "reduce_bcast_loop tln sp n root (-1) NO rbuf (c # e # d # rest) st1 =
      Inr (-1, astatus c, NO, put n c rbuf, rest, st2)"
    using assms(4) h(2) s(1) by (simp add: reduce_bcast_loop.simps del: do_comm_agree.simps)
  moreover have "do_comm_agree tln sp (-1) NO (b # tr) st1 = Inr (-1, NO, tr, st1)" for tr
    using assms(5,6) s(4) by (simp add: MPI_Comm_agree_def call_on_quiet)
  ultimately have "reduce_loop tln sp n root 0 flag0 MPI_SUCCESS NO rbuf (b # c # e # d # rest) st1 =
      Inr (put n c rbuf, rest, st2)"
    using assms(2) by (simp add: reduce_loop.simps [of _ _ _ _ 0] NO_TRIALS_def del: do_comm_agree.simps)
  then show ?thesis using assms(1,3) h(1) by (simp add: MPI_Reduce_def guardE_True)
qed

text \<open>Process 2 dies; process 3 gets no data from the broadcast, and its buffer stays as it was.\<close>

theorem reduce_hides_failed_bcast_witness:
  "\<exists>st2. MPI_Reduce Inr group_translate colour_split 4 1 True 0 [9, 9, 9, 9]
     [(quiet_answer None)\<lparr>aflag := -1\<rparr>, trio_failed 2 0, trio_failed 2 (-1), (quiet_answer None)\<lparr>aflag := -1\<rparr>]
     trio_world = Inr (MPI_SUCCESS, [9, 9, 9, 9], [], st2)"
proof -
  let ?ok = "(quiet_answer None)\<lparr>aflag := -1\<rparr>"
  have "\<exists>st2. rep_errhandler group_translate colour_split (afailure (trio_failed 2 (-1))) (rep_mpi_comm_world (node trio_world))
        trio_world = Inr st2 \<and>
      MPI_Reduce Inr group_translate colour_split 4 1 True 0 [9, 9, 9, 9] (?ok # trio_failed 2 0 # trio_failed 2 (-1) # ?ok # [])
        trio_world = Inr (MPI_SUCCESS, put 4 (trio_failed 2 0) [9, 9, 9, 9], [], st2)"
    by (rule reduce_hides_failed_bcast [where js = trio_jobs])
      (simp_all add: trio_sel trio_dies trio_stays)
  moreover have "put 4 (trio_failed 2 0) [9, 9, 9, 9] = [9, 9, 9, 9]" by (simp add: put_def)
  ultimately show ?thesis by auto
qed


section \<open>Bcast survives its root\<close>

text \<open>
  C21: \<open>MPI_Bcast\<close> after the death of processes during the library broadcast. The failing
  call runs the error handler, the processes agree that the trial failed, and the second
  trial succeeds: the call returns success, and while the first trial used the first worker
  of the root job, the second one is rooted at the first surviving worker of that job under
  its new rank, so the death of the root itself is survived as long as the job has a replica.
\<close>

theorem MPI_Bcast_reroots:
  assumes "poll st = Inr st1" and "process_shrinking_pending st1 = 0"
    and "shrinks tln (afailure a) (rep_mpi_comm_world (node st1)) st1"
    and "before_failure (world_translation tln (afailure a)) js st1"
    and "list_all (\<lambda>jb. survivors (world_translation tln (afailure a)) (workers jb) \<noteq> []) js"
    and "astatus a \<noteq> MPI_SUCCESS" and "astatus b = MPI_SUCCESS" and "quiet c" and "quiet d"
    and "root < length js"
  shows "\<exists>st'. MPI_Bcast poll tln sp n (int root) True buf (a # b # c # d # rest) st =
     Inr (MPI_SUCCESS, [hd (workers (js ! root)), hd (survivors (world_translation tln (afailure a)) (workers (js ! root)))],
          put n c (put n a buf), rest, st')"
proof -
  let ?tr = "world_translation tln (afailure a)"
  obtain st' js' where h: "call_on tln sp rep_mpi_comm_world a st1 = Inr st'" "job_list st' = map Some js'"
      "list_all2 (follows ?tr) js js'" "process_shrinking_pending st' = 0"
    using errhandler_shrinks [OF assms(3-5), of sp] assms(2,6) by (auto simp: call_on_def)
  have j: "job_list st1 = map Some js" "wf_job ?tr (length ?tr) (js ! root)"
    using assms(4,10) by (auto simp: before_failure_def list_all_length)
  have "rank_list (js ! root) \<noteq> [] \<and> 0 < nat (worker_count (js ! root))" using j(2) by (auto simp: wf_job_def)
  then have r0: "aget (rank_list (js ! root)) 0 = Inr (hd (workers (js ! root)))"
    by (simp add: aget_Inr workers_def hd_conv_nth)
  have "survivors ?tr (workers (js ! root)) \<noteq> []" using assms(5,10) by (simp add: list_all_length)
  then have r1: "aget (rank_list (js' ! root)) 0 = Inr (hd (survivors ?tr (workers (js ! root))))"
    using list_all2_nthD [OF h(3) assms(10)] by (intro follows_first)
  have len: "root < length js'" using h(3) assms(10) by (simp add: list_all2_lengthD)
  have q: "astatus c = MPI_SUCCESS" "astatus d = MPI_SUCCESS" "aflag d = 1"
    using assms(8,9) by (simp_all add: quiet_def)
  have "bcast_trials tln sp n (int root) 1 (put n a buf) (c # d # rest) st' =
      Inr ([hd (survivors ?tr (workers (js ! root)))], put n c (put n a buf), rest, st')"
    using q h(2,4) len r1
    by (simp add: bcast_trials.simps [of _ _ _ _ "Suc 0"] NO_TRIALS_def some_or_Some call_on_quiet agree_quiet
        del: agree_loop.simps)
  then have "bcast_trials tln sp n (int root) 0 buf (a # b # c # d # rest) st1 =
      Inr ([hd (workers (js ! root)), hd (survivors ?tr (workers (js ! root)))], put n c (put n a buf), rest, st')"
    using assms(6,7,10) h(1,4) j(1) r0
    by (simp add: bcast_trials.simps [of _ _ _ _ 0] NO_TRIALS_def some_or_Some agree_quiet del: agree_loop.simps)
  then show ?thesis using assms(1) by (simp add: MPI_Bcast_def guardE_True)
qed

theorem MPI_Bcast_reroots_witness:
  "\<exists>st'. MPI_Bcast Inr group_translate any_split 2 1 True [0, 0]
     [(quiet_answer None)\<lparr>astatus := 75\<rparr>, quiet_answer None, quiet_answer (Some [5, 6]), quiet_answer None] readme_world =
     Inr (MPI_SUCCESS, [2, 1], [5, 6], [], st')"
proof -
  have f: "afailure ((quiet_answer None)\<lparr>astatus := 75\<rparr>) = readme_failure" by (simp add: quiet_answer_def)
  have "hd (workers (readme_jobs ! 1)) = 2"
    "hd (survivors (world_translation group_translate readme_failure) (workers (readme_jobs ! 1))) = 1"
    by (simp_all add: readme_translation readme_jobs_def workers_def MPI_UNDEFINED_def)
  then show ?thesis
    using MPI_Bcast_reroots [of Inr readme_world readme_world group_translate "(quiet_answer None)\<lparr>astatus := 75\<rparr>" readme_jobs
        "quiet_answer None" "quiet_answer (Some [5, 6])" "quiet_answer None" 1 any_split 2 "[0, 0]" "[]"]
      readme_recovers readme_quiet(1)
    by (simp add: f readme_sel put_def) (simp add: readme_jobs_def quiet_answer_def MPI_SUCCESS_def)
qed

end
