(* ===== verification/P2P.thy ===== *)
theory P2P
  imports Collectives
begin

text \<open>
  Point-to-point communication: \<open>MPI_Send\<close>, \<open>MPI_Recv\<close>, \<open>MPI_Irecv\<close> and \<open>MPI_Wait\<close> of
  \<open>src/mpi/init.c\<close> and the aggregate requests of \<open>src/mpi/async.c\<close>. A message to a job goes
  to each of its workers, a receive from a job takes one message from each of its workers.
  What the process hands to the MPI library (destination, tag and bytes of a send, source
  and tag of a receive) is returned as a list; the library's answers come from a trace as in
  \<open>Collectives\<close>. An aggregate request is passed by value instead of by address: of its blocks
  only the temporary buffer is in \<open>allocs\<close>. Left out are the \<open>malloc\<close> and the \<open>free\<close> of the structure
  itself, of \<open>node_rank\<close> and \<open>req_array\<close> (whose contents are fields of the record) and of the array
  of statuses of a wait; the errors a failing \<open>malloc\<close> of them would cause are not covered.
\<close>

section \<open>Buffers\<close>

text \<open>The pointer the caller passed is the buffer, or the address of the variable that points to it.\<close>

definition SET_RIGHT_S_BUFFER :: "'a process_scheme \<Rightarrow> address \<Rightarrow> address" where
  "SET_RIGHT_S_BUFFER st buf = (if pass_sender_cont_add st \<noteq> 0 then load_addr (mem st) buf else buf)"

definition SET_RIGHT_R_BUFFER :: "'a process_scheme \<Rightarrow> address \<Rightarrow> address" where
  "SET_RIGHT_R_BUFFER st buf = (if pass_receiver_cont_add st \<noteq> 0 then load_addr (mem st) buf else buf)"

section \<open>Send and Recv\<close>

type_synonym message = "int \<times> int \<times> byte list"

text \<open>
  The loop over the workers of the destination job: \<open>n\<close> passes are left, this is pass \<open>i\<close>.
  \<open>mpi_status\<close> is not initialised. The number of passes is read once: with
  \<open>__ignore_process_failure\<close> set, the error handler leaves the job list as it is. The copies
  in \<open>temp_mem\<close>, freed before the call returns, are values here.
\<close>

primrec send_loop :: "translation \<Rightarrow> splitter \<Rightarrow> int \<Rightarrow> int \<Rightarrow> byte list \<Rightarrow> nat \<Rightarrow> int \<Rightarrow> int option \<Rightarrow> answer list \<Rightarrow>
    'a ulfm_scheme \<Rightarrow> (int option \<times> message list \<times> answer list \<times> 'a ulfm_scheme) result" where
  "send_loop tln sp dest tag dat 0 i mpi_status tr st = Inr (mpi_status, [], tr, st)"
| "send_loop tln sp dest tag dat (Suc n) i mpi_status tr st =
     bindE (aget (job_list st) dest) (\<lambda>entry.
     bindE (some_or Uninitialised entry) (\<lambda>jb.
     bindE (aget (rank_list jb) i) (\<lambda>rk.
     bindE (aget (rank_ignore_list st) rk) (\<lambda>ign.
       if ign = 1 then send_loop tln sp dest tag dat n (i + 1) mpi_status tr st
       else case tr of [] \<Rightarrow> Inl Short_Input
         | a # tr1 \<Rightarrow>
             bindE (call_on tln sp rep_mpi_comm_world a st) (\<lambda>st1.
             bindE (send_loop tln sp dest tag dat n (i + 1) (Some (astatus a)) tr1 st1) (\<lambda>(s, msgs, tr2, st2).
               Inr (s, (rk, SET_TAG (rank (node st)) tag, dat) # msgs, tr2, st2)))))))"

definition MPI_Send :: "translation \<Rightarrow> splitter \<Rightarrow> address \<Rightarrow> nat \<Rightarrow> int \<Rightarrow> int \<Rightarrow> bool \<Rightarrow> answer list \<Rightarrow> 'a ulfm_scheme \<Rightarrow>
    (int option \<times> message list \<times> answer list \<times> 'a ulfm_scheme) result" where
  "MPI_Send tln sp buf n dest tag on_world tr st =
     (let st1 = st\<lparr>ignore_process_failure := 1\<rparr>;
          dat = read_bytes (mem st1) (SET_RIGHT_S_BUFFER st1 buf) n
      in bindE (aget (job_list st1) dest) (\<lambda>entry.
         bindE (some_or Uninitialised entry) (\<lambda>jb.
         bindE (guardE on_world Uninitialised) (\<lambda>_.
         bindE (send_loop tln sp dest tag dat (nat (worker_count jb)) 0 None tr st1) (\<lambda>(s, msgs, tr1, st2).
           Inr (s, msgs, tr1, st2\<lparr>ignore_process_failure := 0\<rparr>))))))"

primrec recv_loop :: "translation \<Rightarrow> splitter \<Rightarrow> int \<Rightarrow> int \<Rightarrow> address \<Rightarrow> nat \<Rightarrow> nat \<Rightarrow> int \<Rightarrow> int option \<Rightarrow> answer list \<Rightarrow>
    'a ulfm_scheme \<Rightarrow> (int option \<times> (int \<times> int) list \<times> answer list \<times> 'a ulfm_scheme) result" where
  "recv_loop tln sp source tag buf sz 0 i mpi_status tr st = Inr (mpi_status, [], tr, st)"
| "recv_loop tln sp source tag buf sz (Suc n) i mpi_status tr st =
     bindE (aget (job_list st) source) (\<lambda>entry.
     bindE (some_or Uninitialised entry) (\<lambda>jb.
     bindE (aget (rank_list jb) i) (\<lambda>recv_source.
     bindE (aget (rank_ignore_list st) recv_source) (\<lambda>ign.
       if ign = 1 then recv_loop tln sp source tag buf sz n (i + 1) mpi_status tr st
       else case tr of [] \<Rightarrow> Inl Short_Input
         | a # tr1 \<Rightarrow>
             bindE (call_on tln sp rep_mpi_comm_world a st) (\<lambda>st1.
             let p = SET_RIGHT_R_BUFFER st buf;
                 st2 = st1\<lparr>mem := write_bytes (mem st1) p (put sz a (read_bytes (mem st1) p sz))\<rparr>
             in bindE (recv_loop tln sp source tag buf sz n (i + 1) (Some (astatus a)) tr1 st2) (\<lambda>(s, posts, tr2, st3).
                  Inr (s, (recv_source, SET_TAG recv_source tag) # posts, tr2, st3)))))))"

definition MPI_Recv :: "translation \<Rightarrow> splitter \<Rightarrow> address \<Rightarrow> nat \<Rightarrow> int \<Rightarrow> int \<Rightarrow> bool \<Rightarrow> answer list \<Rightarrow> 'a ulfm_scheme \<Rightarrow>
    (int option \<times> (int \<times> int) list \<times> answer list \<times> 'a ulfm_scheme) result" where
  "MPI_Recv tln sp buf sz source tag on_world tr st =
     (let st1 = st\<lparr>ignore_process_failure := 1\<rparr>
      in bindE (aget (job_list st1) source) (\<lambda>entry.
         bindE (some_or Uninitialised entry) (\<lambda>jb.
         bindE (guardE on_world Uninitialised) (\<lambda>_.
         bindE (recv_loop tln sp source tag buf sz (nat (worker_count jb)) 0 None tr st1) (\<lambda>(s, posts, tr1, st2).
           Inr (s, posts, tr1, st2\<lparr>ignore_process_failure := 0\<rparr>))))))"

section \<open>Aggregate requests\<close>

definition MPI_ANY_SOURCE :: int where "MPI_ANY_SOURCE = -1"

datatype Async_Type = NONE | ANY_SEND | ANY_RECV | IRECV

text \<open>
  A slot of \<open>req_array\<close> is \<open>None\<close> for \<open>MPI_REQUEST_NULL\<close>, otherwise the buffer of the
  receive posted there.
\<close>

record Aggregate_Request =
  request_count :: int
  req_array :: "address option list"
  node_rank :: "int list"
  temp_buffer :: address
  original_buffer :: address
  buffer_size :: nat
  async_type :: Async_Type
  agg_tag :: int

text \<open>Of the three blocks \<open>new_agg_request\<close> allocates, the temporary buffer is the one in \<open>allocs\<close>.\<close>

definition new_agg_request :: "allocator \<Rightarrow> address \<Rightarrow> nat \<Rightarrow> int \<Rightarrow> 'a globals_scheme \<Rightarrow>
    (Aggregate_Request \<times> 'a globals_scheme)" where
  "new_agg_request alloc ori_buf sz wc st =
     (case (if wc = 1 then (ori_buf, st) else c_malloc alloc (sz * nat wc) st) of (tb, st1) \<Rightarrow>
        (\<lparr>request_count = wc, req_array = [], node_rank = [], temp_buffer = tb, original_buffer = ori_buf,
          buffer_size = sz, async_type = NONE, agg_tag = 0\<rparr>,
         st1\<lparr>request_pending := request_pending st1 + 1\<rparr>))"

definition get_request_count :: "Aggregate_Request \<Rightarrow> int" where
  "get_request_count agg = request_count agg"

text \<open>
  Posting the receives of an aggregate: \<open>n\<close> slots are left. A post that fails is tried again
  (\<open>i--\<close>) until it succeeds or its source is known to be dead; the loop runs on the trace.
\<close>

function irecv_loop :: "translation \<Rightarrow> splitter \<Rightarrow> int \<Rightarrow> int \<Rightarrow> Aggregate_Request \<Rightarrow> nat \<Rightarrow> int option \<Rightarrow> answer list \<Rightarrow>
    'a ulfm_scheme \<Rightarrow> (int option \<times> Aggregate_Request \<times> (int \<times> int) list \<times> answer list \<times> 'a ulfm_scheme) result" where
  "irecv_loop tln sp source tag agg n mpi_status tr st =
     (if n = 0 then Inr (mpi_status, agg, [], tr, st)
      else let i = length (req_array agg)
      in bindE (if source = MPI_ANY_SOURCE then Inr MPI_ANY_SOURCE
                else bindE (aget (job_list st) source) (\<lambda>entry.
                     bindE (some_or Uninitialised entry) (\<lambda>jb. aget (rank_list jb) (int i)))) (\<lambda>recv_source.
         bindE (if recv_source \<noteq> MPI_ANY_SOURCE then aget (rank_ignore_list st) recv_source else Inr 0) (\<lambda>ign.
         let ranks = take i (node_rank agg) @ [recv_source]
         in if recv_source \<noteq> MPI_ANY_SOURCE \<and> ign = 1
            then irecv_loop tln sp source tag (agg\<lparr>node_rank := ranks, req_array := req_array agg @ [None]\<rparr>) (n - 1)
                   mpi_status tr st
            else case tr of [] \<Rightarrow> Inl Short_Input
              | a # tr1 \<Rightarrow>
                  bindE (call_on tln sp rep_mpi_comm_world a st) (\<lambda>st1.
                  let b = temp_buffer agg + word_of_nat (i * buffer_size agg)
                  in bindE (if astatus a \<noteq> MPI_SUCCESS
                            then irecv_loop tln sp source tag (agg\<lparr>node_rank := ranks\<rparr>) n (Some (astatus a)) tr1 st1
                            else irecv_loop tln sp source tag
                                   (agg\<lparr>node_rank := ranks, req_array := req_array agg @ [Some b]\<rparr>) (n - 1)
                                   (Some (astatus a)) tr1 st1)
                       (\<lambda>(s, agg1, posts, tr2, st2). Inr (s, agg1, (recv_source, SET_TAG recv_source tag) # posts, tr2, st2))))))"
  by pat_completeness auto
termination
  by (relation "measures [\<lambda>(tln, sp, source, tag, agg, n, ms, tr, st). length tr,
      \<lambda>(tln, sp, source, tag, agg, n, ms, tr, st). n]") auto

declare irecv_loop.simps [simp del]

definition MPI_Irecv :: "allocator \<Rightarrow> translation \<Rightarrow> splitter \<Rightarrow> address \<Rightarrow> nat \<Rightarrow> int \<Rightarrow> int \<Rightarrow> bool \<Rightarrow> answer list \<Rightarrow> 'a ulfm_scheme \<Rightarrow>
    (int option \<times> Aggregate_Request \<times> (int \<times> int) list \<times> answer list \<times> 'a ulfm_scheme) result" where
  "MPI_Irecv alloc tln sp buf sz source tag on_world tr st =
     (let st1 = st\<lparr>ignore_process_failure := 1\<rparr>
      in bindE (if source = MPI_ANY_SOURCE then Inr 1
                else bindE (aget (job_list st1) source) (\<lambda>entry.
                     bindE (some_or Uninitialised entry) (\<lambda>jb. Inr (worker_count jb)))) (\<lambda>wc.
         case new_agg_request alloc (SET_RIGHT_R_BUFFER st1 buf) sz wc st1 of (agg, st2) \<Rightarrow>
         let agg1 = agg\<lparr>agg_tag := tag, async_type := (if source = MPI_ANY_SOURCE then ANY_RECV else async_type agg)\<rparr>
         in bindE (guardE on_world Uninitialised) (\<lambda>_.
            bindE (irecv_loop tln sp source tag agg1 (nat wc) None tr st2) (\<lambda>(s, agg2, posts, tr1, st3).
              Inr (s, agg2, posts, tr1, st3\<lparr>ignore_process_failure := 0\<rparr>)))))"

section \<open>Waiting\<close>

record MPI_Status =
  MPI_SOURCE :: int
  MPI_TAG :: int
  MPI_ERROR :: int

text \<open>
  What one \<open>PMPI_Waitall\<close> reports: its result, the failure its error handler sees (if any),
  one status and the received bytes per request.
\<close>

record wait_answer =
  wresult :: int
  wfailure :: "failure option"
  statuses :: "MPI_Status list"
  delivered :: "byte list option list"

definition deliver :: "nat \<Rightarrow> address option list \<Rightarrow> byte list option list \<Rightarrow> (address \<Rightarrow> byte) \<Rightarrow> address \<Rightarrow> byte" where
  "deliver sz slots ds m =
     fold (\<lambda>(slot, d) m. case (slot, d) of (Some b, Some bs) \<Rightarrow> write_bytes m b (take sz bs) | _ \<Rightarrow> m) (zip slots ds) m"

definition PMPI_Waitall :: "translation \<Rightarrow> splitter \<Rightarrow> Aggregate_Request \<Rightarrow> wait_answer \<Rightarrow> 'a ulfm_scheme \<Rightarrow> 'a ulfm_scheme result" where
  "PMPI_Waitall tln sp agg w st =
     (let st1 = st\<lparr>mem := deliver (buffer_size agg) (req_array agg) (delivered w) (mem st)\<rparr>
      in case wfailure w of None \<Rightarrow> Inr st1
         | Some f \<Rightarrow> rep_errhandler tln sp f (rep_mpi_comm_world (node st1)) st1)"

text \<open>The first request that completed without error from a process not ignored.\<close>

primrec pick :: "int list \<Rightarrow> MPI_Status list \<Rightarrow> nat \<Rightarrow> (nat \<times> MPI_Status) option result" where
  "pick ign [] i = Inr None"
| "pick ign (s # ss) i =
     (if 0 \<le> MPI_SOURCE s \<and> MPI_ERROR s = MPI_SUCCESS
      then bindE (aget ign (MPI_SOURCE s)) (\<lambda>g. if g \<noteq> 1 then Inr (Some (i, s)) else pick ign ss (Suc i))
      else pick ign ss (Suc i))"

primrec wait_loop :: "translation \<Rightarrow> splitter \<Rightarrow> Aggregate_Request \<Rightarrow> int \<Rightarrow> wait_answer list \<Rightarrow> 'a ulfm_scheme \<Rightarrow>
    ((nat \<times> MPI_Status \<times> int) \<times> wait_answer list \<times> 'a ulfm_scheme) result" where
  "wait_loop tln sp agg trial_counter [] st = Inl Short_Input"
| "wait_loop tln sp agg trial_counter (w # ws) st =
     bindE (PMPI_Waitall tln sp agg w st) (\<lambda>st1.
     bindE (guardE (nat (request_count agg) \<le> length (statuses w)) Uninitialised) (\<lambda>_.
     bindE (pick (rank_ignore_list st1) (take (nat (request_count agg)) (statuses w)) 0) (\<lambda>r.
     bindE (case r of None \<Rightarrow> Inr None
            | Some (i, s) \<Rightarrow>
                bindE (some_or Null_Deref (rank_2_job st1)) (\<lambda>tbl.
                bindE (aget tbl (MPI_SOURCE s)) (\<lambda>e.
                bindE (some_or Uninitialised e) (\<lambda>jid. Inr (Some (i, s, jid)))))) (\<lambda>found.
       if trial_counter > 4 then Inl (Exit_With 999)
       else case found of None \<Rightarrow> wait_loop tln sp agg (trial_counter + 1) ws st1
            | Some x \<Rightarrow> Inr (x, ws, st1)))))"

text \<open>The receives that swallow the copies of the other workers after a receive from any source.\<close>

definition blackhole_posts :: "Aggregate_Request \<Rightarrow> int \<Rightarrow> int \<Rightarrow> 'a globals_scheme \<Rightarrow> (int \<times> int) list result" where
  "blackhole_posts agg src jid st =
     (if async_type agg = ANY_RECV
      then bindE (aget (job_list st) jid) (\<lambda>entry.
           bindE (some_or Uninitialised entry) (\<lambda>jb.
             Inr (map (\<lambda>rk. (MPI_ANY_SOURCE, SET_TAG rk (agg_tag agg))) (filter (\<lambda>rk. rk \<noteq> src) (workers jb)))))
      else Inr [])"

text \<open>
  The part of \<open>free_agg_request\<close> that concerns the temporary buffer. The blocks of \<open>req_array\<close>,
  \<open>node_rank\<close> and the structure, which it frees as well, are not in \<open>allocs\<close>; that the address of the
  structure is dead afterwards is part of \<open>mpi_wait_f\<close> in \<open>Fortran\<close>, where requests are addresses.
\<close>

definition free_agg_request :: "Aggregate_Request \<Rightarrow> 'a globals_scheme \<Rightarrow> 'a globals_scheme result" where
  "free_agg_request agg st = (if request_count agg > 1 then c_free (temp_buffer agg) st else Inr st)"

text \<open>
  \<open>ignored\<close>: the caller passed \<open>MPI_STATUS_IGNORE\<close>. The status is returned when it is set. The
  block of \<open>arr_status\<close>, allocated before the attempts and freed at the end, is the list
  \<open>statuses\<close> of the answer.
\<close>

definition wait_for_agg_request :: "translation \<Rightarrow> splitter \<Rightarrow> Aggregate_Request \<Rightarrow> bool \<Rightarrow> wait_answer list \<Rightarrow> 'a ulfm_scheme \<Rightarrow>
    (int \<times> MPI_Status option \<times> (int \<times> int) list \<times> wait_answer list \<times> 'a ulfm_scheme) result" where
  "wait_for_agg_request tln sp agg ignored ws st =
     (if request_count agg = 0 \<or> req_array agg = [] then Inr (MPI_SUCCESS, None, [], ws, st)
      else if ignored
      then case ws of [] \<Rightarrow> Inl Short_Input
           | w # ws1 \<Rightarrow> bindE (PMPI_Waitall tln sp agg w st) (\<lambda>st1.
                        bindE (free_agg_request agg st1) (\<lambda>st2. Inr (wresult w, None, [], ws1, st2)))
      else bindE (wait_loop tln sp agg 0 ws st) (\<lambda>((wa_index, s, jid), ws1, st1).
           bindE (blackhole_posts agg (MPI_SOURCE s) jid st1) (\<lambda>posts.
           let temp_buf = temp_buffer agg + word_of_nat (wa_index * buffer_size agg);
               st2 = (if request_count agg \<noteq> 1
                      then st1\<lparr>mem := write_bytes (mem st1) (original_buffer agg)
                                        (read_bytes (mem st1) temp_buf (buffer_size agg))\<rparr>
                      else st1)
           in bindE (free_agg_request agg st2) (\<lambda>st3.
                Inr (MPI_SUCCESS, Some (s\<lparr>MPI_SOURCE := jid\<rparr>), posts, ws1, st3)))))"

definition MPI_Wait :: "translation \<Rightarrow> splitter \<Rightarrow> Aggregate_Request \<Rightarrow> bool \<Rightarrow> wait_answer list \<Rightarrow> 'a ulfm_scheme \<Rightarrow>
    (int \<times> MPI_Status option \<times> (int \<times> int) list \<times> wait_answer list \<times> 'a ulfm_scheme) result" where
  "MPI_Wait tln sp agg ignored ws st =
     bindE (wait_for_agg_request tln sp agg ignored ws (st\<lparr>ignore_process_failure := 1\<rparr>)) (\<lambda>(s, status, posts, ws1, st1).
       Inr (s, status, posts, ws1,
            st1\<lparr>request_pending := request_pending st1 - 1, ignore_process_failure := 0\<rparr>))"

section \<open>Sends and receives pair up\<close>

text \<open>A job all of whose workers are alive and known to the tables.\<close>

definition live_job :: "'a globals_scheme \<Rightarrow> int \<Rightarrow> Job \<Rightarrow> bool" where
  "live_job st k jb \<longleftrightarrow> 0 \<le> k \<and> nat k < length (job_list st) \<and> job_list st ! nat k = Some jb \<and>
     0 < worker_count jb \<and> nat (worker_count jb) \<le> length (rank_list jb) \<and>
     (\<forall>w \<in> set (workers jb). 0 \<le> w \<and> nat w < length (rank_ignore_list st) \<and> rank_ignore_list st ! nat w \<noteq> 1)"

lemma live_job_worker:
  assumes "live_job st k jb" and "i < nat (worker_count jb)"
  shows "aget (rank_list jb) (int i) = Inr (workers jb ! i)" "aget (rank_ignore_list st) (workers jb ! i) =
     Inr (rank_ignore_list st ! nat (workers jb ! i))" "rank_ignore_list st ! nat (workers jb ! i) \<noteq> 1"
proof -
  have "workers jb ! i \<in> set (workers jb)" using assms by (intro nth_mem) (simp add: workers_def live_job_def)
  then show "aget (rank_ignore_list st) (workers jb ! i) = Inr (rank_ignore_list st ! nat (workers jb ! i))"
    "rank_ignore_list st ! nat (workers jb ! i) \<noteq> 1" using assms(1) by (auto simp: live_job_def aget_nat)
  show "aget (rank_list jb) (int i) = Inr (workers jb ! i)" using assms by (simp add: live_job_def workers_def)
qed

lemma send_loop_live:
  assumes "live_job st dest jb" and "i + n = nat (worker_count jb)" and "length as = n"
    and "list_all (\<lambda>a. astatus a = MPI_SUCCESS) as" and "n = 0 \<longrightarrow> ms = Some MPI_SUCCESS"
  shows "send_loop tln sp dest tag dat n (int i) ms (as @ tr) st =
     Inr (Some MPI_SUCCESS, map (\<lambda>w. (w, SET_TAG (rank (node st)) tag, dat)) (drop i (workers jb)), tr, st)"
  using assms(2-5)
proof (induction n arbitrary: i as ms)
  case 0
  then show ?case by (simp add: workers_def)
next
  case (Suc n)
  obtain a as' where as: "as = a # as'" using Suc.prems(2) by (cases as) auto
  have i: "i < nat (worker_count jb)" using Suc.prems(1) by simp
  have len: "length (workers jb) = nat (worker_count jb)" using assms(1) by (simp add: workers_def live_job_def)
  have "send_loop tln sp dest tag dat n (int (Suc i)) (Some MPI_SUCCESS) (as' @ tr) st =
      Inr (Some MPI_SUCCESS, map (\<lambda>w. (w, SET_TAG (rank (node st)) tag, dat)) (drop (Suc i) (workers jb)), tr, st)"
    using Suc.prems as by (intro Suc.IH) auto
  moreover have "drop i (workers jb) = workers jb ! i # drop (Suc i) (workers jb)"
    using i len by (simp add: Cons_nth_drop_Suc)
  ultimately show ?case
    using live_job_worker [OF assms(1) i] assms(1) Suc.prems(3) as
    by (simp add: live_job_def aget_nat some_or_Some call_on_quiet add.commute)
qed

text \<open>Where a receive puts its bytes; the variable that holds the pointer lies outside of them.\<close>

definition receive_buffer :: "'a process_scheme \<Rightarrow> address \<Rightarrow> nat \<Rightarrow> bool" where
  "receive_buffer st buf sz \<longleftrightarrow> sz < 2 ^ 64 \<and>
     (pass_receiver_cont_add st = 0 \<or> apart (SET_RIGHT_R_BUFFER st buf) sz buf 8)"

lemma receive_buffer_written:
  assumes "receive_buffer st buf sz" and "length d = sz"
  shows "SET_RIGHT_R_BUFFER (st\<lparr>mem := write_bytes (mem st) (SET_RIGHT_R_BUFFER st buf) d\<rparr>) buf = SET_RIGHT_R_BUFFER st buf"
  using assms by (auto simp: receive_buffer_def SET_RIGHT_R_BUFFER_def load_write_apart)

lemma write_bytes_again: "write_bytes (write_bytes m p d) p d = write_bytes m p d"
  by (rule ext) (simp add: write_bytes_def Let_def)

lemma live_job_mem [simp]: "live_job (st\<lparr>mem := m\<rparr>) k jb = live_job st k jb"
  by (simp add: live_job_def)

lemma recv_loop_live:
  assumes "live_job st source jb" and "receive_buffer st buf sz" and "length d = sz"
    and "i + n = nat (worker_count jb)" and "length as = n"
    and "list_all (\<lambda>a. astatus a = MPI_SUCCESS \<and> adata a = Some d) as" and "n = 0 \<longrightarrow> ms = Some MPI_SUCCESS"
  shows "recv_loop tln sp source tag buf sz n (int i) ms (as @ tr) st =
     Inr (Some MPI_SUCCESS, map (\<lambda>w. (w, SET_TAG w tag)) (drop i (workers jb)), tr,
       if n = 0 then st else st\<lparr>mem := write_bytes (mem st) (SET_RIGHT_R_BUFFER st buf) d\<rparr>)"
  using assms
proof (induction n arbitrary: i as ms st)
  case 0
  then show ?case by (simp add: workers_def)
next
  case (Suc n)
  let ?st = "st\<lparr>mem := write_bytes (mem st) (SET_RIGHT_R_BUFFER st buf) d\<rparr>"
  obtain a as' where as: "as = a # as'" using Suc.prems(5) by (cases as) auto
  have i: "i < nat (worker_count jb)" using Suc.prems(4) by simp
  have len: "length (workers jb) = nat (worker_count jb)" using Suc.prems(1) by (simp add: workers_def live_job_def)
  have rb: "receive_buffer ?st buf sz"
    using Suc.prems(2) receive_buffer_written [OF Suc.prems(2,3)] by (simp add: receive_buffer_def)
  have "recv_loop tln sp source tag buf sz n (int (Suc i)) (Some MPI_SUCCESS) (as' @ tr) ?st =
      Inr (Some MPI_SUCCESS, map (\<lambda>w. (w, SET_TAG w tag)) (drop (Suc i) (workers jb)), tr, ?st)"
    using Suc.IH [of ?st "Suc i" as' "Some MPI_SUCCESS"] Suc.prems as rb
    by (simp add: receive_buffer_written [OF Suc.prems(2,3)] write_bytes_again)
  moreover have "drop i (workers jb) = workers jb ! i # drop (Suc i) (workers jb)"
    using i len by (simp add: Cons_nth_drop_Suc)
  moreover have "put sz a (read_bytes (mem st) (SET_RIGHT_R_BUFFER st buf) sz) = d"
    using Suc.prems(3,6) as by (simp add: put_def)
  ultimately show ?case
    using live_job_worker [OF Suc.prems(1) i] Suc.prems(1,6) as
    by (simp add: live_job_def aget_nat some_or_Some call_on_quiet add.commute Let_def)
qed

text \<open>A receive from a live job posts one receive per worker and writes the buffer.\<close>

lemma MPI_Send_live:
  assumes "live_job s dest jd" and "length as = nat (worker_count jd)" and "list_all (\<lambda>a. astatus a = MPI_SUCCESS) as"
  shows "MPI_Send tln sp sbuf sz dest tag True (as @ rest) s = Inr (Some MPI_SUCCESS,
      map (\<lambda>w. (w, SET_TAG (rank (node s)) tag, read_bytes (mem s) (SET_RIGHT_S_BUFFER s sbuf) sz)) (workers jd), rest,
      s\<lparr>ignore_process_failure := 0\<rparr>)"
proof -
  let ?s = "s\<lparr>ignore_process_failure := 1\<rparr>"
  have live: "live_job ?s dest jd" using assms(1) by (simp add: live_job_def)
  have buf: "SET_RIGHT_S_BUFFER ?s sbuf = SET_RIGHT_S_BUFFER s sbuf" by (simp add: SET_RIGHT_S_BUFFER_def)
  have pos: "nat (worker_count jd) \<noteq> 0" using assms(1) by (auto simp: live_job_def)
  have "send_loop tln sp dest tag d (nat (worker_count jd)) 0 None (as @ rest) ?s =
      Inr (Some MPI_SUCCESS, map (\<lambda>w. (w, SET_TAG (rank (node s)) tag, d)) (workers jd), rest, ?s)" for d
    using send_loop_live [OF live, of 0 "nat (worker_count jd)" as] assms(2,3) pos by simp
  then show ?thesis
    using assms(1) buf by (simp add: MPI_Send_def live_job_def aget_nat some_or_Some guardE_True)
qed

lemma MPI_Recv_live:
  assumes "live_job r source js" and "receive_buffer r buf sz" and "length d = sz"
    and "length bs = nat (worker_count js)" and "list_all (\<lambda>b. astatus b = MPI_SUCCESS \<and> adata b = Some d) bs"
  shows "MPI_Recv tln sp buf sz source tag True (bs @ rest) r =
      Inr (Some MPI_SUCCESS, map (\<lambda>w. (w, SET_TAG w tag)) (workers js), rest,
           r\<lparr>mem := write_bytes (mem r) (SET_RIGHT_R_BUFFER r buf) d, ignore_process_failure := 0\<rparr>)"
proof -
  let ?r = "r\<lparr>ignore_process_failure := 1\<rparr>"
  have live: "live_job ?r source js" using assms(1) by (simp add: live_job_def)
  have buf: "SET_RIGHT_R_BUFFER ?r buf = SET_RIGHT_R_BUFFER r buf" "receive_buffer ?r buf sz"
    using assms(2) by (auto simp: SET_RIGHT_R_BUFFER_def receive_buffer_def split: if_splits)
  have pos: "nat (worker_count js) \<noteq> 0" using assms(1) by (auto simp: live_job_def)
  have "recv_loop tln sp source tag buf sz (nat (worker_count js)) 0 None (bs @ rest) ?r =
      Inr (Some MPI_SUCCESS, map (\<lambda>w. (w, SET_TAG w tag)) (workers js), rest,
           ?r\<lparr>mem := write_bytes (mem r) (SET_RIGHT_R_BUFFER r buf) d\<rparr>)"
    using recv_loop_live [OF live buf(2) assms(3), of 0 "nat (worker_count js)" bs] assms(4,5) pos buf(1) by simp
  then show ?thesis
    using assms(1) by (simp add: MPI_Recv_def live_job_def aget_nat some_or_Some guardE_True)
qed

section \<open>Any source\<close>

lemma ignore_failed_keeps:
  assumes "ignore_failed rs st = Inr st'"
  shows "node st' = node st \<and> ignore_process_failure st' = ignore_process_failure st \<and> job_list st' = job_list st"
  using assms by (induction rs arbitrary: st) (auto split: if_splits elim!: bindE_E)

text \<open>While failures are ignored, a call on the world changes neither ranks nor jobs.\<close>

lemma call_on_ignoring:
  assumes "call_on tln sp rep_mpi_comm_world a st = Inr st'" and "ignore_process_failure st \<noteq> 0"
  shows "node st' = node st \<and> ignore_process_failure st' = ignore_process_failure st \<and> job_list st' = job_list st"
  using assms by (auto simp: call_on_def rep_errhandler_def Let_def split: if_splits elim!: bindE_E dest!: ignore_failed_keeps)

lemma send_loop_tags:
  assumes "send_loop tln sp dest tag dat n i ms tr st = Inr (s, msgs, tr', st')" and "ignore_process_failure st \<noteq> 0"
  shows "(fst \<circ> snd) ` set msgs \<subseteq> {SET_TAG (rank (node st)) tag}"
  using assms
proof (induction n arbitrary: i ms tr st s msgs tr' st')
  case 0
  then show ?case by simp
next
  case (Suc n)
  from Suc.prems(1) obtain ign rk :: int where g: "(if ign = 1 then send_loop tln sp dest tag dat n (i + 1) ms tr st
       else case tr of [] \<Rightarrow> Inl Short_Input
         | a # tr1 \<Rightarrow>
             bindE (call_on tln sp rep_mpi_comm_world a st) (\<lambda>st1.
             bindE (send_loop tln sp dest tag dat n (i + 1) (Some (astatus a)) tr1 st1) (\<lambda>(s, msgs, tr2, st2).
               Inr (s, (rk, SET_TAG (rank (node st)) tag, dat) # msgs, tr2, st2)))) = Inr (s, msgs, tr', st')"
    unfolding send_loop.simps by (elim bindE_E) (rule that, assumption)
  show ?case
  proof (cases "ign = 1")
    case True
    then show ?thesis using g Suc.IH Suc.prems(2) by simp
  next
    case False
    then obtain a tr1 st1 msgs1 tr2 st2 where c: "call_on tln sp rep_mpi_comm_world a st = Inr st1"
        "send_loop tln sp dest tag dat n (i + 1) (Some (astatus a)) tr1 st1 = Inr (s, msgs1, tr2, st2)"
        "msgs = (rk, SET_TAG (rank (node st)) tag, dat) # msgs1"
      using g by (auto split: list.splits elim!: bindE_E)
    have k: "node st1 = node st" "ignore_process_failure st1 \<noteq> 0"
      using call_on_ignoring [OF c(1) Suc.prems(2)] Suc.prems(2) by auto
    show ?thesis using Suc.IH [OF c(2) k(2)] k(1) c(3) by simp
  qed
qed

text \<open>
  C37: a receive from \<open>MPI_ANY_SOURCE\<close> is posted under a tag that no send uses. \<open>MPI_Irecv\<close>
  forms the tag from the rank it was given, \<open>-1\<close>, which leaves the application's tag as it
  is; \<open>MPI_Send\<close> forms it from the sender's rank, which adds at least 100. For the same
  application tag the posted receive therefore matches no copy that any process sends,
  whatever the library answers to that process.
\<close>

theorem any_source_unmatched:
  assumes "MPI_Send tln sp sbuf n dest tag True tr s = Inr (x, msgs, tr1, s1)" and "0 \<le> rank (node s)"
    and "astatus a = MPI_SUCCESS"
  shows "\<exists>agg r'. MPI_Irecv alloc tln sp rbuf sz MPI_ANY_SOURCE tag True (a # rest) r =
       Inr (Some MPI_SUCCESS, agg, [(MPI_ANY_SOURCE, tag)], rest, r') \<and> tag \<notin> (fst \<circ> snd) ` set msgs"
proof -
  have "(fst \<circ> snd) ` set msgs \<subseteq> {SET_TAG (rank (node s)) tag}"
    using assms(1) send_loop_tags by (fastforce simp: MPI_Send_def Let_def elim!: bindE_E)
  moreover have "SET_TAG (rank (node s)) tag \<noteq> tag" using assms(2) by (simp add: SET_TAG_def)
  moreover have "SET_TAG MPI_ANY_SOURCE tag = tag" by (simp add: SET_TAG_def MPI_ANY_SOURCE_def)
  ultimately show ?thesis
    using assms(3)
    by (auto simp: MPI_Irecv_def new_agg_request_def Let_def guardE_True irecv_loop.simps [of _ _ _ _ _ "Suc 0"]
        irecv_loop.simps [of _ _ _ _ _ 0] call_on_quiet split: prod.splits)
qed

theorem any_source_unmatched_witness:
  "\<exists>msgs tr1 s1 agg r'. MPI_Send group_translate any_split 64 2 0 7 True [quiet_answer None] readme_world =
       Inr (Some MPI_SUCCESS, msgs, tr1, s1) \<and> msgs \<noteq> [] \<and>
     MPI_Irecv (\<lambda>_ _. 0) group_translate any_split 64 2 MPI_ANY_SOURCE 7 True [quiet_answer None] readme_world =
       Inr (Some MPI_SUCCESS, agg, [(MPI_ANY_SOURCE, 7)], [], r') \<and> 7 \<notin> (fst \<circ> snd) ` set msgs"
proof -
  have l: "live_job (readme_world\<lparr>ignore_process_failure := 1\<rparr>) 0 (readme_jobs ! 0)" "live_job readme_world 0 (readme_jobs ! 0)"
    by (simp_all add: live_job_def readme_sel readme_jobs_def workers_def)
  have w: "worker_count (readme_jobs ! 0) = 1" "workers (readme_jobs ! 0) = [0]" by (simp_all add: readme_jobs_def workers_def)
  obtain msgs s1 where m: "MPI_Send group_translate any_split 64 2 0 7 True [quiet_answer None] readme_world =
       Inr (Some MPI_SUCCESS, msgs, [], s1)" "msgs \<noteq> []"
    using send_loop_live [OF l(1), of 0 1 "[quiet_answer None]" None group_translate any_split 7 _ "[]"] l(2) w
    by (simp add: MPI_Send_def live_job_def aget_nat some_or_Some guardE_True Let_def readme_sel)
  have "0 \<le> rank (node readme_world)" by (simp add: readme_sel)
  then show ?thesis
    using any_source_unmatched [OF m(1) _ quiet_answer(3), of "\<lambda>_ _. 0" 64 2 None "[]" readme_world] m by blast
qed

end
