(* ===== verification/Requests.thy ===== *)
theory Requests
  imports P2P
begin

text \<open>
  What the aggregate requests of \<open>src/mpi/async.c\<close> guarantee: one slot of the temporary
  buffer per worker, apart from each other; the first good slot reaches the caller's buffer
  when a status is asked for, none does otherwise; the number of attempts is bounded.
\<close>

section \<open>Slots of the temporary buffer\<close>

lemma slot_offset:
  assumes "i \<noteq> k" and "i < n" and "k < n" and "sz * n \<le> 2 ^ 64" and "j < sz"
  shows "sz \<le> unat (word_of_nat (i * sz + j) - word_of_nat (k * sz) :: address)"
proof -
  have le: "i * sz + sz \<le> sz * n" "k * sz + sz \<le> sz * n"
    using mult_le_mono2 [of "Suc i" n sz] mult_le_mono2 [of "Suc k" n sz] assms(2,3) by (simp_all add: mult.commute)
  have u: "unat (word_of_nat (i * sz + j) :: address) = i * sz + j" "unat (word_of_nat (k * sz) :: address) = k * sz"
    using le assms(4,5) by (simp_all add: unat_of_nat del: of_nat_add of_nat_mult)
  have o: "i < k \<Longrightarrow> i * sz + sz \<le> k * sz" "k < i \<Longrightarrow> k * sz + sz \<le> i * sz"
    using mult_le_mono1 [of "Suc i" k sz] mult_le_mono1 [of "Suc k" i sz] by simp_all
  show ?thesis
    using assms(1,4,5) le o by (cases "i < k") (auto simp: unat_sub_if' u simp del: of_nat_add of_nat_mult)
qed

definition slots :: "address \<Rightarrow> nat \<Rightarrow> nat \<Rightarrow> address option list" where
  "slots tb sz n = map (\<lambda>k. Some (tb + word_of_nat (k * sz))) [0..<n]"

lemma length_slots [simp]: "length (slots tb sz n) = n"
  by (simp add: slots_def)

lemma slots_nth [simp]: "k < n \<Longrightarrow> slots tb sz n ! k = Some (tb + word_of_nat (k * sz))"
  by (simp add: slots_def)

lemma deliver_append:
  "length xs = length ds \<Longrightarrow> deliver sz (xs @ ys) (ds @ es) m = deliver sz ys es (deliver sz xs ds m)"
  by (simp add: deliver_def)

lemma deliver_Cons: "deliver sz (b # xs) (e # ds) m = deliver sz xs ds (deliver sz [b] [e] m)"
  by (simp add: deliver_def)

lemma deliver_other:
  assumes "\<And>b. Some b \<in> set xs \<Longrightarrow> sz \<le> unat (x - b)"
  shows "deliver sz xs ds m x = m x"
  using assms
proof (induction xs arbitrary: ds m)
  case Nil
  then show ?case by (simp add: deliver_def)
next
  case (Cons b xs)
  show ?case
  proof (cases ds)
    case Nil
    then show ?thesis by (simp add: deliver_def)
  next
    case (Cons e es)
    let ?m = "case (b, e) of (Some b, Some bs) \<Rightarrow> write_bytes m b (take sz bs) | _ \<Rightarrow> m"
    have "deliver sz (b # xs) ds m x = deliver sz xs es ?m x" by (simp add: deliver_def Cons)
    also have "\<dots> = ?m x" using Cons.prems by (intro Cons.IH) auto
    also have "\<dots> = m x"
      using Cons.prems [of "the b"] by (cases b; cases e) (auto intro!: write_bytes_other)
    finally show ?thesis .
  qed
qed

lemma read_deliver_apart:
  assumes "\<And>b. Some b \<in> set xs \<Longrightarrow> apart b sz p n"
  shows "read_bytes (deliver sz xs ds m) p n = read_bytes m p n"
proof -
  have "deliver sz xs ds m (p + word_of_nat j) = m (p + word_of_nat j)" if "j < n" for j
    using assms apart_offset that by (intro deliver_other) blast
  then show ?thesis by (auto simp: read_bytes_def)
qed

text \<open>Each slot holds what was delivered to it.\<close>

lemma read_deliver_slot:
  assumes "sz * n \<le> 2 ^ 64" and "i < n" and "length ds = n" and "ds ! i = Some d" and "length d = sz"
  shows "read_bytes (deliver sz (slots tb sz n) ds m) (tb + word_of_nat (i * sz)) sz = d"
proof (rule nth_equalityI)
  show "length (read_bytes (deliver sz (slots tb sz n) ds m) (tb + word_of_nat (i * sz)) sz) = length d"
    using assms by simp
next
  fix j
  assume "j < length (read_bytes (deliver sz (slots tb sz n) ds m) (tb + word_of_nat (i * sz)) sz)"
  then have j: "j < sz" by simp
  let ?b = "tb + word_of_nat (i * sz) :: address" and ?x = "tb + word_of_nat (i * sz) + word_of_nat j :: address"
  let ?pre = "take i (slots tb sz n)" and ?post = "drop (Suc i) (slots tb sz n)"
  have "slots tb sz n = ?pre @ [Some ?b] @ ?post" "ds = take i ds @ [Some d] @ drop (Suc i) ds"
    using assms id_take_nth_drop [of i "slots tb sz n"] id_take_nth_drop [of i ds] by simp_all
  then have "deliver sz (slots tb sz n) ds m = deliver sz (?pre @ [Some ?b] @ ?post) (take i ds @ [Some d] @ drop (Suc i) ds) m"
    by presburger
  also have "\<dots> = deliver sz ?post (drop (Suc i) ds) (deliver sz [Some ?b] [Some d] (deliver sz ?pre (take i ds) m))"
    using assms by (subst deliver_append) (simp_all only: append_Cons append_Nil deliver_Cons [of _ "Some ?b" ?post] length_take length_slots)
  finally have split: "deliver sz (slots tb sz n) ds m =
      deliver sz ?post (drop (Suc i) ds) (deliver sz [Some ?b] [Some d] (deliver sz ?pre (take i ds) m))" .
  have "deliver sz (slots tb sz n) ds m ?x = deliver sz [Some ?b] [Some d] (deliver sz ?pre (take i ds) m) ?x"
    unfolding split
  proof (rule deliver_other)
    fix b assume "Some b \<in> set ?post"
    then obtain k where k: "i < k" "k < n" "b = tb + word_of_nat (k * sz)"
      by (auto simp: slots_def drop_map less_eq_Suc_le simp del: of_nat_mult)
    have "?x - b = word_of_nat (i * sz + j) - word_of_nat (k * sz)" by (simp add: k(3) algebra_simps)
    moreover have "sz \<le> unat (word_of_nat (i * sz + j) - word_of_nat (k * sz) :: address)"
      using k assms(1,2) j by (intro slot_offset) auto
    ultimately show "sz \<le> unat (?x - b)" by (simp only:)
  qed
  also have "\<dots> = d ! j"
  proof -
    have "sz \<le> sz * n" using assms(2) by simp
    then have "j < 2 ^ 64" using j assms(1) by linarith
    then have "unat (?x - ?b) = j" by (simp add: unat_of_nat)
    then show ?thesis using j assms(5) by (simp add: deliver_def write_bytes_def)
  qed
  finally show "read_bytes (deliver sz (slots tb sz n) ds m) ?b sz ! j = d ! j"
    using j by (simp add: read_bytes_nth)
qed

section \<open>Posting\<close>

lemma live_job_unignored:
  assumes "live_job st k jb" and "i < nat (worker_count jb)"
  shows "workers jb ! i \<noteq> MPI_ANY_SOURCE"
proof -
  have "workers jb ! i \<in> set (workers jb)" using assms by (intro nth_mem) (simp add: workers_def live_job_def)
  then show ?thesis using assms(1) by (auto simp: live_job_def MPI_ANY_SOURCE_def)
qed

lemma irecv_loop_live:
  assumes "live_job st source jb" and "length (req_array agg) = i" and "length (node_rank agg) = i"
    and "i + n = nat (worker_count jb)" and "length as = n"
    and "list_all (\<lambda>a. astatus a = MPI_SUCCESS) as" and "n = 0 \<longrightarrow> ms = Some MPI_SUCCESS"
  shows "irecv_loop tln sp source tag agg n ms (as @ tr) st =
     Inr (Some MPI_SUCCESS, agg\<lparr>node_rank := node_rank agg @ drop i (workers jb),
            req_array := req_array agg @ drop i (slots (temp_buffer agg) (buffer_size agg) (i + n))\<rparr>,
          map (\<lambda>w. (w, SET_TAG w tag)) (drop i (workers jb)), tr, st)"
  using assms(2-7)
proof (induction n arbitrary: i as ms agg)
  case 0
  then show ?case by (simp add: irecv_loop.simps workers_def)
next
  case (Suc n)
  obtain a as' where as: "as = a # as'" using Suc.prems(4) by (cases as) auto
  have i: "i < nat (worker_count jb)" using Suc.prems(3) by simp
  have len: "length (workers jb) = nat (worker_count jb)" using assms(1) by (simp add: workers_def live_job_def)
  have src: "source \<noteq> MPI_ANY_SOURCE" using assms(1) by (auto simp: live_job_def MPI_ANY_SOURCE_def)
  let ?agg = "agg\<lparr>node_rank := node_rank agg @ [workers jb ! i],
     req_array := req_array agg @ [Some (temp_buffer agg + word_of_nat (i * buffer_size agg))]\<rparr>"
  have d: "drop i (workers jb) = workers jb ! i # drop (Suc i) (workers jb)"
    "drop i (slots (temp_buffer agg) (buffer_size agg) (i + Suc n)) =
       Some (temp_buffer agg + word_of_nat (i * buffer_size agg)) #
         drop (Suc i) (slots (temp_buffer agg) (buffer_size agg) (i + Suc n))"
    using i len by (simp_all add: Cons_nth_drop_Suc [symmetric])
  have "irecv_loop tln sp source tag ?agg n (Some MPI_SUCCESS) (as' @ tr) st =
     Inr (Some MPI_SUCCESS, ?agg\<lparr>node_rank := node_rank ?agg @ drop (Suc i) (workers jb),
            req_array := req_array ?agg @ drop (Suc i) (slots (temp_buffer ?agg) (buffer_size ?agg) (Suc i + n))\<rparr>,
          map (\<lambda>w. (w, SET_TAG w tag)) (drop (Suc i) (workers jb)), tr, st)"
    using Suc.prems as by (intro Suc.IH) auto
  then show ?case
    using live_job_worker [OF assms(1) i] live_job_unignored [OF assms(1) i] assms(1) Suc.prems src as d
    by (simp add: irecv_loop.simps [of _ _ _ _ _ "Suc n"] live_job_def aget_nat some_or_Some call_on_quiet Let_def)
qed

text \<open>
  What \<open>MPI_Irecv\<close> leaves behind for a live job of \<open>n\<close> workers: the buffer \<open>tb\<close> is the
  caller's own one for a single worker and a fresh block of \<open>n\<close> slots otherwise.
\<close>

definition posted :: "address \<Rightarrow> nat \<Rightarrow> int \<Rightarrow> Job \<Rightarrow> 'a globals_scheme \<Rightarrow> address \<Rightarrow> Aggregate_Request" where
  "posted buf sz tag jb st tb =
     \<lparr>request_count = worker_count jb, req_array = slots tb sz (nat (worker_count jb)), node_rank = workers jb,
      temp_buffer = tb, original_buffer = SET_RIGHT_R_BUFFER st buf, buffer_size = sz, async_type = NONE, agg_tag = tag\<rparr>"

definition block_for :: "allocator \<Rightarrow> address \<Rightarrow> nat \<Rightarrow> Job \<Rightarrow> 'a globals_scheme \<Rightarrow> address \<times> (address \<times> nat) list" where
  "block_for alloc buf sz jb st =
     (let n = sz * nat (worker_count jb); q = alloc (allocs st) n
      in if worker_count jb = 1 then (SET_RIGHT_R_BUFFER st buf, allocs st) else (q, (q, n) # allocs st))"

definition can_allocate :: "allocator \<Rightarrow> nat \<Rightarrow> Job \<Rightarrow> 'a globals_scheme \<Rightarrow> bool" where
  "can_allocate alloc sz jb st \<longleftrightarrow> sz < 2 ^ 64 \<and> (worker_count jb = 1 \<or>
     fresh_block (allocs st) (alloc (allocs st) (sz * nat (worker_count jb))) (sz * nat (worker_count jb)))"

lemma MPI_Irecv_live:
  assumes "live_job st source jb" and "can_allocate alloc sz jb st" and "length as = nat (worker_count jb)"
    and "list_all (\<lambda>a. astatus a = MPI_SUCCESS) as" and "block_for alloc buf sz jb st = (tb, bl)"
  shows "MPI_Irecv alloc tln sp buf sz source tag True (as @ tr) st =
     Inr (Some MPI_SUCCESS, posted buf sz tag jb st tb, map (\<lambda>w. (w, SET_TAG w tag)) (workers jb), tr,
          st\<lparr>allocs := bl, request_pending := request_pending st + 1, ignore_process_failure := 0\<rparr>)"
proof -
  let ?st = "st\<lparr>ignore_process_failure := 1\<rparr>" and ?p = "SET_RIGHT_R_BUFFER st buf"
  let ?st2 = "?st\<lparr>allocs := bl, request_pending := request_pending st + 1\<rparr>"
  let ?agg = "\<lparr>request_count = worker_count jb, req_array = [], node_rank = [], temp_buffer = tb, original_buffer = ?p,
     buffer_size = sz, async_type = NONE, agg_tag = tag\<rparr>"
  have p: "SET_RIGHT_R_BUFFER ?st buf = ?p" by (simp add: SET_RIGHT_R_BUFFER_def)
  have src: "source \<noteq> MPI_ANY_SOURCE" using assms(1) by (auto simp: live_job_def MPI_ANY_SOURCE_def)
  have n: "new_agg_request alloc ?p sz (worker_count jb) ?st = (?agg\<lparr>agg_tag := 0\<rparr>, ?st2)"
    using assms(2,5) by (auto simp: new_agg_request_def block_for_def can_allocate_def c_malloc_def Let_def split: if_splits)
  have "live_job ?st2 source jb" using assms(1) by (simp add: live_job_def)
  then have "irecv_loop tln sp source tag ?agg (nat (worker_count jb)) None (as @ tr) ?st2 =
      Inr (Some MPI_SUCCESS, posted buf sz tag jb st tb, map (\<lambda>w. (w, SET_TAG w tag)) (workers jb), tr, ?st2)"
    using irecv_loop_live [of ?st2 source jb ?agg 0 "nat (worker_count jb)" as None] assms(1,3,4)
    by (simp add: posted_def live_job_def)
  then show ?thesis
    using assms(1) src n p by (simp add: MPI_Irecv_def live_job_def aget_nat some_or_Some guardE_True Let_def)
qed

section \<open>Waiting\<close>

lemma pick_first:
  assumes "i < length ss" and "\<forall>k < i. MPI_ERROR (ss ! k) \<noteq> MPI_SUCCESS" and "MPI_ERROR (ss ! i) = MPI_SUCCESS"
    and "0 \<le> MPI_SOURCE (ss ! i)" and "aget ign (MPI_SOURCE (ss ! i)) = Inr g" and "g \<noteq> 1"
  shows "pick ign ss b = Inr (Some (b + i, ss ! i))"
  using assms
proof (induction ss arbitrary: i b)
  case Nil
  then show ?case by simp
next
  case (Cons s ss)
  show ?case
  proof (cases i)
    case 0
    then show ?thesis using Cons.prems by simp
  next
    case (Suc k)
    have "MPI_ERROR s \<noteq> MPI_SUCCESS" using Cons.prems(2) Suc by auto
    moreover have "pick ign ss (Suc b) = Inr (Some (Suc b + k, ss ! k))"
      using Cons.prems Suc by (intro Cons.IH) auto
    ultimately show ?thesis using Suc by simp
  qed
qed

lemma pick_none: "\<forall>s \<in> set ss. MPI_ERROR s \<noteq> MPI_SUCCESS \<Longrightarrow> pick ign ss b = Inr None"
  by (induction ss arbitrary: b) auto

text \<open>A failure seen during the wait that the tables know and that spares process \<open>r\<close>.\<close>

definition spares :: "translation \<Rightarrow> failure option \<Rightarrow> int \<Rightarrow> 'a globals_scheme \<Rightarrow> bool" where
  "spares tln fl r st = (case fl of None \<Rightarrow> True
     | Some f \<Rightarrow> (proc_shrink_pending f \<or> error_class_proc_failed f) \<and> r \<notin> set (dead_ranks tln f) \<and>
         (\<forall>x \<in> set (dead_ranks tln f). x = MPI_UNDEFINED \<or> known_rank st x))"

lemma PMPI_Waitall_spares:
  assumes "spares tln (wfailure w) r st" and "ignore_process_failure st \<noteq> 0"
    and "0 \<le> r" "nat r < length (rank_ignore_list st)" "rank_ignore_list st ! nat r \<noteq> 1"
  shows "\<exists>st1. PMPI_Waitall tln sp agg w st = Inr st1 \<and>
     mem st1 = deliver (buffer_size agg) (req_array agg) (delivered w) (mem st) \<and> allocs st1 = allocs st \<and>
     request_pending st1 = request_pending st \<and> rank_2_job st1 = rank_2_job st \<and>
     (\<exists>g. aget (rank_ignore_list st1) r = Inr g \<and> g \<noteq> 1)"
proof (cases "wfailure w")
  case None
  then show ?thesis using assms(3-5) by (simp add: PMPI_Waitall_def aget_nat Let_def)
next
  case (Some f)
  let ?st1 = "st\<lparr>mem := deliver (buffer_size agg) (req_array agg) (delivered w) (mem st)\<rparr>"
  let ?st2 = "?st1\<lparr>last_group_failed := acked f, process_shrinking_pending := 1\<rparr>"
  let ?dead = "filter (\<lambda>r. r \<noteq> MPI_UNDEFINED) (dead_ranks tln f)"
  let ?ign = "fold (\<lambda>r l. l[nat r := 1]) ?dead (rank_ignore_list st)"
  have k: "proc_shrink_pending f \<or> error_class_proc_failed f" "r \<notin> set (dead_ranks tln f)"
      "\<forall>x \<in> set (dead_ranks tln f). x = MPI_UNDEFINED \<or> known_rank st x"
    using assms(1) Some by (auto simp: spares_def)
  have "ignore_failed (dead_ranks tln f) ?st2 = Inr (?st2\<lparr>rank_ignore_list := ?ign\<rparr>)"
    using ignore_failed_eq [of "dead_ranks tln f" ?st2] k(3) by (simp add: known_rank_def)
  then have w: "PMPI_Waitall tln sp agg w st = Inr (?st2\<lparr>rank_ignore_list := ?ign\<rparr>)"
    using assms(2) k(1) Some by (simp add: PMPI_Waitall_def rep_errhandler_def guardE_True Let_def dead_ranks_def)
  have "nat r \<notin> nat ` set ?dead" using k(2,3) assms(3) by (auto simp: known_rank_def nat_eq_iff)
  then have "?ign ! nat r = rank_ignore_list st ! nat r" using assms(4) by (simp add: fold_table)
  moreover have "length ?ign = length (rank_ignore_list st)"
    by simp
  ultimately show ?thesis using w assms(3-5) by (simp add: aget_nat)
qed

lemma free_posted:
  assumes "can_allocate alloc sz jb st" and "block_for alloc buf sz jb st = (tb, bl)" and "allocs st' = bl"
    and "request_count agg = worker_count jb" and "temp_buffer agg = tb" and "0 < worker_count jb"
  shows "free_agg_request agg st' = Inr (st'\<lparr>allocs := allocs st\<rparr>)"
proof (cases "worker_count jb = 1")
  case True
  then have "st' = st'\<lparr>allocs := allocs st\<rparr>" using assms(2,3) by (simp add: block_for_def Let_def)
  then show ?thesis using True assms(4) by (simp add: free_agg_request_def)
next
  case False
  have f: "fresh_block (allocs st) tb (sz * nat (worker_count jb))" "allocs st' = (tb, sz * nat (worker_count jb)) # allocs st"
    using False assms(1-3) by (auto simp: can_allocate_def block_for_def Let_def)
  then have "filter (\<lambda>(q, _). q \<noteq> tb) (allocs st') = allocs st"
    by (auto simp: fresh_block_def apart_def list_all_iff filter_id_conv)
  then show ?thesis
    using False f assms(4-6) by (auto simp: free_agg_request_def c_free_def fresh_block_def)
qed

text \<open>The answer of a wait in which slot \<open>i\<close> is the first good one and brings the bytes \<open>d\<close>.\<close>

definition first_good :: "Job \<Rightarrow> wait_answer \<Rightarrow> nat \<Rightarrow> byte list \<Rightarrow> bool" where
  "first_good jb w i d \<longleftrightarrow> length (statuses w) = nat (worker_count jb) \<and> length (delivered w) = nat (worker_count jb) \<and>
     i < nat (worker_count jb) \<and> (\<forall>k < i. MPI_ERROR (statuses w ! k) \<noteq> MPI_SUCCESS) \<and>
     MPI_ERROR (statuses w ! i) = MPI_SUCCESS \<and> MPI_SOURCE (statuses w ! i) = workers jb ! i \<and> delivered w ! i = Some d"

lemma wait_loop_first_good:
  assumes "live_job st source jb" and "first_good jb w i d" and "spares tln (wfailure w) (workers jb ! i) st"
    and "rank_2_job st = Some tbl" and "aget tbl (workers jb ! i) = Inr (Some source)"
    and "ignore_process_failure st \<noteq> 0" and "request_count agg = worker_count jb" and "trial_counter \<le> 4"
  shows "\<exists>st1. wait_loop tln sp agg trial_counter (w # ws) st = Inr ((i, statuses w ! i, source), ws, st1) \<and>
     mem st1 = deliver (buffer_size agg) (req_array agg) (delivered w) (mem st) \<and> allocs st1 = allocs st \<and>
     request_pending st1 = request_pending st"
proof -
  let ?r = "workers jb ! i"
  have i: "i < nat (worker_count jb)" and len: "length (statuses w) = nat (worker_count jb)"
    using assms(2) by (auto simp: first_good_def)
  have "?r \<in> set (workers jb)" using assms(1) i by (intro nth_mem) (simp add: workers_def live_job_def)
  then have r: "0 \<le> ?r" "nat ?r < length (rank_ignore_list st)" "rank_ignore_list st ! nat ?r \<noteq> 1"
    using assms(1) by (auto simp: live_job_def)
  obtain st1 g where w: "PMPI_Waitall tln sp agg w st = Inr st1"
      "mem st1 = deliver (buffer_size agg) (req_array agg) (delivered w) (mem st)" "allocs st1 = allocs st"
      "request_pending st1 = request_pending st" "rank_2_job st1 = rank_2_job st"
      "aget (rank_ignore_list st1) ?r = Inr g" "g \<noteq> 1"
    using PMPI_Waitall_spares [OF assms(3,6) r, of sp agg] by blast
  have "pick (rank_ignore_list st1) (statuses w) 0 = Inr (Some (0 + i, statuses w ! i))"
    using assms(2) r(1) w(6,7) by (intro pick_first [where g = g]) (auto simp: first_good_def)
  then show ?thesis
    using w assms(2,4,5,7,8) len by (auto simp: guardE_True some_or_Some first_good_def)
qed

lemma irecv_wait_state:
  assumes "live_job st source jb" and "can_allocate alloc sz jb st" and "length as = nat (worker_count jb)"
    and "list_all (\<lambda>a. astatus a = MPI_SUCCESS) as"
    and "first_good jb w i d" and "length d = sz" and "spares tln (wfailure w) (workers jb ! i) st"
    and "rank_2_job st = Some tbl" and "aget tbl (workers jb ! i) = Inr (Some source)"
    and "block_for alloc buf sz jb st = (tb, bl)"
  shows "\<exists>agg st1 st2. MPI_Irecv alloc tln sp buf sz source tag True (as @ tr) st =
       Inr (Some MPI_SUCCESS, agg, map (\<lambda>w. (w, SET_TAG w tag)) (workers jb), tr, st1) \<and>
     request_pending st1 = request_pending st + 1 \<and>
     MPI_Wait tln sp agg False (w # ws) st1 =
       Inr (MPI_SUCCESS, Some ((statuses w ! i)\<lparr>MPI_SOURCE := source\<rparr>), [], ws, st2) \<and>
     read_bytes (mem st2) (SET_RIGHT_R_BUFFER st buf) sz = d \<and>
     mem st2 = (let m = deliver sz (slots tb sz (nat (worker_count jb))) (delivered w) (mem st)
                in if worker_count jb \<noteq> 1 then write_bytes m (SET_RIGHT_R_BUFFER st buf) d else m) \<and>
     allocs st2 = allocs st \<and> request_pending st2 = request_pending st"
proof -
  note b = assms(10)
  let ?agg = "posted buf sz tag jb st tb" and ?n = "nat (worker_count jb)"
  let ?st1 = "st\<lparr>allocs := bl, request_pending := request_pending st + 1, ignore_process_failure := 0\<rparr>"
  let ?st2 = "?st1\<lparr>ignore_process_failure := 1\<rparr>"
  have i: "i < ?n" "length (delivered w) = ?n" "delivered w ! i = Some d" using assms(5) by (auto simp: first_good_def)
  have n: "0 < worker_count jb" using assms(1) by (simp add: live_job_def)
  have fit: "sz * ?n \<le> 2 ^ 64" using assms(2) by (auto simp: can_allocate_def fresh_block_def)
  have live: "live_job ?st2 source jb" "spares tln (wfailure w) (workers jb ! i) ?st2"
    using assms(1,7) by (simp_all add: live_job_def spares_def known_rank_def cong: option.case_cong)
  obtain st3 where w: "wait_loop tln sp ?agg 0 (w # ws) ?st2 = Inr ((i, statuses w ! i, source), ws, st3)"
      "mem st3 = deliver sz (slots tb sz ?n) (delivered w) (mem st)" "allocs st3 = bl"
      "request_pending st3 = request_pending st + 1"
    using wait_loop_first_good [OF live(1) assms(5) live(2), of tbl ?agg 0 sp ws] assms(8,9)
    by (auto simp: posted_def simp del: wait_loop.simps)
  have d: "read_bytes (mem st3) (tb + word_of_nat (i * sz)) sz = d"
    using read_deliver_slot [OF fit i(1,2,3) assms(6)] w(2) by simp
  let ?st4 = "if worker_count jb \<noteq> 1 then st3\<lparr>mem := write_bytes (mem st3) (SET_RIGHT_R_BUFFER st buf) d\<rparr> else st3"
  have "free_agg_request ?agg ?st4 = Inr (?st4\<lparr>allocs := allocs st\<rparr>)"
    using w(3) n by (intro free_posted [OF assms(2) b]) (simp_all add: posted_def)
  moreover have "req_array ?agg \<noteq> []" using n by (simp add: posted_def slots_def)
  ultimately have "MPI_Wait tln sp ?agg False (w # ws) ?st1 =
      Inr (MPI_SUCCESS, Some ((statuses w ! i)\<lparr>MPI_SOURCE := source\<rparr>), [], ws,
        ?st4\<lparr>allocs := allocs st, request_pending := request_pending st, ignore_process_failure := 0\<rparr>)"
    using w d n by (auto simp: MPI_Wait_def wait_for_agg_request_def blackhole_posts_def posted_def Let_def
        simp del: wait_loop.simps)
  moreover have "read_bytes (mem ?st4) (SET_RIGHT_R_BUFFER st buf) sz = d"
  proof (cases "worker_count jb = 1")
    case True
    then show ?thesis using d b i(1) by (simp add: block_for_def)
  next
    case False
    then show ?thesis using assms(2,6) by (simp add: read_write_bytes can_allocate_def)
  qed
  moreover have "mem ?st4 = (let m = deliver sz (slots tb sz ?n) (delivered w) (mem st)
      in if worker_count jb \<noteq> 1 then write_bytes m (SET_RIGHT_R_BUFFER st buf) d else m)"
    using w(2) by (simp add: Let_def)
  ultimately show ?thesis using MPI_Irecv_live [OF assms(1-4) b] by auto
qed

text \<open>
  C14: a nonblocking receive from a replicated job, completed by a wait that asks for the
  status. Even if some senders fail before or during the wait, as long as slot \<open>i\<close> is the
  first one to complete, \<open>MPI_Irecv\<close> followed by \<open>MPI_Wait\<close> returns success, the caller's
  buffer holds exactly the bytes received from that worker, the status names the job instead
  of the process, the temporary block is freed and the count of pending requests is back to
  what it was.
\<close>

theorem irecv_wait_delivers:
  assumes "live_job st source jb" and "can_allocate alloc sz jb st" and "length as = nat (worker_count jb)"
    and "list_all (\<lambda>a. astatus a = MPI_SUCCESS) as"
    and "first_good jb w i d" and "length d = sz" and "spares tln (wfailure w) (workers jb ! i) st"
    and "rank_2_job st = Some tbl" and "aget tbl (workers jb ! i) = Inr (Some source)"
  shows "\<exists>agg posts st1 st2. MPI_Irecv alloc tln sp buf sz source tag True (as @ tr) st = Inr (Some MPI_SUCCESS, agg, posts, tr, st1) \<and>
     request_pending st1 = request_pending st + 1 \<and>
     MPI_Wait tln sp agg False (w # ws) st1 =
       Inr (MPI_SUCCESS, Some ((statuses w ! i)\<lparr>MPI_SOURCE := source\<rparr>), [], ws, st2) \<and>
     read_bytes (mem st2) (SET_RIGHT_R_BUFFER st buf) sz = d \<and>
     allocs st2 = allocs st \<and> request_pending st2 = request_pending st"
proof -
  obtain tb bl where "block_for alloc buf sz jb st = (tb, bl)" by (cases "block_for alloc buf sz jb st")
  from irecv_wait_state [OF assms this] show ?thesis by blast
qed

text \<open>
  C15: the nonblocking receive is the blocking one. From the same state, for a live job whose
  workers all send the bytes \<open>d\<close>, \<open>MPI_Irecv\<close> followed by \<open>MPI_Wait\<close> and \<open>MPI_Recv\<close> both
  succeed and leave the same bytes at every address outside the slots of the temporary
  buffer (for a single worker there is none: the slot is the caller's buffer), although one
  of them goes through a copy and the other writes the buffer once per worker.
\<close>

theorem irecv_wait_equals_recv:
  assumes "live_job st source jb" and "can_allocate alloc sz jb st" and "length as = nat (worker_count jb)"
    and "list_all (\<lambda>a. astatus a = MPI_SUCCESS) as"
    and "first_good jb w i d" and "length d = sz" and "spares tln (wfailure w) (workers jb ! i) st"
    and "rank_2_job st = Some tbl" and "aget tbl (workers jb ! i) = Inr (Some source)"
    and "length bs = nat (worker_count jb)" and "list_all (\<lambda>b. astatus b = MPI_SUCCESS \<and> adata b = Some d) bs"
    and "receive_buffer st buf sz" and "fst (block_for alloc buf sz jb st) = tb"
  shows "\<exists>agg posts posts' status st1 st2 st3.
     MPI_Irecv alloc tln sp buf sz source tag True (as @ tr) st = Inr (Some MPI_SUCCESS, agg, posts, tr, st1) \<and>
     MPI_Wait tln sp agg False (w # ws) st1 = Inr (MPI_SUCCESS, status, [], ws, st2) \<and>
     MPI_Recv tln sp buf sz source tag True (bs @ tr) st = Inr (Some MPI_SUCCESS, posts', tr, st3) \<and> posts' = posts \<and>
     (\<forall>x. (worker_count jb = 1 \<or> (\<forall>k < nat (worker_count jb). sz \<le> unat (x - (tb + word_of_nat (k * sz))))) \<longrightarrow>
        mem st2 x = mem st3 x)"
proof -
  let ?n = "nat (worker_count jb)" and ?p = "SET_RIGHT_R_BUFFER st buf"
  obtain bl where b: "block_for alloc buf sz jb st = (tb, bl)" using assms(13) by (cases "block_for alloc buf sz jb st") auto
  let ?st3 = "st\<lparr>mem := write_bytes (mem st) ?p d, ignore_process_failure := 0\<rparr>"
  obtain agg st1 st2 where iw: "MPI_Irecv alloc tln sp buf sz source tag True (as @ tr) st =
      Inr (Some MPI_SUCCESS, agg, map (\<lambda>w. (w, SET_TAG w tag)) (workers jb), tr, st1)"
    "MPI_Wait tln sp agg False (w # ws) st1 = Inr (MPI_SUCCESS, Some ((statuses w ! i)\<lparr>MPI_SOURCE := source\<rparr>), [], ws, st2)"
    and m: "mem st2 = (let m = deliver sz (slots tb sz ?n) (delivered w) (mem st)
        in if worker_count jb \<noteq> 1 then write_bytes m ?p d else m)"
    using irecv_wait_state [OF assms(1-9) b] by blast
  have same: "mem st2 x = mem ?st3 x" if x: "worker_count jb = 1 \<or> (\<forall>k < ?n. sz \<le> unat (x - (tb + word_of_nat (k * sz))))" for x
  proof (cases "worker_count jb = 1")
    case True
    then have "delivered w = [Some d]" using assms(5) by (cases "delivered w") (auto simp: first_good_def)
    then show ?thesis using True b m assms(6) by (simp add: block_for_def slots_def deliver_def)
  next
    case False
    have "deliver sz (slots tb sz ?n) (delivered w) (mem st) x = mem st x"
      using x False by (intro deliver_other) (auto simp: slots_def simp del: of_nat_mult)
    then show ?thesis using False m by (simp add: write_bytes_def Let_def)
  qed
  show ?thesis using iw same MPI_Recv_live [OF assms(1,12,6,10,11)] by blast
qed


text \<open>Process 2, the first worker of job 1, dies while process 1 waits for its job; process 1 itself answers.\<close>

definition readme_wait :: wait_answer where
  "readme_wait = \<lparr>wresult = 75, wfailure = Some readme_failure,
     statuses = [\<lparr>MPI_SOURCE = 2, MPI_TAG = 307, MPI_ERROR = 75\<rparr>, \<lparr>MPI_SOURCE = 1, MPI_TAG = 207, MPI_ERROR = 0\<rparr>],
     delivered = [None, Some [5, 6]]\<rparr>"

lemma readme_receives:
  "live_job readme_world 1 (readme_jobs ! 1)" "can_allocate (\<lambda>_ _. 4096) 2 (readme_jobs ! 1) readme_world"
  "first_good (readme_jobs ! 1) readme_wait 1 [5, 6]" "workers (readme_jobs ! 1) = [2, 1]" "worker_count (readme_jobs ! 1) = 2"
  "spares group_translate (wfailure readme_wait) 1 readme_world" "allocs readme_world = []" "pass_receiver_cont_add readme_world = 0"
proof -
  show "allocs readme_world = []" "pass_receiver_cont_add readme_world = 0"
    by (simp_all add: readme_world_def globals.defs demo_globals_def process.defs demo_process_def heap.defs empty_heap_def)
  then show "can_allocate (\<lambda>_ _. 4096) 2 (readme_jobs ! 1) readme_world"
    by (simp add: can_allocate_def fresh_block_def readme_jobs_def)
  show "live_job readme_world 1 (readme_jobs ! 1)" "workers (readme_jobs ! 1) = [2, 1]" "worker_count (readme_jobs ! 1) = 2"
    by (simp_all add: live_job_def readme_sel readme_jobs_def workers_def)
  show "first_good (readme_jobs ! 1) readme_wait 1 [5, 6]"
    by (simp add: first_good_def readme_wait_def readme_jobs_def workers_def MPI_SUCCESS_def)
  show "spares group_translate (wfailure readme_wait) 1 readme_world"
    by (simp add: spares_def readme_wait_def readme_translation known_rank_def readme_sel readme_jobs_def)
      (simp add: readme_failure_def)
qed

theorem irecv_wait_delivers_witness:
  "\<exists>agg posts st1 st2. MPI_Irecv (\<lambda>_ _. 4096) group_translate any_split 64 2 1 7 True (replicate 2 (quiet_answer None)) readme_world =
       Inr (Some MPI_SUCCESS, agg, posts, [], st1) \<and>
     MPI_Wait group_translate any_split agg False [readme_wait] st1 =
       Inr (MPI_SUCCESS, Some \<lparr>MPI_SOURCE = 1, MPI_TAG = 207, MPI_ERROR = 0\<rparr>, [], [], st2) \<and>
     read_bytes (mem st2) 64 2 = [5, 6] \<and> request_pending st2 = request_pending readme_world"
proof -
  have s: "(statuses readme_wait ! 1)\<lparr>MPI_SOURCE := 1\<rparr> = \<lparr>MPI_SOURCE = 1, MPI_TAG = 207, MPI_ERROR = 0\<rparr>"
    "SET_RIGHT_R_BUFFER readme_world 64 = 64"
    by (simp_all add: readme_wait_def SET_RIGHT_R_BUFFER_def readme_receives)
  have "\<exists>agg posts st1 st2. MPI_Irecv (\<lambda>_ _. 4096) group_translate any_split 64 2 1 7 True
       (replicate 2 (quiet_answer None) @ []) readme_world = Inr (Some MPI_SUCCESS, agg, posts, [], st1) \<and>
     request_pending st1 = request_pending readme_world + 1 \<and>
     MPI_Wait group_translate any_split agg False [readme_wait] st1 =
       Inr (MPI_SUCCESS, Some ((statuses readme_wait ! 1)\<lparr>MPI_SOURCE := 1\<rparr>), [], [], st2) \<and>
     read_bytes (mem st2) (SET_RIGHT_R_BUFFER readme_world 64) 2 = [5, 6] \<and>
     allocs st2 = allocs readme_world \<and> request_pending st2 = request_pending readme_world"
    by (rule irecv_wait_delivers [OF readme_receives(1,2) _ _ readme_receives(3), where tbl = "[Some 0, Some 1, Some 1]"])
      (simp_all add: readme_receives readme_sel list_all_iff aget_nat del: One_nat_def)
  then show ?thesis unfolding s append_Nil2 by blast
qed

theorem irecv_wait_equals_recv_witness:
  "\<exists>agg posts posts' status st1 st2 st3.
     MPI_Irecv (\<lambda>_ _. 4096) group_translate any_split 64 2 1 7 True (replicate 2 (quiet_answer None) @ []) readme_world =
       Inr (Some MPI_SUCCESS, agg, posts, [], st1) \<and>
     MPI_Wait group_translate any_split agg False [readme_wait] st1 = Inr (MPI_SUCCESS, status, [], [], st2) \<and>
     MPI_Recv group_translate any_split 64 2 1 7 True (replicate 2 (quiet_answer (Some [5, 6])) @ []) readme_world =
       Inr (Some MPI_SUCCESS, posts', [], st3) \<and> posts' = posts \<and>
     (\<forall>x. (worker_count (readme_jobs ! 1) = 1 \<or> (\<forall>k < nat (worker_count (readme_jobs ! 1)).
         2 \<le> unat (x - (4096 + word_of_nat (k * 2))))) \<longrightarrow> mem st2 x = mem st3 x)"
  by (rule irecv_wait_equals_recv [OF readme_receives(1,2) _ _ readme_receives(3), where tbl = "[Some 0, Some 1, Some 1]"])
    (simp_all add: readme_receives readme_sel list_all_iff aget_nat receive_buffer_def block_for_def Let_def del: One_nat_def)

section \<open>Waiting without a status\<close>

text \<open>
  C36: with \<open>MPI_STATUS_IGNORE\<close> a receive from a job of several workers loses its data. The
  wait completes all slots and frees the temporary block, but the copy into the caller's
  buffer belongs to the other branch only: after \<open>MPI_Irecv\<close> and \<open>MPI_Wait\<close> the call returns
  what the library returned and the caller's buffer is what it was before, whatever was
  delivered.
\<close>

theorem wait_ignore_drops_data:
  assumes "live_job st source jb" and "can_allocate alloc sz jb st" and "length as = nat (worker_count jb)"
    and "list_all (\<lambda>a. astatus a = MPI_SUCCESS) as" and "1 < worker_count jb" and "wfailure w = None"
    and "\<forall>k < nat (worker_count jb). apart (alloc (allocs st) (sz * nat (worker_count jb)) + word_of_nat (k * sz)) sz
           (SET_RIGHT_R_BUFFER st buf) sz"
  shows "\<exists>agg posts st1 st2. MPI_Irecv alloc tln sp buf sz source tag True (as @ tr) st = Inr (Some MPI_SUCCESS, agg, posts, tr, st1) \<and>
     MPI_Wait tln sp agg True (w # ws) st1 = Inr (wresult w, None, [], ws, st2) \<and>
     read_bytes (mem st2) (SET_RIGHT_R_BUFFER st buf) sz = read_bytes (mem st) (SET_RIGHT_R_BUFFER st buf) sz \<and>
     allocs st2 = allocs st"
proof -
  obtain tb bl where b: "block_for alloc buf sz jb st = (tb, bl)" by (cases "block_for alloc buf sz jb st")
  let ?agg = "posted buf sz tag jb st tb" and ?n = "nat (worker_count jb)" and ?p = "SET_RIGHT_R_BUFFER st buf"
  let ?st1 = "st\<lparr>allocs := bl, request_pending := request_pending st + 1, ignore_process_failure := 0\<rparr>"
  let ?m = "deliver sz (slots tb sz ?n) (delivered w) (mem st)"
  let ?st2 = "?st1\<lparr>ignore_process_failure := 1, mem := ?m\<rparr>"
  have tb: "tb = alloc (allocs st) (sz * ?n)" using b assms(5) by (simp add: block_for_def Let_def)
  have "free_agg_request ?agg ?st2 = Inr (?st2\<lparr>allocs := allocs st\<rparr>)"
    using assms(5) by (intro free_posted [OF assms(2) b]) (simp_all add: posted_def)
  moreover have "req_array ?agg \<noteq> []" using assms(5) by (simp add: posted_def slots_def)
  ultimately have "MPI_Wait tln sp ?agg True (w # ws) ?st1 = Inr (wresult w, None, [], ws,
      ?st2\<lparr>allocs := allocs st, request_pending := request_pending st, ignore_process_failure := 0\<rparr>)"
    using assms(5,6) by (auto simp: MPI_Wait_def wait_for_agg_request_def PMPI_Waitall_def posted_def Let_def)
  moreover have "read_bytes ?m ?p sz = read_bytes (mem st) ?p sz"
  proof (rule read_deliver_apart)
    fix c assume "Some c \<in> set (slots tb sz ?n)"
    then show "apart c sz ?p sz" using assms(7) tb by (auto simp: slots_def simp del: of_nat_mult)
  qed
  ultimately show ?thesis using MPI_Irecv_live [OF assms(1-4) b] by auto
qed

theorem wait_ignore_drops_data_witness:
  "\<exists>agg posts st1 st2. MPI_Irecv (\<lambda>_ _. 4096) group_translate any_split 64 2 1 7 True (replicate 2 (quiet_answer None)) readme_world =
       Inr (Some MPI_SUCCESS, agg, posts, [], st1) \<and>
     MPI_Wait group_translate any_split agg True
       [\<lparr>wresult = 0, wfailure = None, statuses = [], delivered = [Some [5, 6], Some [5, 6]]\<rparr>] st1 = Inr (0, None, [], [], st2) \<and>
     read_bytes (mem st2) 64 2 = read_bytes (mem readme_world) 64 2"
proof -
  let ?w = "\<lparr>wresult = 0, wfailure = None, statuses = [], delivered = [Some [5, 6], Some [5, 6]]\<rparr>"
  have s: "SET_RIGHT_R_BUFFER readme_world 64 = 64" by (simp add: SET_RIGHT_R_BUFFER_def readme_receives)
  have ap: "\<forall>k < 2. apart (4096 + word_of_nat (k * 2)) 2 64 2"
    by (auto simp: apart_def dest!: less_2_cases)
  have "\<exists>agg posts st1 st2. MPI_Irecv (\<lambda>_ _. 4096) group_translate any_split 64 2 1 7 True
       (replicate 2 (quiet_answer None) @ []) readme_world = Inr (Some MPI_SUCCESS, agg, posts, [], st1) \<and>
     MPI_Wait group_translate any_split agg True [?w] st1 = Inr (wresult ?w, None, [], [], st2) \<and>
     read_bytes (mem st2) (SET_RIGHT_R_BUFFER readme_world 64) 2 = read_bytes (mem readme_world) (SET_RIGHT_R_BUFFER readme_world 64) 2 \<and>
     allocs st2 = allocs readme_world"
    by (rule wait_ignore_drops_data [OF readme_receives(1,2)])
      (use ap in \<open>simp_all add: readme_receives list_all_iff s del: One_nat_def of_nat_mult\<close>)
  then show ?thesis unfolding s append_Nil2 by auto
qed

section \<open>The number of attempts\<close>

text \<open>
  An answer the process can take: as many statuses as requests, each without a source or from
  a rank the tables know, and at most the death of processes the tables know.
\<close>

definition takes :: "translation \<Rightarrow> Aggregate_Request \<Rightarrow> 'a globals_scheme \<Rightarrow> wait_answer \<Rightarrow> bool" where
  "takes tln agg st w \<longleftrightarrow> nat (request_count agg) \<le> length (statuses w) \<and>
     (\<forall>s \<in> set (statuses w). MPI_SOURCE s < 0 \<or> known_rank st (MPI_SOURCE s)) \<and>
     (case wfailure w of None \<Rightarrow> True
      | Some f \<Rightarrow> (proc_shrink_pending f \<or> error_class_proc_failed f) \<and>
          (\<forall>x \<in> set (dead_ranks tln f). x = MPI_UNDEFINED \<or> known_rank st x))"

text \<open>An attempt in which no request succeeded.\<close>

definition all_failed :: "wait_answer \<Rightarrow> bool" where
  "all_failed w \<longleftrightarrow> list_all (\<lambda>s. MPI_SOURCE s < 0 \<or> MPI_ERROR s \<noteq> MPI_SUCCESS) (statuses w)"

lemma PMPI_Waitall_takes:
  assumes "takes tln agg st w" and "ignore_process_failure st \<noteq> 0"
  obtains st1 where "PMPI_Waitall tln sp agg w st = Inr st1" "ignore_process_failure st1 \<noteq> 0" "known_rank st1 = known_rank st"
proof (cases "wfailure w")
  case None
  let ?st1 = "st\<lparr>mem := deliver (buffer_size agg) (req_array agg) (delivered w) (mem st)\<rparr>"
  show ?thesis
    using None assms(2) by (intro that [of ?st1]) (simp_all add: PMPI_Waitall_def Let_def known_rank_def fun_eq_iff)
next
  case (Some f)
  let ?st1 = "st\<lparr>mem := deliver (buffer_size agg) (req_array agg) (delivered w) (mem st)\<rparr>"
  have "known_rank ?st1 = known_rank st" by (simp add: known_rank_def fun_eq_iff)
  then obtain ign where "rep_errhandler tln sp f (rep_mpi_comm_world (node ?st1)) ?st1 =
       Inr (?st1\<lparr>last_group_failed := acked f, process_shrinking_pending := 1, rank_ignore_list := ign\<rparr>)"
      "length ign = length (rank_ignore_list ?st1)"
    using rep_errhandler_defers [of f ?st1 tln sp] assms Some by (auto simp: takes_def)
  then show ?thesis
    using Some assms(2)
    by (intro that [of "?st1\<lparr>last_group_failed := acked f, process_shrinking_pending := 1, rank_ignore_list := ign\<rparr>"])
      (simp_all add: PMPI_Waitall_def Let_def known_rank_def fun_eq_iff)
qed

lemma pick_known:
  assumes "\<forall>s \<in> set ss. MPI_SOURCE s < 0 \<or> nat (MPI_SOURCE s) < length ign"
  obtains r where "pick ign ss b = Inr r" "\<And>i s. r = Some (i, s) \<Longrightarrow> s \<in> set ss \<and> 0 \<le> MPI_SOURCE s"
    "list_all (\<lambda>s. MPI_SOURCE s < 0 \<or> MPI_ERROR s \<noteq> MPI_SUCCESS) ss \<Longrightarrow> r = None"
proof -
  have "\<exists>r. pick ign ss b = Inr r \<and> (\<forall>i s. r = Some (i, s) \<longrightarrow> s \<in> set ss \<and> 0 \<le> MPI_SOURCE s) \<and>
      (list_all (\<lambda>s. MPI_SOURCE s < 0 \<or> MPI_ERROR s \<noteq> MPI_SUCCESS) ss \<longrightarrow> r = None)"
    using assms by (induction ss arbitrary: b) (auto simp: aget_nat, force+)
  then show ?thesis using that by blast
qed

text \<open>One attempt: the counter is looked at before the outcome.\<close>

lemma wait_attempt:
  assumes "takes tln agg st w" and "ignore_process_failure st \<noteq> 0"
  obtains st1 found where "ignore_process_failure st1 \<noteq> 0" "takes tln agg st1 = takes tln agg st" "all_failed w \<longrightarrow> found = None"
    "wait_loop tln sp agg t (w # ws) st = (if t > 4 then Inl (Exit_With 999)
       else case found of None \<Rightarrow> wait_loop tln sp agg (t + 1) ws st1 | Some x \<Rightarrow> Inr (x, ws, st1))"
proof -
  let ?ss = "take (nat (request_count agg)) (statuses w)"
  obtain st1 where w: "PMPI_Waitall tln sp agg w st = Inr st1" "ignore_process_failure st1 \<noteq> 0" "known_rank st1 = known_rank st"
    by (rule PMPI_Waitall_takes [OF assms])
  have k: "\<forall>s \<in> set ?ss. MPI_SOURCE s < 0 \<or> known_rank st1 (MPI_SOURCE s)"
    using assms(1) w(3) by (auto simp: takes_def dest: in_set_takeD)
  then have "\<forall>s \<in> set ?ss. MPI_SOURCE s < 0 \<or> nat (MPI_SOURCE s) < length (rank_ignore_list st1)"
    by (auto simp: known_rank_def)
  then obtain r where r: "pick (rank_ignore_list st1) ?ss 0 = Inr r" "\<And>i s. r = Some (i, s) \<Longrightarrow> s \<in> set ?ss \<and> 0 \<le> MPI_SOURCE s"
      "list_all (\<lambda>s. MPI_SOURCE s < 0 \<or> MPI_ERROR s \<noteq> MPI_SUCCESS) ?ss \<Longrightarrow> r = None"
    by (rule pick_known) blast
  have len: "nat (request_count agg) \<le> length (statuses w)" using assms(1) by (simp add: takes_def)
  have t: "takes tln agg st1 = takes tln agg st" by (rule ext) (simp add: takes_def w(3) split: option.split)
  show ?thesis
  proof (cases r)
    case None
    then show ?thesis using w r(1) len t by (intro that [of st1 None]) (simp_all add: guardE_True)
  next
    case (Some x)
    obtain i s where x: "x = (i, s)" by (cases x)
    have "known_rank st1 (MPI_SOURCE s)" using k r(2) Some x by fastforce
    then obtain tbl jid where tj: "rank_2_job st1 = Some tbl" "aget tbl (MPI_SOURCE s) = Inr (Some jid)"
      by (auto simp: known_rank_def aget_nat)
    have "\<not> all_failed w" using r(3) Some by (auto simp: all_failed_def list_all_iff dest: in_set_takeD)
    then show ?thesis
      using w r(1) len t tj Some x by (intro that [of st1 "Some (i, s, jid)"]) (simp_all add: guardE_True some_or_Some)
  qed
qed

lemma wait_loop_gives_up:
  assumes "list_all (takes tln agg st) (bad @ [w])" and "list_all all_failed bad" and "ignore_process_failure st \<noteq> 0"
    and "t + int (length bad) = 5"
  shows "wait_loop tln sp agg t (bad @ w # rest) st = Inl (Exit_With 999)"
  using assms
proof (induction bad arbitrary: t st)
  case Nil
  then have "takes tln agg st w" by simp
  then show ?case using Nil by (rule_tac wait_attempt [of tln agg st w sp t rest]) auto
next
  case (Cons b bad)
  then have b: "takes tln agg st b" by simp
  obtain st1 found where s: "ignore_process_failure st1 \<noteq> 0" "takes tln agg st1 = takes tln agg st" "all_failed b \<longrightarrow> found = None"
      "wait_loop tln sp agg t (b # bad @ w # rest) st = (if t > 4 then Inl (Exit_With 999)
        else case found of None \<Rightarrow> wait_loop tln sp agg (t + 1) (bad @ w # rest) st1 | Some x \<Rightarrow> Inr (x, bad @ w # rest, st1))"
    by (rule wait_attempt [OF b Cons.prems(3), of sp t "bad @ w # rest"])
  have "wait_loop tln sp agg (t + 1) (bad @ w # rest) st1 = Inl (Exit_With 999)"
    using Cons.prems s(1,2) by (intro Cons.IH) auto
  then show ?case using s(3,4) Cons.prems by simp
qed

text \<open>Whatever the answers are: at most five attempts lead to a result, and six are never too few.\<close>

lemma wait_loop_consumes:
  "wait_loop tln sp agg t ws st = Inr (x, ws', st') \<Longrightarrow> t \<le> 4 \<and> int (length ws) \<le> int (length ws') + (5 - t)"
proof (induction ws arbitrary: t st)
  case Nil
  then show ?case by simp
next
  case (Cons w ws)
  from Cons.prems obtain st1 found where f: "\<not> t > 4"
      "(case found of None \<Rightarrow> wait_loop tln sp agg (t + 1) ws st1 | Some x \<Rightarrow> Inr (x, ws, st1)) = Inr (x, ws', st')"
    unfolding wait_loop.simps by (elim bindE_E) (simp split: if_splits)
  then show ?case using Cons.IH [of "t + 1" st1] by (cases found) auto
qed

lemma pick_answers: "pick ign ss b \<noteq> Inl Short_Input"
  by (induction ss arbitrary: b) (auto simp: bindE_Inl_iff access_answers)

lemma PMPI_Waitall_answers: "PMPI_Waitall tln sp agg w st \<noteq> Inl Short_Input"
  by (simp add: PMPI_Waitall_def handler_answers Let_def split: option.splits)

lemma wait_loop_answers:
  fixes st :: "'a ulfm_scheme"
  shows "t \<le> 5 \<Longrightarrow> 6 - t \<le> int (length ws) \<Longrightarrow> wait_loop tln sp agg t ws st \<noteq> Inl Short_Input"
proof (induction ws arbitrary: t st)
  case Nil
  then show ?case by simp
next
  case (Cons w ws)
  then have "\<not> t > 4 \<Longrightarrow> wait_loop tln sp agg (t + 1) ws st1 \<noteq> Inl Short_Input" for st1 :: "'a ulfm_scheme"
    by simp
  then show ?case
    by (auto simp: bindE_Inl_iff access_answers pick_answers PMPI_Waitall_answers split: if_splits option.splits)
qed

lemma MPI_Wait_consumes:
  "MPI_Wait tln sp agg False ws st = Inr (s, status, posts, ws', st') \<Longrightarrow> length ws \<le> length ws' + 5"
  by (auto simp: MPI_Wait_def wait_for_agg_request_def bindE_eq_Inr_iff Let_def split: if_splits dest!: wait_loop_consumes)

lemma MPI_Wait_answers: "6 \<le> length ws \<Longrightarrow> MPI_Wait tln sp agg False ws st \<noteq> Inl Short_Input"
  using wait_loop_answers [of 0 ws tln sp agg]
  by (auto simp: MPI_Wait_def wait_for_agg_request_def blackhole_posts_def free_agg_request_def c_free_def bindE_Inl_iff
      access_answers Let_def split: if_splits)

text \<open>
  C38: \<open>MPI_Wait\<close> makes at most six attempts, and the sixth is of no use. Whatever the library
  answers, a call that asks for the status returns after at most five attempts or not at
  all, and six answers are never too few for it. The counter is tested after the outcome of
  an attempt is known but without looking at it: after five waits in which no request
  succeeded, be it because of deaths, the process exits with 999 whether the sixth one fails
  as well or brings the message.
\<close>

theorem wait_sixth_attempt_exits:
  assumes "length bad = 5" and "list_all (takes tln agg st) (bad @ [sixth])" and "list_all all_failed bad"
    and "request_count agg \<noteq> 0" and "req_array agg \<noteq> []"
  shows "MPI_Wait tln sp agg False (bad @ sixth # rest) st = Inl (Exit_With 999) \<and>
     (\<forall>ws. (6 \<le> length ws \<longrightarrow> MPI_Wait tln sp agg False ws st \<noteq> Inl Short_Input) \<and>
       (\<forall>s status posts ws' st'. MPI_Wait tln sp agg False ws st = Inr (s, status, posts, ws', st') \<longrightarrow>
          length ws \<le> length ws' + 5))"
proof -
  let ?st = "st\<lparr>ignore_process_failure := 1\<rparr>"
  have "known_rank ?st = known_rank st" by (simp add: known_rank_def fun_eq_iff)
  then have "takes tln agg ?st = takes tln agg st" by (intro ext) (simp add: takes_def split: option.split)
  then have "wait_loop tln sp agg 0 (bad @ sixth # rest) ?st = Inl (Exit_With 999)"
    using assms(1-3) by (intro wait_loop_gives_up) simp_all
  then have "MPI_Wait tln sp agg False (bad @ sixth # rest) st = Inl (Exit_With 999)"
    using assms(4,5) by (simp add: MPI_Wait_def wait_for_agg_request_def)
  then show ?thesis using MPI_Wait_consumes MPI_Wait_answers by blast
qed

text \<open>Process 2 dies and no request ever succeeds; the sixth answer is good or another failure.\<close>

theorem wait_sixth_attempt_exits_witness:
  "let failed = readme_wait\<lparr>statuses := replicate 2 \<lparr>MPI_SOURCE = 1, MPI_TAG = 207, MPI_ERROR = 75\<rparr>\<rparr>
   in \<forall>sixth \<in> {readme_wait, failed}. MPI_Wait group_translate any_split (posted 64 2 7 (readme_jobs ! 1) readme_world 4096) False
        (replicate 5 failed @ [sixth]) readme_world = Inl (Exit_With 999)"
  unfolding Let_def
proof (intro ballI wait_sixth_attempt_exits [THEN conjunct1])
  let ?failed = "readme_wait\<lparr>statuses := replicate 2 \<lparr>MPI_SOURCE = 1, MPI_TAG = 207, MPI_ERROR = 75\<rparr>\<rparr>"
  fix sixth
  assume s: "sixth \<in> {readme_wait, ?failed}"
  have k: "known_rank readme_world 1" "known_rank readme_world 2"
    by (simp_all add: known_rank_def readme_sel readme_jobs_def)
  show "list_all (takes group_translate (posted 64 2 7 (readme_jobs ! 1) readme_world 4096) readme_world)
      (replicate 5 ?failed @ [sixth])"
    using s k readme_receives(5,6)
    by (auto simp: takes_def list_all_iff readme_wait_def posted_def spares_def readme_translation)
  show "req_array (posted 64 2 7 (readme_jobs ! 1) readme_world 4096) \<noteq> []"
    using readme_receives(5) by (simp add: posted_def slots_def del: One_nat_def)
qed (use readme_receives(5) in \<open>simp_all add: all_failed_def list_all_iff posted_def MPI_SUCCESS_def del: One_nat_def\<close>)

end
