(* ===== verification/Update.thy ===== *)
theory Update
  imports Collectives Status_Files
begin

text \<open>
  \<open>is_file_update_set\<close> of \<open>src/replication/rep.c\<close>, which every collective calls first, and
  \<open>MPI_Init\<close> of \<open>src/mpi/init.c\<close>, which calls it to resume from a checkpoint. One poll finds
  out whether the map file is newer than the last one taken, waits until no request is
  pending anywhere, loads the map, splits the communicators, and, on a process that takes
  part, saves its registers, moves to a temporary stack, writes or restores a checkpoint or
  runs the replication, and jumps back to the registers that are in \<open>context\<close> by then.
\<close>

section \<open>One poll\<close>

definition TEMP_STACK_SIZE :: nat where "TEMP_STACK_SIZE = 20000000"
definition TEMP_STACK_BOTTOM_OFFSET :: nat where "TEMP_STACK_BOTTOM_OFFSET = 500"
definition MAX_REP :: int where "MAX_REP = 100"
definition MAX_CKPT :: int where "MAX_CKPT = 100"

text \<open>
  What one poll meets: the time of the map file and its text, the answer to the all-reduce
  over the pending requests (its sum in \<open>aflag\<close>), the registers \<open>setjmp\<close> saves, the process's
  rank in \<open>job_comm\<close> and the buffers broadcast to it there, and the values of uninitialised
  locals.
\<close>

record poll_env =
  map_mtime :: int
  map_text :: "string option"
  pending_sum :: answer
  cpu :: jmp_buf
  comm_rank :: nat
  incoming :: "byte list list"
  copy0 :: jmp_buf
  key0 :: int
  context0 :: Context
  size0 :: "32 word"
  container0 :: Malloc_container

text \<open>
  The parameters that stay the same: \<open>malloc\<close>, a bound on the walks over the registry, the
  file names that can be created, group translation and splitting of communicators.
\<close>

record platform =
  malloc_at :: allocator
  walk_fuel :: nat
  creatable :: "string \<Rightarrow> bool"
  translate_ranks :: translation
  comm_split :: splitter

text \<open>
  \<open>setjmp(context)\<close> returned 0: a copy of the context with its stack pointer in a fresh block.
  A failed \<open>malloc\<close> is not noticed; the jump then lands on a stack below address 0.
\<close>

definition setjmp_0 :: "platform \<Rightarrow> poll_env \<Rightarrow> 'a process_scheme \<Rightarrow> (address \<times> jmp_buf \<times> 'a process_scheme) result" where
  "setjmp_0 pl e st =
     (let st1 = st\<lparr>ctx := cpu e\<rparr>;
          copy_context = copy_jmp_buf (ctx st1) (copy0 e)
      in case c_malloc (malloc_at pl) TEMP_STACK_SIZE st1 of (newStack, st2) \<Rightarrow>
         bindE (guardE (newStack \<noteq> 0) Null_Deref) (\<lambda>_.
           Inr (newStack,
                setRSP (ptr_guard st2) copy_context
                  (newStack + word_of_nat TEMP_STACK_SIZE - word_of_nat TEMP_STACK_BOTTOM_OFFSET), st2)))"

text \<open>
  \<open>setjmp\<close> returned 1, on the temporary stack. \<open>init_ckpt\<close> and \<open>init_rep\<close> keep their times
  in arrays of fixed size, indexed by the counters.
\<close>

definition setjmp_1 :: "platform \<Rightarrow> poll_env \<Rightarrow> files \<Rightarrow> 'a globals_scheme \<Rightarrow> (files \<times> byte list list \<times> 'a globals_scheme) result" where
  "setjmp_1 pl e files st =
     (if ckpt_restore st = RESTORE_YES
      then bindE (init_ckpt_restore (malloc_at pl) files st) (\<lambda>st1. Inr (files, [], st1\<lparr>ckpt_restore := RESTORE_NO\<rparr>))
      else bindE (if node_checkpoint_master (node st) = YES
                  then bindE (guardE (0 \<le> ckpt_counter st \<and> ckpt_counter st < MAX_CKPT) Out_Of_Bounds) (\<lambda>_.
                       init_ckpt (creatable pl) (walk_fuel pl) files st)
                  else Inr (st, files)) (\<lambda>(st1, files1).
           if rep_flag st1 \<noteq> 0
           then bindE (guardE (0 \<le> rep_counter st1 \<and> rep_counter st1 < MAX_REP) Out_Of_Bounds) (\<lambda>_.
                bindE (init_rep (malloc_at pl) (walk_fuel pl) (context0 e) (size0 e) (container0 e)
                         (comm_rank e) (incoming e) st1) (\<lambda>(st2, _, tx). Inr (files1, tx, st2)))
           else Inr (files1, [], st1)))"

text \<open>
  The poll returns its value (\<open>None\<close>: the function ends without a \<open>return\<close>, after
  \<open>longjmp(context, 2)\<close>), the files, what it broadcast, and the state, whose \<open>ctx\<close> holds the
  registers the process goes on with.
\<close>

definition take_part :: "platform \<Rightarrow> poll_env \<Rightarrow> files \<Rightarrow> 'a globals_scheme \<Rightarrow>
    (int option \<times> files \<times> byte list list \<times> 'a globals_scheme) result" where
  "take_part pl e files st =
     bindE (setjmp_0 pl e st) (\<lambda>(newStack, _, st1).
     bindE (setjmp_1 pl e files st1) (\<lambda>(files1, tx, st2).
     bindE (c_free newStack st2) (\<lambda>st3. Inr (None, files1, tx, st3))))"

definition load_update :: "platform \<Rightarrow> poll_env \<Rightarrow> files \<Rightarrow> 'a globals_scheme \<Rightarrow> (files \<times> 'a globals_scheme) result" where
  "load_update pl e files st =
     bindE (parse_map_file (map_text e) st) (\<lambda>st1.
     let st2 = fst (create_migration_comm (comm_split pl) (key0 e) (update_comms (comm_split pl) st1));
         st3 = st2\<lparr>replication_idx := replication_idx st2 + 1\<rparr>;
         files1 = save_rep_and_stack_info (replication_idx st3) files st3
     in Inr (files1, st3\<lparr>rep_counter := rep_counter st3 + 1, ckpt_counter := ckpt_counter st3 + 1\<rparr>))"

definition is_file_update_set :: "platform \<Rightarrow> poll_env \<Rightarrow> files \<Rightarrow> 'a ulfm_scheme \<Rightarrow>
    (int option \<times> files \<times> byte list list \<times> 'a ulfm_scheme) result" where
  "is_file_update_set pl e files st =
     (case is_file_modified (map_mtime e) st of (modified, st0) \<Rightarrow>
      if modified = 0 then Inr (Some 0, files, [], st0)
      else bindE (call_on (translate_ranks pl) (comm_split pl) rep_mpi_comm_world (pending_sum e) st0) (\<lambda>st1.
           let global_request_status = (if astatus (pending_sum e) = MPI_SUCCESS then aflag (pending_sum e) else 1)
           in if global_request_status \<noteq> 0
              then Inr (Some 0, files, [], st1\<lparr>last_file_update := last_file_update st1 - 1\<rparr>)
              else bindE (load_update pl e files st1) (\<lambda>(files1, st2).
                   if rep_flag st2 = 0 \<and> node_checkpoint_master (node st2) = NO \<and> ckpt_restore st2 = RESTORE_NO
                   then Inr (Some 1, files1, [], st2)
                   else take_part pl e files1 st2)))"

section \<open>Initialisation\<close>

text \<open>
  \<open>size\<close> is the size of the world and \<open>my_rank\<close> the rank in it; \<open>dup\<close> is the duplicate of
  \<open>MPI_COMM_WORLD\<close>. Host name, process id and the junk of the local buffer are as in
  \<open>network_stat_init\<close>. The address of the block for swallowed messages is returned with the
  rest. The closing barrier has no effect on the data.
\<close>

definition MPI_Init :: "platform \<Rightarrow> poll_env \<Rightarrow> MPI_Comm \<Rightarrow> int \<Rightarrow> nat \<Rightarrow> byte list \<Rightarrow> 32 word \<Rightarrow> byte list \<Rightarrow> files \<Rightarrow>
    'a ulfm_scheme \<Rightarrow> (address \<times> files \<times> byte list list \<times> 'a ulfm_scheme) result" where
  "MPI_Init pl e dup my_rank sz host pid junk files st =
     (let st1 = st\<lparr>node := (node st)\<lparr>rep_mpi_comm_world := dup\<rparr>\<rparr>
      in bindE (init_node (comm_split pl) my_rank sz (map_text e) st1) (\<lambda>st2.
         let st3 = set_last_file_update (map_mtime e) st2;
             ckpt_restore_bit = does_ckpt_file_exists files st3;
             st4 = (if ckpt_restore_bit then st3\<lparr>ckpt_restore := RESTORE_YES\<rparr> else st3)
         in bindE (network_stat_init ''./network.stat'' host pid junk files st4) (\<lambda>files1.
            let st5 = st4\<lparr>replication_idx := 0\<rparr>;
                files2 = save_rep_and_stack_info (replication_idx st5) files1 st5
            in case c_malloc (malloc_at pl) 10000000 st5 of (blackhole_address, st6) \<Rightarrow>
               if ckpt_restore_bit
               then bindE (is_file_update_set pl e files2 st6) (\<lambda>(_, files3, tx, st7).
                      Inr (blackhole_address, files3, tx, st7))
               else Inr (blackhole_address, files2, [], st6))))"

section \<open>Deferred updates\<close>

primrec polls :: "platform \<Rightarrow> poll_env list \<Rightarrow> files \<Rightarrow> 'a ulfm_scheme \<Rightarrow>
    (int option list \<times> files \<times> byte list list \<times> 'a ulfm_scheme) result" where
  "polls pl [] files st = Inr ([], files, [], st)"
| "polls pl (e # es) files st =
     bindE (is_file_update_set pl e files st) (\<lambda>(r, files1, tx1, st1).
     bindE (polls pl es files1 st1) (\<lambda>(rs, files2, tx2, st2). Inr (r # rs, files2, tx1 @ tx2, st2)))"

text \<open>A poll that finds the new map while requests are still pending somewhere.\<close>

definition busy :: "int \<Rightarrow> poll_env \<Rightarrow> bool" where
  "busy t e \<longleftrightarrow> map_mtime e = t \<and> astatus (pending_sum e) = MPI_SUCCESS \<and> aflag (pending_sum e) \<noteq> 0"

lemma busy_poll:
  assumes "busy t e" and "ckpt_restore st = RESTORE_NO" and "last_file_update st < t"
  shows "is_file_update_set pl e files st = Inr (Some 0, files, [], st\<lparr>last_file_update := t - 1\<rparr>)"
  using assms by (simp add: busy_def is_file_update_set_def is_file_modified_def call_on_quiet)

lemma poll_after_busy:
  assumes "map_mtime e = t" and "ckpt_restore st = RESTORE_NO" and "last_file_update st < t"
  shows "is_file_update_set pl e files (st\<lparr>last_file_update := t - 1\<rparr>) = is_file_update_set pl e files st"
  using assms by (simp add: is_file_update_set_def is_file_modified_def)

text \<open>
  C17: a new map is neither lost nor taken too early. As long as requests are pending anywhere,
  every poll returns 0 and changes nothing but the remembered time, which it sets back so
  that the next poll finds the map again; the first poll with no request pending does exactly
  what it would have done as the very first one.
\<close>

theorem update_waits_for_requests:
  assumes "list_all (busy t) es" and "map_mtime e = t" and "ckpt_restore st = RESTORE_NO" and "last_file_update st < t"
    and "is_file_update_set pl e files st = Inr (r, files', tx, st')"
  shows "polls pl (es @ [e]) files st = Inr (replicate (length es) (Some 0) @ [r], files', tx, st')"
proof -
  have "polls pl (es @ [e]) files st1 = Inr (replicate (length es) (Some 0) @ [r], files', tx, st')"
    if "st1 = st \<or> st1 = st\<lparr>last_file_update := t - 1\<rparr>" for st1
    using assms(1) that
  proof (induction es arbitrary: st1)
    case Nil
    then show ?case using assms(2-5) poll_after_busy [of e t st pl files] by auto
  next
    case (Cons f es)
    have "is_file_update_set pl f files st1 = Inr (Some 0, files, [], st\<lparr>last_file_update := t - 1\<rparr>)"
      using Cons.prems assms(3,4) busy_poll [of t f st1 pl files] by auto
    then show ?case using Cons by simp
  qed
  then show ?thesis by simp
qed

section \<open>Loading a map leaves the process image alone\<close>

lemma parse_workers_frame:
  "parse_workers n jobs u j_id wc j w0 s st = Inr (st', s') \<Longrightarrow>
   \<exists>nd t jl. st' = st\<lparr>node := nd, rank_2_job := t, job_list := jl\<rparr>"
proof (induction n arbitrary: j w0 s st)
  case 0
  then show ?case by (intro exI [of _ "node st"] exI [of _ "rank_2_job st"] exI [of _ "job_list st"]) simp
next
  case (Suc n)
  from Suc.prems obtain s1 w t jl where "parse_workers n jobs u j_id wc (j + 1) (Some w) s1
      (st\<lparr>rank_2_job := Some t, node := assign_worker jobs u j_id wc j w (node st), job_list := jl\<rparr>) = Inr (st', s')"
    by (auto split: prod.splits elim!: bindE_E)
  from Suc.IH [OF this] show ?case by fastforce
qed

lemma parse_jobs_frame:
  "parse_jobs n jobs s st = Inr (st', s') \<Longrightarrow> \<exists>nd t jl. st' = st\<lparr>node := nd, rank_2_job := t, job_list := jl\<rparr>"
proof (induction n arbitrary: s st)
  case 0
  then show ?case by (intro exI [of _ "node st"] exI [of _ "rank_2_job st"] exI [of _ "job_list st"]) simp
next
  case (Suc n)
  from Suc.prems obtain wc u j_id s1 jl st1 s2 where
      w: "parse_workers (nat wc) jobs u j_id wc 0 None s1 (st\<lparr>job_list := jl\<rparr>) = Inr (st1, s2)"
      and j: "parse_jobs n jobs s2 st1 = Inr (st', s')"
    by (auto split: prod.splits elim!: bindE_E)
  obtain nd t jl' where "st1 = st\<lparr>node := nd, rank_2_job := t, job_list := jl'\<rparr>"
    using parse_workers_frame [OF w] by auto
  then show ?case using Suc.IH [OF j] by fastforce
qed

lemma parse_map_frame:
  assumes "parse_map_file file st = Inr st'"
  shows "\<exists>nd t jl. st' = st\<lparr>node := nd, rank_2_job := t, job_list := jl\<rparr>"
proof (cases "ckpt_restore st = RESTORE_YES")
  case True
  then show ?thesis using assms
    by (intro exI [of _ "node st"] exI [of _ "rank_2_job st"] exI [of _ "job_list st"]) (simp add: parse_map_file_def)
next
  case False
  obtain n jobs s t nd jl s' where "parse_jobs n jobs s (st\<lparr>node := nd, rank_2_job := t, job_list := jl\<rparr>) = Inr (st', s')"
    using assms False by (auto simp: parse_map_file_def Let_def split: option.splits prod.splits elim!: bindE_E)
  from parse_jobs_frame [OF this] show ?thesis by fastforce
qed

text \<open>What \<open>load_update\<close> does to a process that is worker \<open>i\<close> of the modified job \<open>k\<close>.\<close>

definition updated :: "Node \<Rightarrow> int option list option \<Rightarrow> Job option list \<Rightarrow> MPI_Comm \<Rightarrow> int \<Rightarrow> 'a globals_scheme \<Rightarrow> 'a globals_scheme" where
  "updated nd t jl jc f st = st\<lparr>node := nd, rank_2_job := t, job_list := jl, job_comm := jc, rep_flag := f,
     replication_idx := replication_idx st + 1, rep_counter := rep_counter st + 1, ckpt_counter := ckpt_counter st + 1\<rparr>"

definition newcomer :: "nat \<Rightarrow> JobMap \<Rightarrow> nat \<Rightarrow> 'a globals_scheme \<Rightarrow> bool" where
  "newcomer k jm i st \<longleftrightarrow> k < length jm \<and> i < length (ranks (jm ! k)) \<and> ranks (jm ! k) ! i = rank (node st) \<and> Modified (jm ! k) = 1"

lemma load_update_written:
  assumes "valid_map jm" and "ckpt_restore st = RESTORE_NO" and "old_map_ok (length (all_ranks jm)) st"
    and "map_text e = Some (WriteToFile jm)" and "newcomer k jm i st"
  obtains nd t jl jc f files1 where "load_update pl e files st = Inr (files1, updated nd t jl jc f st)"
    "\<And>name. name \<noteq> STACK_REP_INFO_FILE_NAME \<Longrightarrow> files1 name = files name"
    "job_id nd = int k" "rank nd = rank (node st)" "node_checkpoint_master nd = (if i = 0 then YES else NO)"
    "node_transit_state nd = (if job_id (node st) \<noteq> int k then NODE_DATA_RECEIVER
       else if i = 0 \<and> 1 < length (RankList (jm ! k)) then NODE_DATA_SENDER else NODE_DATA_NONE)"
    "f = (if node_transit_state nd \<noteq> NODE_DATA_NONE then 1 else 0)"
proof -
  obtain st1 where p: "parse_map_file (Some (WriteToFile jm)) st = Inr st1" "map_loaded jm st st1"
    using parse_map_loads [OF assms(1-3)] by blast
  obtain nd t jl where st1: "st1 = st\<lparr>node := nd, rank_2_job := t, job_list := jl\<rparr>" using parse_map_frame [OF p(1)] by blast
  have "nd = role (int (length jm)) 1 k (int (length (RankList (jm ! k)))) i (node st)"
    using p(2) assms(5) st1 by (auto simp: map_loaded_def newcomer_def)
  moreover define n2 where "n2 = node (update_comms (comm_split pl) st1)"
  ultimately have nd: "job_id n2 = int k" "rank n2 = rank (node st)" "node_checkpoint_master n2 = (if i = 0 then YES else NO)"
    "node_transit_state n2 = (if job_id (node st) \<noteq> int k then NODE_DATA_RECEIVER
       else if i = 0 \<and> 1 < length (RankList (jm ! k)) then NODE_DATA_SENDER else NODE_DATA_NONE)"
    by (auto simp: role_def update_comms_def Let_def st1)
  let ?f = "if node_transit_state n2 \<noteq> NODE_DATA_NONE then 1 else 0 :: int"
  let ?jc = "comm_split pl 2 (rep_mpi_comm_world n2) (migration_request (key0 e) n2)"
  let ?st = "updated n2 t jl ?jc ?f st"
  have "fst (create_migration_comm (comm_split pl) (key0 e) (update_comms (comm_split pl) st1)) =
      st\<lparr>node := n2, rank_2_job := t, job_list := jl, job_comm := ?jc, rep_flag := ?f\<rparr>"
    using assms(2) by (simp add: create_migration_comm_def n2_def update_comms_def st1 Let_def)
  then have l: "load_update pl e files st = Inr (save_rep_and_stack_info (replication_idx st + 1) files
      (st\<lparr>node := n2, rank_2_job := t, job_list := jl, job_comm := ?jc, rep_flag := ?f, replication_idx := replication_idx st + 1\<rparr>), ?st)"
    using p(1) assms(4) by (simp add: load_update_def updated_def Let_def)
  show ?thesis
    by (rule that [OF l _ nd refl]) (simp add: save_rep_and_stack_info_def file_write_at_def Let_def)
qed

section \<open>An update from both sides\<close>

definition temp_block :: "platform \<Rightarrow> 'a memory_scheme \<Rightarrow> address" where
  "temp_block pl st = malloc_at pl (allocs st) TEMP_STACK_SIZE"

definition switched :: "platform \<Rightarrow> poll_env \<Rightarrow> 'a process_scheme \<Rightarrow> 'a process_scheme" where
  "switched pl e st = st\<lparr>ctx := cpu e, allocs := (temp_block pl st, TEMP_STACK_SIZE) # allocs st\<rparr>"

definition can_switch :: "platform \<Rightarrow> 'a memory_scheme \<Rightarrow> bool" where
  "can_switch pl st \<longleftrightarrow> fresh_block (allocs st) (temp_block pl st) TEMP_STACK_SIZE"

lemma setjmp_0_switches:
  assumes "can_switch pl st"
  shows "\<exists>c. setjmp_0 pl e st = Inr (temp_block pl st, c, switched pl e st)"
  using assms
  by (auto simp: setjmp_0_def c_malloc_def can_switch_def temp_block_def switched_def fresh_block_def guardE_True Let_def)

lemma free_temp_block:
  assumes "can_switch pl st" and "temp_block pl st \<in> fst ` set (allocs st')"
  shows "c_free (temp_block pl st) st' = Inr (freed (temp_block pl st) st')"
  using assms by (intro c_free_live) (auto simp: can_switch_def fresh_block_def)

text \<open>A process that takes the new map \<open>jm\<close> in this poll.\<close>

definition takes_map :: "platform \<Rightarrow> poll_env \<Rightarrow> JobMap \<Rightarrow> 'a ulfm_scheme \<Rightarrow> bool" where
  "takes_map pl e jm st \<longleftrightarrow> ckpt_restore st = RESTORE_NO \<and> last_file_update st < map_mtime e \<and>
     astatus (pending_sum e) = MPI_SUCCESS \<and> aflag (pending_sum e) = 0 \<and>
     map_text e = Some (WriteToFile jm) \<and> valid_map jm \<and> old_map_ok (length (all_ranks jm)) st \<and> can_switch pl st"

text \<open>The counters count from -1; the arrays of times have room for this update.\<close>

definition timers_left :: "'a globals_scheme \<Rightarrow> bool" where
  "timers_left st \<longleftrightarrow> 0 \<le> rep_counter st + 1 \<and> rep_counter st + 1 < MAX_REP \<and> 0 \<le> ckpt_counter st + 1 \<and> ckpt_counter st + 1 < MAX_CKPT"

text \<open>The poll of a process that has a part in the update, up to the work on the temporary stack.\<close>

lemma poll_takes_part:
  assumes "takes_map pl e jm st" and "newcomer k jm i st"
    and "job_id (node st) \<noteq> int k \<or> i = 0"
  obtains nd t jl jc f files1 st1 where "st1 = updated nd t jl jc f (st\<lparr>last_file_update := map_mtime e\<rparr>)"
    "\<forall>rx. is_file_update_set pl (e\<lparr>incoming := rx\<rparr>) files st =
       bindE (setjmp_1 pl (e\<lparr>incoming := rx\<rparr>) files1 (switched pl e st1)) (\<lambda>(files2, tx, st2).
       bindE (c_free (temp_block pl st) st2) (\<lambda>st3. Inr (None, files2, tx, st3)))"
    "job_id nd = int k" "rank nd = rank (node st)" "node_checkpoint_master nd = (if i = 0 then YES else NO)"
    "node_transit_state nd = (if job_id (node st) \<noteq> int k then NODE_DATA_RECEIVER
       else if 1 < length (RankList (jm ! k)) then NODE_DATA_SENDER else NODE_DATA_NONE)"
    "f = (if node_transit_state nd \<noteq> NODE_DATA_NONE then 1 else 0)"
proof -
  let ?st = "st\<lparr>last_file_update := map_mtime e\<rparr>"
  have h: "valid_map jm" "ckpt_restore ?st = RESTORE_NO" "old_map_ok (length (all_ranks jm)) ?st"
      "map_text e = Some (WriteToFile jm)" "newcomer k jm i ?st"
    using assms(1,2) by (simp_all add: takes_map_def old_map_ok_def newcomer_def)
  obtain nd t jl jc f files1 where l: "load_update pl e files ?st = Inr (files1, updated nd t jl jc f ?st)"
      and nd: "job_id nd = int k" "rank nd = rank (node ?st)" "node_checkpoint_master nd = (if i = 0 then YES else NO)"
        "node_transit_state nd = (if job_id (node ?st) \<noteq> int k then NODE_DATA_RECEIVER
           else if i = 0 \<and> 1 < length (RankList (jm ! k)) then NODE_DATA_SENDER else NODE_DATA_NONE)"
        "f = (if node_transit_state nd \<noteq> NODE_DATA_NONE then 1 else 0)"
    by (rule load_update_written [OF h, of pl files])
  let ?st1 = "updated nd t jl jc f ?st"
  have "can_switch pl ?st1" "temp_block pl ?st1 = temp_block pl st"
    using assms(1) by (simp_all add: takes_map_def can_switch_def temp_block_def updated_def)
  then obtain c where "setjmp_0 pl e ?st1 = Inr (temp_block pl st, c, switched pl e ?st1)"
    using setjmp_0_switches by metis
  then have sw: "setjmp_0 pl (e\<lparr>incoming := rx\<rparr>) ?st1 = Inr (temp_block pl st, c, switched pl e ?st1)" for rx
    by (simp add: setjmp_0_def)
  have l': "load_update pl (e\<lparr>incoming := rx\<rparr>) files ?st = Inr (files1, ?st1)" for rx
    using l by (simp add: load_update_def)
  have part: "\<not> (rep_flag ?st1 = 0 \<and> node_checkpoint_master (node ?st1) = NO \<and> ckpt_restore ?st1 = RESTORE_NO)"
    using assms(3) nd by (auto simp: updated_def split: if_splits)
  have "is_file_update_set pl (e\<lparr>incoming := rx\<rparr>) files st = take_part pl (e\<lparr>incoming := rx\<rparr>) files1 ?st1" for rx
    using assms(1) l' [of rx] part by (auto simp: is_file_update_set_def is_file_modified_def takes_map_def call_on_quiet)
  then have eq: "is_file_update_set pl (e\<lparr>incoming := rx\<rparr>) files st =
      bindE (setjmp_1 pl (e\<lparr>incoming := rx\<rparr>) files1 (switched pl e ?st1)) (\<lambda>(files2, tx, st2).
      bindE (c_free (temp_block pl st) st2) (\<lambda>st3. Inr (None, files2, tx, st3)))" for rx
    by (simp add: take_part_def sw)
  have ts: "node_transit_state nd = (if job_id (node st) \<noteq> int k then NODE_DATA_RECEIVER
      else if 1 < length (RankList (jm ! k)) then NODE_DATA_SENDER else NODE_DATA_NONE)"
    using nd(4) assms(3) by auto
  have "rank nd = rank (node st)" using nd(2) by simp
  then show ?thesis by (rule that [OF refl allI [OF eq] nd(1) _ nd(3) ts nd(5)])
qed

text \<open>Up to the replication: the sender has written its checkpoint, the receiver waits for data.\<close>

definition ready :: "platform \<Rightarrow> poll_env \<Rightarrow> 'a ulfm_scheme \<Rightarrow> NodeTransitState \<Rightarrow> nat \<Rightarrow> 'a ulfm_scheme \<Rightarrow> bool" where
  "ready pl e st ts k st1 \<longleftrightarrow> (\<exists>nd t jl jc a. st1 = switched pl e (updated nd t jl jc 1 (st\<lparr>last_file_update := map_mtime e\<rparr>))
     \<lparr>stackLowerAddress := a\<rparr> \<and> node_transit_state nd = ts \<and> job_id nd = int k \<and> rank nd = rank (node st))"

lemma heap_sender_switched:
  assumes "heap_sender st as"
  shows "heap_sender (switched pl e (updated nd t jl jc f (st\<lparr>last_file_update := m\<rparr>))) as"
  using assms by (auto simp: heap_sender_def registry_def entries_def switched_def updated_def list_all_iff)

lemma ready_sender:
  assumes "ready pl e st ts k st1" and "heap_sender st as"
  shows "heap_sender st1 as" "entries st1 as = entries st as"
  using assms by (auto simp: ready_def heap_sender_def registry_def entries_def switched_def updated_def list_all_iff)

text \<open>What the replication sees of a process that is ready: its own image with the new registers.\<close>

lemma ready_fields:
  assumes "ready pl e st ts k st1"
  shows "mem st1 = mem st" "ctx st1 = cpu e" "ptr_guard st1 = ptr_guard st" "node_transit_state (node st1) = ts"
    "job_id (node st1) = int k" "rank (node st1) = rank (node st)"
    "allocs st1 = (temp_block pl st, TEMP_STACK_SIZE) # allocs st" "live_size st1 = live_size (st\<lparr>ctx := cpu e\<rparr>)"
    "live_low st1 = live_low (st\<lparr>ctx := cpu e\<rparr>)"
    "in_image st1 x = in_image (st\<lparr>ctx := cpu e\<rparr>) x" "small_segments st1 = small_segments st"
    "malloc_number_of_allocations st1 = malloc_number_of_allocations st"
    "pass_sender_cont_add st1 = pass_sender_cont_add st" "pass_receiver_cont_add st1 = pass_receiver_cont_add st"
  using assms by (auto simp: ready_def switched_def updated_def temp_block_def live_size_def live_low_def in_image_def
      small_segments_def data_size_def bss_size_def)

lemma ready_layout:
  "ready pl e s ts k s1 \<Longrightarrow> ready pl e' r ts' k s2 \<Longrightarrow> same_layout s1 s2 = same_layout s r"
  by (auto simp: ready_def switched_def updated_def same_layout_def)

lemma receiver_polls:
  assumes "takes_map pl e jm st" and "newcomer k jm i st" and "job_id (node st) \<noteq> int k" and "i \<noteq> 0" and "timers_left st"
  obtains st1 files1 where "ready pl e st NODE_DATA_RECEIVER k st1"
    "\<forall>rx. is_file_update_set pl (e\<lparr>incoming := rx\<rparr>) files st =
       bindE (init_rep (malloc_at pl) (walk_fuel pl) (context0 e) (size0 e) (container0 e) (comm_rank e) rx st1) (\<lambda>(st2, _, tx).
       bindE (c_free (temp_block pl st) st2) (\<lambda>st3. Inr (None, files1, tx, st3)))"
proof -
  obtain nd t jl jc f files1 st1 where st1: "st1 = updated nd t jl jc f (st\<lparr>last_file_update := map_mtime e\<rparr>)"
      "\<forall>rx. is_file_update_set pl (e\<lparr>incoming := rx\<rparr>) files st =
         bindE (setjmp_1 pl (e\<lparr>incoming := rx\<rparr>) files1 (switched pl e st1)) (\<lambda>(files2, tx, st2).
         bindE (c_free (temp_block pl st) st2) (\<lambda>st3. Inr (None, files2, tx, st3)))"
      and nd: "job_id nd = int k" "rank nd = rank (node st)" "node_checkpoint_master nd = (if i = 0 then YES else NO)"
        "node_transit_state nd = (if job_id (node st) \<noteq> int k then NODE_DATA_RECEIVER
           else if 1 < length (RankList (jm ! k)) then NODE_DATA_SENDER else NODE_DATA_NONE)"
        "f = (if node_transit_state nd \<noteq> NODE_DATA_NONE then 1 else 0)"
    by (rule poll_takes_part [OF assms(1,2) disjI1 [OF assms(3)], of files])
  have f: "f = 1" "node_transit_state nd = NODE_DATA_RECEIVER" "node_checkpoint_master nd = NO" using nd assms(3,4) by simp_all
  have rd: "ready pl e st NODE_DATA_RECEIVER k (switched pl e st1)"
    unfolding ready_def using nd(1,2) f st1(1)
    by (intro exI [of _ nd] exI [of _ t] exI [of _ jl] exI [of _ jc] exI [of _ "stackLowerAddress st"])
      (simp add: switched_def updated_def temp_block_def)
  have "setjmp_1 pl (e\<lparr>incoming := rx\<rparr>) files1 (switched pl e st1) =
      bindE (init_rep (malloc_at pl) (walk_fuel pl) (context0 e) (size0 e) (container0 e) (comm_rank e) rx (switched pl e st1))
        (\<lambda>(st2, _, tx). Inr (files1, tx, st2))" for rx
    using assms(1,5) f st1(1) by (simp add: setjmp_1_def switched_def updated_def takes_map_def timers_left_def guardE_True)
  then have "\<forall>rx. is_file_update_set pl (e\<lparr>incoming := rx\<rparr>) files st =
      bindE (init_rep (malloc_at pl) (walk_fuel pl) (context0 e) (size0 e) (container0 e) (comm_rank e) rx (switched pl e st1))
        (\<lambda>(st2, _, tx). bindE (c_free (temp_block pl st) st2) (\<lambda>st3. Inr (None, files1, tx, st3)))"
    using st1(2) by (auto simp: bindE_assoc split_def)
  with rd show ?thesis by (rule that)
qed

lemma sender_polls:
  assumes "takes_map pl e jm st" and "newcomer k jm 0 st" and "job_id (node st) = int k" and "1 < length (RankList (jm ! k))"
    and "live_size (st\<lparr>ctx := cpu e\<rparr>) < 2147483648" and "creatable pl (CKPT_FILE_NAME (int k))"
    and "heap_sender st as" and "length as < walk_fuel pl" and "timers_left st"
  obtains st1 files1 where "ready pl e st NODE_DATA_SENDER k st1" "files1 (CKPT_FILE_NAME (int k)) \<noteq> None"
    "\<forall>rx. is_file_update_set pl (e\<lparr>incoming := rx\<rparr>) files st =
       bindE (init_rep (malloc_at pl) (walk_fuel pl) (context0 e) (size0 e) (container0 e) (comm_rank e) rx st1) (\<lambda>(st2, _, tx).
       bindE (c_free (temp_block pl st) st2) (\<lambda>st3. Inr (None, files1, tx, st3)))"
proof -
  obtain nd t jl jc f files1 st1 where st1: "st1 = updated nd t jl jc f (st\<lparr>last_file_update := map_mtime e\<rparr>)"
      "\<forall>rx. is_file_update_set pl (e\<lparr>incoming := rx\<rparr>) files st =
         bindE (setjmp_1 pl (e\<lparr>incoming := rx\<rparr>) files1 (switched pl e st1)) (\<lambda>(files2, tx, st2).
         bindE (c_free (temp_block pl st) st2) (\<lambda>st3. Inr (None, files2, tx, st3)))"
      and nd: "job_id nd = int k" "rank nd = rank (node st)" "node_checkpoint_master nd = (if (0::nat) = 0 then YES else NO)"
        "node_transit_state nd = (if job_id (node st) \<noteq> int k then NODE_DATA_RECEIVER
           else if 1 < length (RankList (jm ! k)) then NODE_DATA_SENDER else NODE_DATA_NONE)"
        "f = (if node_transit_state nd \<noteq> NODE_DATA_NONE then 1 else 0)"
    by (rule poll_takes_part [OF assms(1,2) disjI2 [OF refl], of files])
  have f: "f = 1" "node_transit_state nd = NODE_DATA_SENDER" "node_checkpoint_master nd = YES" using nd assms(3,4) by simp_all
  let ?s = "switched pl e st1" and ?file = "CKPT_FILE_NAME (int k)"
  let ?S = "?s\<lparr>stackLowerAddress := live_low ?s\<rparr>"
  have "live_size ?s < 2147483648" "creatable pl (CKPT_FILE_NAME (job_id (node ?s)))"
    using assms(5,6) nd(1) by (simp_all add: st1 switched_def updated_def live_size_def live_low_def)
  moreover have "heap_sender ?s as" unfolding st1(1) by (rule heap_sender_switched) (rule assms(7))
  ultimately obtain fs where "\<And>files. init_ckpt (creatable pl) (walk_fuel pl) files ?s = Inr (?S, files(CKPT_FILE_NAME (job_id (node ?s)) \<mapsto> fs))"
    using init_ckpt_saves [of ?s "creatable pl" as "walk_fuel pl"] assms(8) by blast
  moreover have "job_id (node ?s) = int k" using nd(1) by (simp add: st1 switched_def updated_def)
  ultimately have ck: "init_ckpt (creatable pl) (walk_fuel pl) files ?s = Inr (?S, files(?file \<mapsto> fs))" for files by simp
  have rd: "ready pl e st NODE_DATA_SENDER k ?S"
    unfolding ready_def using nd(1,2) f st1(1)
    by (intro exI [of _ nd] exI [of _ t] exI [of _ jl] exI [of _ jc] exI [of _ "live_low ?s"]) simp
  have "setjmp_1 pl (e\<lparr>incoming := rx\<rparr>) files1 ?s =
      bindE (init_rep (malloc_at pl) (walk_fuel pl) (context0 e) (size0 e) (container0 e) (comm_rank e) rx ?S)
        (\<lambda>(st2, _, tx). Inr (files1(?file \<mapsto> fs), tx, st2))" for rx
  proof -
    have "ckpt_restore ?s = RESTORE_NO" "node_checkpoint_master (node ?s) = YES" "0 \<le> ckpt_counter ?s \<and> ckpt_counter ?s < MAX_CKPT"
      "rep_flag ?S = 1" "0 \<le> rep_counter ?S \<and> rep_counter ?S < MAX_REP"
      using assms(1,9) f by (simp_all add: st1 switched_def updated_def takes_map_def timers_left_def)
    then show ?thesis by (simp add: setjmp_1_def guardE_True ck)
  qed
  then have "\<forall>rx. is_file_update_set pl (e\<lparr>incoming := rx\<rparr>) files st =
      bindE (init_rep (malloc_at pl) (walk_fuel pl) (context0 e) (size0 e) (container0 e) (comm_rank e) rx ?S)
        (\<lambda>(st2, _, tx). bindE (c_free (temp_block pl st) st2) (\<lambda>st3. Inr (None, files1(?file \<mapsto> fs), tx, st3)))"
    using st1(2) by (auto simp: bindE_assoc split_def)
  then show ?thesis by (rule that [OF rd, rotated]) simp
qed

text \<open>
  C1: a new replica comes into being. The manager has written a map in which job \<open>k\<close> is
  modified; process \<open>s\<close>, already in the job, is its first worker, and process \<open>r\<close>, from another
  job, is a further one. Both poll, with no request pending and all conditions of the
  replication met, the sender as root of the migration communicator. Then both polls run to
  the end: the sender writes its checkpoint, the receiver consumes exactly what the sender
  broadcast and becomes a replica of it (registers, data, stack, heap, framework flags), each
  is back on its own stack with the temporary one freed, and the receiver keeps its rank and
  is now in job \<open>k\<close>.
\<close>

theorem update_replicates:
  assumes s: "takes_map pl es jm s" "newcomer k jm 0 s" "job_id (node s) = int k" "comm_rank es = 0" "incoming es = []"
    and r: "takes_map pl er jm r" "newcomer k jm i r" "job_id (node r) \<noteq> int k" "i \<noteq> 0" "comm_rank er \<noteq> 0"
    and same: "context0 er = context0 es" "size0 er = size0 es" "container0 er = container0 es"
    and timers: "timers_left s" "timers_left r"
    and layout: "same_layout s r" and wf: "wf_jmp_buf (cpu er)"
    and small: "small_segments s" "live_size (s\<lparr>ctx := cpu es\<rparr>) < 2147483648"
    and fil: "creatable pl (CKPT_FILE_NAME (int k))"
    and hs: "heap_sender s as" "length as < walk_fuel pl"
    and hr: "owns r bs" "heap_receiver (malloc_at pl) (entries s as) (switched pl er r) bs" "length bs < walk_fuel pl"
      "alloc_avoids (malloc_at pl) (map container_address (entries s as))"
  shows "\<exists>fs tx s' fr r' R. is_file_update_set pl es files s = Inr (None, fs, tx, s') \<and>
     is_file_update_set pl (er\<lparr>incoming := tx\<rparr>) files r = Inr (None, fr, [], r') \<and>
     fs (CKPT_FILE_NAME (int k)) \<noteq> None \<and> ctx s' = cpu es \<and> mem s' = mem s \<and> allocs s' = allocs s \<and>
     replica_of (s\<lparr>ctx := cpu es\<rparr>) (r\<lparr>node := node r'\<rparr>) (entries s as) R \<and> r' = freed (temp_block pl r) R \<and>
     job_id (node r') = int k \<and> rank (node r') = rank (node r)"
proof -
  let ?rep = "init_rep (malloc_at pl) (walk_fuel pl) (context0 es) (size0 es) (container0 es)"
  have two: "1 < length (RankList (jm ! k))"
    using r(2,4) by (simp add: newcomer_def ranks_def)
  obtain S fs where S: "ready pl es s NODE_DATA_SENDER k S" "fs (CKPT_FILE_NAME (int k)) \<noteq> None"
      "\<forall>rx. is_file_update_set pl (es\<lparr>incoming := rx\<rparr>) files s = bindE (?rep (comm_rank es) rx S) (\<lambda>(st2, _, tx).
         bindE (c_free (temp_block pl s) st2) (\<lambda>st3. Inr (None, fs, tx, st3)))"
    by (rule sender_polls [OF s(1-3) two small(2) fil hs timers(1), of files])
  obtain R0 fr where R0: "ready pl er r NODE_DATA_RECEIVER k R0"
      "\<forall>rx. is_file_update_set pl (er\<lparr>incoming := rx\<rparr>) files r = bindE (?rep (comm_rank er) rx R0) (\<lambda>(st2, _, tx).
         bindE (c_free (temp_block pl r) st2) (\<lambda>st3. Inr (None, fr, tx, st3)))"
    using receiver_polls [OF r(1-4) timers(2), of files] unfolding same by blast
  note Sf = ready_fields [OF S(1)] and Rf = ready_fields [OF R0(1)]
  have hR: "heap_receiver (malloc_at pl) (entries s as) R0 bs" "blocks R0 bs = blocks r bs"
    using hr(2) R0(1) by (auto simp: ready_def heap_receiver_def registry_def owns_def blocks_def entries_def switched_def
        updated_def temp_block_def)
  obtain tx R where rep: "?rep 0 [] S = Inr (S\<lparr>stackLowerAddress := live_low S\<rparr>, [], tx)"
      "?rep (comm_rank er) tx R0 = Inr (R, [], [])" "replica_of S R0 (entries s as) R"
      "allocs R = grow (malloc_at pl) (without (bs @ blocks R0 bs) (allocs R0)) (requests (entries s as))"
    using init_rep_pair [of S R0 "comm_rank er" as "walk_fuel pl" "malloc_at pl" bs "context0 es" "size0 es" "container0 es"]
      hR hr(3,4) r(5) wf small layout ready_sender [OF S(1) hs(1)] hs(2) ready_layout [OF S(1) R0(1)]
    by (auto simp: roles_def Sf Rf)
  have q: "temp_block pl r \<notin> fst ` set (allocs r)" "temp_block pl s \<notin> fst ` set (allocs s)"
    using s(1) r(1) by (auto simp: takes_map_def can_switch_def fresh_block_def apart_def list_all_iff)
  then have "temp_block pl r \<in> fst ` set (without (bs @ blocks R0 bs) (allocs R0))"
    using hr(1) unfolding in_without hR(2) by (auto simp: Rf owns_def list_all_iff)
  then have "temp_block pl r \<in> fst ` set (allocs R)" unfolding rep(4) using grow_mono by fastforce
  then have fR: "c_free (temp_block pl r) R = Inr (freed (temp_block pl r) R)"
    using r(1) by (intro free_temp_block) (auto simp: takes_map_def)
  let ?S = "S\<lparr>stackLowerAddress := live_low S\<rparr>"
  have fS: "c_free (temp_block pl s) ?S = Inr (freed (temp_block pl s) ?S)"
    using s(1) by (intro free_temp_block) (auto simp: takes_map_def Sf)
  have "filter (\<lambda>(p, _). p \<noteq> temp_block pl s) (allocs s) = allocs s"
    using q(2) by (force simp: filter_id_conv)
  then have aS: "allocs (freed (temp_block pl s) ?S) = allocs s" by (simp add: allocs_freed without_def Sf)
  have "node R = node R0" using rep(3) by (simp add: replica_of_def)
  moreover from this have "replica_of (s\<lparr>ctx := cpu es\<rparr>) (r\<lparr>node := node (freed (temp_block pl r) R)\<rparr>) (entries s as) R"
    using rep(3) by (auto simp: replica_of_def same_registers_def Sf Rf freed_without)
  moreover have es: "es\<lparr>incoming := []\<rparr> = es" using s(5) by (cases es) simp
  have "is_file_update_set pl es files s = Inr (None, fs, tx, freed (temp_block pl s) ?S)"
    using S(3) [rule_format, of "[]"] s(4) rep(1) fS unfolding es by simp
  moreover have "is_file_update_set pl (er\<lparr>incoming := tx\<rparr>) files r = Inr (None, fr, [], freed (temp_block pl r) R)"
    using R0(2) rep(2) fR by simp
  moreover have "ctx (freed (temp_block pl s) ?S) = cpu es \<and> mem (freed (temp_block pl s) ?S) = mem s \<and>
      job_id (node (freed (temp_block pl r) R)) = int k \<and> rank (node (freed (temp_block pl r) R)) = rank (node r)"
    using rep(3) by (simp add: freed_without replica_of_def Sf Rf)
  ultimately show ?thesis using S(2) aS by blast
qed

text \<open>
  The map of the README, with process 2 (the first worker of job 1) holding the demo heap and
  process 1 joining from another job.
\<close>

definition demo_member :: "heap \<Rightarrow> int \<Rightarrow> int \<Rightarrow> ulfm" where
  "demo_member h r j = globals.extend (process.extend
       ((demo_process 7 NODE_DATA_NONE h)\<lparr>node := (demo_node NODE_DATA_NONE)\<lparr>rank := r, job_id := j, jobs_count := 0\<rparr>\<rparr>)
     \<lparr>job_list = [], rank_2_job = None, rank_ignore_list = [], ckpt_restore = RESTORE_NO, job_comm = MPI_COMM_NULL,
      rep_flag = 0, request_pending = 0, last_file_update = 0, replication_idx = 0, rep_counter = -1,
      ckpt_counter = -1, ignore_process_failure = 0, process_shrinking_pending = 0\<rparr>)
     \<lparr>last_group_failed = [], previous_world_group = []\<rparr>"

lemmas demo_member_defs = demo_member_def globals.defs process.defs demo_process_def heap.defs demo_node_def

text \<open>Temporary stacks come from a region of their own.\<close>

definition two_regions :: allocator where
  "two_regions bl n = (if n = TEMP_STACK_SIZE then 1099511627776 else arena (filter (\<lambda>(q, _). q \<noteq> 1099511627776) bl) n)"

definition demo_platform :: platform where
  "demo_platform = \<lparr>malloc_at = two_regions, walk_fuel = 5, creatable = (\<lambda>_. True), translate_ranks = group_translate,
     comm_split = (\<lambda>k _ _. Comm_Handle k)\<rparr>"

definition demo_poll :: "nat \<Rightarrow> poll_env" where
  "demo_poll me = \<lparr>map_mtime = 5, map_text = Some (WriteToFile readme_map),
     pending_sum = \<lparr>astatus = MPI_SUCCESS, afailure = readme_failure, aflag = 0, adata = None\<rparr>,
     cpu = setRSP 7 \<lparr>jmpbuf = replicate 8 0, mask_was_saved = 0, saved_mask = []\<rparr> 8000,
     comm_rank = me, incoming = [], copy0 = \<lparr>jmpbuf = replicate 8 0, mask_was_saved = 0, saved_mask = []\<rparr>, key0 = 0,
     context0 = \<lparr>rip = 0, rsp = 0, rbp = 0\<rparr>, size0 = 0,
     container0 = \<lparr>container_address = 0, linked_address = 0, allocated_address = 0, msize = 0\<rparr>\<rparr>"

lemma two_regions_avoid: "list_all (\<lambda>a. unat a < 1048000) A \<Longrightarrow> alloc_avoids two_regions A"
  unfolding alloc_avoids_def
proof (intro allI impI)
  fix bl n
  assume A: "list_all (\<lambda>a. unat a < 1048000) A" and f: "fresh_block bl (two_regions bl n) n"
  let ?p = "two_regions bl n"
  have "1048576 \<le> unat ?p \<and> unat ?p + n < 1099511627776 \<or> ?p = 1099511627776 \<and> n = 20000000"
    using f by (auto simp: fresh_block_def two_regions_def arena_def TEMP_STACK_SIZE_def Let_def split: if_splits)
  then have "apart ?p n a 8" if "unat a < 1048000" for a
    using that by (auto simp: apart_def unat_sub_if')
  then show "list_all (\<lambda>a. apart ?p n a 8) A" using A by (auto simp: list_all_iff)
qed

lemma demo_member_sel [simp]:
  "rank (node (demo_member h r j)) = r" "job_id (node (demo_member h r j)) = j" "ckpt_restore (demo_member h r j) = RESTORE_NO"
  "last_file_update (demo_member h r j) = 0" "rep_counter (demo_member h r j) = -1" "ckpt_counter (demo_member h r j) = -1"
  "allocs (demo_member h r j) = allocs h" "old_map_ok n (demo_member h r j)"
  by (simp_all add: demo_member_defs old_map_ok_def)

lemma demo_takes:
  assumes "h = sender_heap \<or> h = empty_heap"
  shows "takes_map demo_platform (demo_poll me) readme_map (demo_member h r j)"
proof -
  have "fresh_block (allocs h) 1099511627776 TEMP_STACK_SIZE"
    using assms by (auto simp: fresh_block_def TEMP_STACK_SIZE_def apart_def sender_heap_def alias_heap_def three_heap_def
        empty_heap_def)
  then have "can_switch demo_platform (demo_member h r j)"
    by (simp add: can_switch_def temp_block_def demo_platform_def two_regions_def)
  then show ?thesis
    using readme_map_loads(1) by (simp add: takes_map_def demo_poll_def)
qed

lemma demo_newcomers:
  "newcomer 1 readme_map 0 (demo_member h 2 j)" "newcomer 1 readme_map 1 (demo_member h 1 j)"
  by (simp_all add: newcomer_def readme_map_def ranks_def)

lemma demo_member_receives:
  "heap_receiver two_regions (entries sender_heap [4112, 4192]) (switched demo_platform e (demo_member empty_heap 1 0)) []"
proof -
  have "two_regions [(1099511627776, TEMP_STACK_SIZE)] 8 = 1048576" "two_regions [(1048576, 8), (1099511627776, TEMP_STACK_SIZE)] 48 = 1048600"
    by (simp_all add: two_regions_def arena_def TEMP_STACK_SIZE_def)
  then show ?thesis
    unfolding heap_receiver_def sender_heap_entries
    by (simp add: registry_Nil owns_def blocks_def entries_def without_def requests_def is_link_def fresh_block_def apart_def
        sizeof_Malloc_list_def TEMP_STACK_SIZE_def switched_def temp_block_def demo_platform_def demo_member_defs empty_heap_def
        two_regions_def arena_def)
qed

theorem update_replicates_witness:
  "\<exists>fs tx s' fr r' R. is_file_update_set demo_platform (demo_poll 0) (\<lambda>_. None) (demo_member sender_heap 2 1) = Inr (None, fs, tx, s') \<and>
     is_file_update_set demo_platform ((demo_poll 1)\<lparr>incoming := tx\<rparr>) (\<lambda>_. None) (demo_member empty_heap 1 0) = Inr (None, fr, [], r') \<and>
     replica_of ((demo_member sender_heap 2 1)\<lparr>ctx := cpu (demo_poll 0)\<rparr>) ((demo_member empty_heap 1 0)\<lparr>node := node r'\<rparr>)
       (entries sender_heap [4112, 4192]) R \<and> job_id (node r') = 1"
proof -
  let ?s = "demo_member sender_heap 2 1" and ?r = "demo_member empty_heap 1 0"
  have e: "entries ?s [4112, 4192] = entries sender_heap [4112, 4192]" by (simp add: entries_def demo_member_defs)
  have "\<exists>fs tx s' fr r' R. is_file_update_set demo_platform (demo_poll 0) (\<lambda>_. None) ?s = Inr (None, fs, tx, s') \<and>
     is_file_update_set demo_platform ((demo_poll 1)\<lparr>incoming := tx\<rparr>) (\<lambda>_. None) ?r = Inr (None, fr, [], r') \<and>
     fs (CKPT_FILE_NAME (int 1)) \<noteq> None \<and> ctx s' = cpu (demo_poll 0) \<and> mem s' = mem ?s \<and> allocs s' = allocs ?s \<and>
     replica_of (?s\<lparr>ctx := cpu (demo_poll 0)\<rparr>) (?r\<lparr>node := node r'\<rparr>) (entries ?s [4112, 4192]) R \<and>
     r' = freed (temp_block demo_platform ?r) R \<and> job_id (node r') = int 1 \<and> rank (node r') = rank (node ?r)"
  proof (rule update_replicates [OF demo_takes demo_newcomers(1) _ _ _ demo_takes demo_newcomers(2)])
    show "heap_sender ?s [4112, 4192]"
      using sender_heap_ok by (simp add: heap_sender_def registry_def entries_def demo_member_defs)
    show "heap_receiver (malloc_at demo_platform) (entries ?s [4112, 4192]) (switched demo_platform (demo_poll 1) ?r) []"
      unfolding e using demo_member_receives by (simp add: demo_platform_def)
    show "alloc_avoids (malloc_at demo_platform) (map container_address (entries ?s [4112, 4192]))"
      unfolding e demo_platform_def platform.simps by (rule two_regions_avoid) (simp add: sender_heap_entries)
    show "same_layout ?s ?r" "small_segments ?s" "wf_jmp_buf (cpu (demo_poll 1))"
      by (simp_all add: same_layout_def small_segments_def demo_member_defs int_count_def demo_poll_def reg_defs)
    show "live_size (?s\<lparr>ctx := cpu (demo_poll 0)\<rparr>) < 2147483648"
      by (simp add: live_size_def live_low_def demo_member_defs demo_poll_def reg_defs)
    show "owns ?r []" by (simp add: owns_def blocks_def entries_def)
    show "timers_left ?s" "timers_left ?r" by (simp_all add: timers_left_def MAX_REP_def MAX_CKPT_def)
  qed (simp_all add: demo_poll_def demo_platform_def)
  then show ?thesis unfolding e by auto
qed

section \<open>Restart\<close>

lemma restore_poll:
  assumes "ckpt_restore st = RESTORE_YES" and "astatus (pending_sum e) = MPI_SUCCESS" and "aflag (pending_sum e) = 0"
    and "can_switch pl st"
  obtains st1 files1 where "st1 = (update_comms (comm_split pl) st)\<lparr>rep_flag := 0, replication_idx := replication_idx st + 1,
       rep_counter := rep_counter st + 1, ckpt_counter := ckpt_counter st + 1\<rparr>"
    "\<forall>name. name \<noteq> STACK_REP_INFO_FILE_NAME \<longrightarrow> files1 name = files name"
    "is_file_update_set pl e files st =
       bindE (init_ckpt_restore (malloc_at pl) files1 (switched pl e st1)) (\<lambda>R.
       bindE (c_free (temp_block pl st) (R\<lparr>ckpt_restore := RESTORE_NO\<rparr>)) (\<lambda>st3. Inr (None, files1, [], st3)))"
proof -
  let ?st2 = "(update_comms (comm_split pl) st)\<lparr>rep_flag := 0, replication_idx := replication_idx st + 1\<rparr>"
  let ?st1 = "?st2\<lparr>rep_counter := rep_counter st + 1, ckpt_counter := ckpt_counter st + 1\<rparr>"
  let ?files = "save_rep_and_stack_info (replication_idx st + 1) files ?st2"
  have "parse_map_file (map_text e) st = Inr st" using assms(1) by (simp add: parse_map_file_def)
  then have l: "load_update pl e files st = Inr (?files, ?st1)"
    using assms(1) by (simp add: load_update_def create_migration_comm_def update_comms_def Let_def)
  have "can_switch pl ?st1" "temp_block pl ?st1 = temp_block pl st"
    using assms(4) by (simp_all add: can_switch_def temp_block_def update_comms_def Let_def)
  then obtain c where sw: "setjmp_0 pl e ?st1 = Inr (temp_block pl st, c, switched pl e ?st1)"
    using setjmp_0_switches by metis
  have r: "ckpt_restore (switched pl e ?st1) = RESTORE_YES" "ckpt_restore ?st1 = RESTORE_YES"
    using assms(1) by (simp_all add: switched_def update_comms_def Let_def)
  have "is_file_update_set pl e files st = take_part pl e ?files ?st1"
    using assms(1-3) l r(2) by (simp add: is_file_update_set_def is_file_modified_def call_on_quiet)
  also have "\<dots> = bindE (init_ckpt_restore (malloc_at pl) ?files (switched pl e ?st1)) (\<lambda>R.
      bindE (c_free (temp_block pl st) (R\<lparr>ckpt_restore := RESTORE_NO\<rparr>)) (\<lambda>st3. Inr (None, ?files, [], st3)))"
    using sw r(1) by (simp add: take_part_def setjmp_1_def bindE_assoc)
  finally show ?thesis
    by (intro that [OF refl]) (simp_all add: save_rep_and_stack_info_def file_write_at_def Let_def)
qed

lemma init_node_loads:
  assumes "valid_map jm" and "k < length jm" and "i < length (ranks (jm ! k))" and "ranks (jm ! k) ! i = r"
    and "Modified (jm ! k) = 1" and "ckpt_restore st = RESTORE_NO" and "jobs_count (node st) = 0" and "rank_2_job st = None"
  obtains nd t jl ign where "init_node sp r sz (Some (WriteToFile jm)) st =
       Inr (st\<lparr>node := nd, rank_2_job := t, job_list := jl, rank_ignore_list := ign\<rparr>)"
    "job_id nd = int k" "rank nd = r" "node_transit_state nd = NODE_DATA_NONE"
proof -
  let ?st = "st\<lparr>node := (node st)\<lparr>rank := r, static_rank := r, job_id := -1\<rparr>, rank_ignore_list := replicate sz 0\<rparr>"
  have "old_map_ok (length (all_ranks jm)) ?st" using assms(7,8) by (simp add: old_map_ok_def)
  then obtain st1 where p: "parse_map_file (Some (WriteToFile jm)) ?st = Inr st1" "map_loaded jm ?st st1"
    using parse_map_loads [of jm ?st] assms(1,6) by auto
  obtain nd t jl where st1: "st1 = ?st\<lparr>node := nd, rank_2_job := t, job_list := jl\<rparr>" using parse_map_frame [OF p(1)] by blast
  have "nd = role (int (length jm)) 1 k (int (length (RankList (jm ! k)))) i (node ?st)"
    using p(2) assms(2-5) st1 by (auto simp: map_loaded_def)
  then have nd: "job_id nd = int k" "rank nd = r" by (simp_all add: role_def)
  let ?nd = "(node (update_comms sp st1))\<lparr>node_transit_state := NODE_DATA_NONE\<rparr>"
  have eq: "init_node sp r sz (Some (WriteToFile jm)) st =
      Inr (st\<lparr>node := ?nd, rank_2_job := t, job_list := jl, rank_ignore_list := replicate sz 0\<rparr>)"
    using p(1) by (simp add: init_node_def update_comms_def st1 Let_def)
  show ?thesis by (rule that [OF eq]) (simp_all add: nd update_comms_def st1 Let_def)
qed

lemma ckpt_name_differs:
  "CKPT_FILE_NAME j \<noteq> STACK_REP_INFO_FILE_NAME" "CKPT_FILE_NAME j \<noteq> ''./network.stat''"
  by (simp_all add: CKPT_FILE_NAME_def STACK_REP_INFO_FILE_NAME_def)

text \<open>The state of a restarting process when it polls.\<close>

definition restarting :: "platform \<Rightarrow> poll_env \<Rightarrow> nat \<Rightarrow> 'a ulfm_scheme \<Rightarrow> 'a ulfm_scheme \<Rightarrow> bool" where
  "restarting pl e k st st1 \<longleftrightarrow> (\<exists>nd t jl ign. job_id nd = int k \<and>
     st1 = st\<lparr>node := nd, rank_2_job := t, job_list := jl, rank_ignore_list := ign, last_file_update := map_mtime e,
       ckpt_restore := RESTORE_YES, replication_idx := 0, allocs := (malloc_at pl (allocs st) 10000000, 10000000) # allocs st\<rparr>)"

lemma MPI_Init_polls:
  assumes "valid_map jm" and "k < length jm" and "i < length (ranks (jm ! k))" and "ranks (jm ! k) ! i = r"
    and "Modified (jm ! k) = 1" and "ckpt_restore st = RESTORE_NO" and "jobs_count (node st) = 0" and "rank_2_job st = None"
    and "map_text e = Some (WriteToFile jm)" and "length host < HOSTNAME_LEN"
    and "files (CKPT_FILE_NAME (int k)) = Some f" and "fresh_block (allocs st) (malloc_at pl (allocs st) 10000000) 10000000"
  obtains st1 files1 where "restarting pl e k st st1" "files1 (CKPT_FILE_NAME (int k)) = Some f"
    "MPI_Init pl e dup r sz host pid junk files st = bindE (is_file_update_set pl e files1 st1) (\<lambda>(_, files3, tx, st7).
       Inr (malloc_at pl (allocs st) 10000000, files3, tx, st7))"
proof -
  let ?st = "st\<lparr>node := (node st)\<lparr>rep_mpi_comm_world := dup\<rparr>\<rparr>"
  have h: "ckpt_restore ?st = RESTORE_NO" "jobs_count (node ?st) = 0" "rank_2_job ?st = None" using assms(6-8) by simp_all
  obtain nd t jl ign where n: "init_node (comm_split pl) r sz (Some (WriteToFile jm)) ?st =
       Inr (?st\<lparr>node := nd, rank_2_job := t, job_list := jl, rank_ignore_list := ign\<rparr>)"
      "job_id nd = int k" "rank nd = r" "node_transit_state nd = NODE_DATA_NONE"
    by (rule init_node_loads [OF assms(1-5) h])
  let ?st4 = "st\<lparr>node := nd, rank_2_job := t, job_list := jl, rank_ignore_list := ign, last_file_update := map_mtime e,
     ckpt_restore := RESTORE_YES\<rparr>"
  let ?bl = "malloc_at pl (allocs st) 10000000"
  let ?st6 = "?st4\<lparr>replication_idx := 0, allocs := (?bl, 10000000) # allocs st\<rparr>"
  obtain files1 where f1: "network_stat_init ''./network.stat'' host pid junk files ?st4 = Inr files1"
      "\<And>name. name \<noteq> ''./network.stat'' \<Longrightarrow> files1 name = files name"
    using assms(10) by (auto simp: network_stat_init_def guardE_True file_write_at_def Let_def)
  let ?files2 = "save_rep_and_stack_info 0 files1 (?st4\<lparr>replication_idx := 0\<rparr>)"
  have "?files2 (CKPT_FILE_NAME (int k)) = Some f"
    using f1(2) assms(11) ckpt_name_differs by (simp add: save_rep_and_stack_info_def file_write_at_def Let_def)
  moreover have "does_ckpt_file_exists files (set_last_file_update (map_mtime e)
      (?st\<lparr>node := nd, rank_2_job := t, job_list := jl, rank_ignore_list := ign\<rparr>))"
    using n(2) assms(11) by (simp add: does_ckpt_file_exists_def set_last_file_update_def)
  then have "MPI_Init pl e dup r sz host pid junk files st = bindE (is_file_update_set pl e ?files2 ?st6) (\<lambda>(_, files3, tx, st7).
      Inr (?bl, files3, tx, st7))"
    using n(1) f1(1) assms(9,12) by (simp add: MPI_Init_def set_last_file_update_def c_malloc_def Let_def)
  moreover have "restarting pl e k st ?st6" unfolding restarting_def using n(2) by blast
  ultimately show ?thesis using that by blast
qed

text \<open>The process that is about to restore: it still has the registry and the symbols of the new one.\<close>

lemma restart_ready:
  assumes P: "restarting pl e k st P"
    and P1: "P1 = (update_comms (comm_split pl) P)\<lparr>rep_flag := 0, replication_idx := replication_idx P + 1,
         rep_counter := rep_counter P + 1, ckpt_counter := ckpt_counter P + 1\<rparr>"
    and new: "same_symbols s st" "registers st ds"
    and mem: "supplies (malloc_at pl) (allocs st) ([10000000, TEMP_STACK_SIZE] @ rq)"
  shows "memory.mem (switched pl e P1) = memory.mem st" "ctx (switched pl e P1) = cpu e" "job_id (node (switched pl e P1)) = int k"
    "data_start (switched pl e P1) = data_start st" "bss_start (switched pl e P1) = bss_start st"
    "stackHigherAddress (switched pl e P1) = stackHigherAddress st"
    and "same_symbols s (switched pl e P1)" "registers (switched pl e P1) ds"
    and "supplies (malloc_at pl) (allocs (switched pl e P1)) rq" "temp_block pl P \<in> fst ` set (allocs (switched pl e P1))"
proof -
  let ?r = "switched pl e P1"
  obtain nd t jl ign where Pe: "job_id nd = int k" "P = st\<lparr>node := nd, rank_2_job := t, job_list := jl, rank_ignore_list := ign,
      last_file_update := map_mtime e, ckpt_restore := RESTORE_YES, replication_idx := 0,
      allocs := (malloc_at pl (allocs st) 10000000, 10000000) # allocs st\<rparr>"
    using P unfolding restarting_def by blast
  have al: "allocs ?r = (temp_block pl P, TEMP_STACK_SIZE) # allocs P" "allocs P = (malloc_at pl (allocs st) 10000000, 10000000) # allocs st"
    by (simp_all add: P1 switched_def temp_block_def update_comms_def Pe(2) Let_def)
  show fields: "memory.mem ?r = memory.mem st" "ctx ?r = cpu e" "job_id (node ?r) = int k" "data_start ?r = data_start st"
      "bss_start ?r = bss_start st" "stackHigherAddress ?r = stackHigherAddress st"
    by (simp_all add: P1 switched_def update_comms_def Pe Let_def)
  then show "same_symbols s ?r" using new(1) by (simp add: same_symbols_def)
  have hp: "cells ?r = cells st" "head ?r = head st" "tail ?r = tail st"
    by (simp_all add: P1 switched_def update_comms_def Pe Let_def)
  have "registry ?r as'" if "registry st as'" for as' using that by (auto simp: registry_def hp al list_all_iff)
  then show "registers ?r ds" using new(2) hp by (auto simp: registers_def entries_def)
  show "supplies (malloc_at pl) (allocs ?r) rq" using mem by (simp add: al temp_block_def)
  show "temp_block pl P \<in> fst ` set (allocs ?r)" by (simp add: al)
qed

text \<open>
  C4: a job survives the loss of all its processes. A process of job \<open>k\<close> has written its
  checkpoint; later a new process of the same program starts with the file in place and a map
  that puts it into job \<open>k\<close>. Its \<open>MPI_Init\<close> finds the file, polls, restores, and continues at
  the saved program counter with the saved stack (moved to its own stack top), data, heap and
  flags. The temporary stack is freed, nothing is broadcast, and the restore flag is off, so
  that the next poll does not restore again.
\<close>

theorem restart_resumes:
  fixes s st :: "'a ulfm_scheme"
  assumes ck: "init_ckpt w fuel files0 s = Inr (s1, files)" "job_id (node s) = int k"
    and small: "live_size s < 2147483648" and hs: "heap_sender s as" "length as < fuel" "list_all (\<lambda>c. \<not> is_link c) (entries s as)"
    and map: "valid_map jm" "k < length jm" "i < length (ranks (jm ! k))" "ranks (jm ! k) ! i = r" "Modified (jm ! k) = 1"
      "map_text e = Some (WriteToFile jm)"
    and new: "ckpt_restore st = RESTORE_NO" "jobs_count (node st) = 0" "rank_2_job st = None" "same_symbols s st"
      "registers st ds" "length host < HOSTNAME_LEN" "wf_jmp_buf (cpu e)"
    and quiet: "astatus (pending_sum e) = MPI_SUCCESS" "aflag (pending_sum e) = 0"
    and mem: "supplies (malloc_at pl) (allocs st) ([10000000, TEMP_STACK_SIZE] @ requests (entries s as))"
      "alloc_avoids (malloc_at pl) (map container_address (entries s as))"
  shows "\<exists>black files' st' R q. MPI_Init pl e dup r sz host pid junk files st = Inr (black, files', [], st') \<and>
     restored_from s (st\<lparr>node := node st'\<rparr>) ds (entries s as) R \<and> st' = freed q (R\<lparr>ckpt_restore := RESTORE_NO\<rparr>) \<and>
     ckpt_restore st' = RESTORE_NO \<and> job_id (node st') = int k"
proof -
  let ?cs = "entries s as" and ?file = "CKPT_FILE_NAME (int k)"
  have fr: "fresh_block (allocs st) (malloc_at pl (allocs st) 10000000) 10000000" using mem(1) by simp
  have w: "w ?file" using ck by (cases "w ?file") (simp_all add: init_ckpt_def guardE_False Let_def)
  obtain f where f: "files ?file = Some f"
    using ck w by (auto simp: init_ckpt_def guardE_True Let_def split: prod.splits elim!: bindE_E)
  obtain P files1 where P: "restarting pl e k st P" "files1 ?file = Some f"
      "MPI_Init pl e dup r sz host pid junk files st = bindE (is_file_update_set pl e files1 P) (\<lambda>(_, files3, tx, st7).
         Inr (malloc_at pl (allocs st) 10000000, files3, tx, st7))"
    by (rule MPI_Init_polls [where files = files, OF map(1-5) new(1-3) map(6) new(6) f fr])
  have sw: "ckpt_restore P = RESTORE_YES" "can_switch pl P"
    using P(1) mem(1) by (auto simp: restarting_def can_switch_def temp_block_def)
  obtain P1 files2 where P1: "P1 = (update_comms (comm_split pl) P)\<lparr>rep_flag := 0, replication_idx := replication_idx P + 1,
         rep_counter := rep_counter P + 1, ckpt_counter := ckpt_counter P + 1\<rparr>"
      "\<forall>name. name \<noteq> STACK_REP_INFO_FILE_NAME \<longrightarrow> files2 name = files1 name"
      "is_file_update_set pl e files1 P = bindE (init_ckpt_restore (malloc_at pl) files2 (switched pl e P1)) (\<lambda>R.
         bindE (c_free (temp_block pl P) (R\<lparr>ckpt_restore := RESTORE_NO\<rparr>)) (\<lambda>st3. Inr (None, files2, [], st3)))"
    by (rule restore_poll [OF sw(1) quiet sw(2)])
  let ?r = "switched pl e P1"
  note rr = restart_ready [OF P(1) P1(1) new(4,5) mem(1)]
  have r: "same_symbols s ?r" "wf_jmp_buf (ctx ?r)" "job_id (node ?r) = job_id (node s)"
    using rr(2,3,7) new(7) ck(2) by simp_all
  have "w (CKPT_FILE_NAME (job_id (node s)))" using w ck(2) by simp
  then obtain R where R: "init_ckpt_restore (malloc_at pl) files ?r = Inr R" "restored_from s ?r ds ?cs R"
      "allocs R = grow (malloc_at pl) (allocs ?r) (requests ?cs)" "process.more R = process.more ?r"
    using checkpoint_pair [OF small r _ hs rr(8,9) mem(2), of w files0] ck(1) by auto
  have "job_id (node ?r) = int k" using r(3) ck(2) by simp
  then have "init_ckpt_restore (malloc_at pl) files2 ?r = Inr R"
    using R(1) P(2) P1(2) f ckpt_name_differs init_ckpt_restore_cong [of files2 ?r files "malloc_at pl"] by simp
  moreover have "c_free (temp_block pl P) (R\<lparr>ckpt_restore := RESTORE_NO\<rparr>) = Inr (freed (temp_block pl P) (R\<lparr>ckpt_restore := RESTORE_NO\<rparr>))"
    using sw(2) rr(10) grow_mono [of "allocs ?r" "malloc_at pl" "requests ?cs"] R(3) by (intro free_temp_block) auto
  moreover have "node R = node ?r" using R(2) by (simp add: restored_from_def)
  moreover have "restored_from s (st\<lparr>node := node ?r\<rparr>) ds ?cs R"
    using R(2) rr(1-6) by (simp add: restored_from_def restored_byte_def moved_low_def)
  ultimately show ?thesis
    using P(3) P1(3) r(3) ck(2)
    by (intro exI [of _ "malloc_at pl (allocs st) 10000000"] exI [of _ files2]
        exI [of _ "freed (temp_block pl P) (R\<lparr>ckpt_restore := RESTORE_NO\<rparr>)"] exI [of _ R] exI [of _ "temp_block pl P"])
      (simp add: freed_without)
qed

text \<open>Process 2 checkpoints job 1; process 2 of a later world restarts it.\<close>

theorem restart_resumes_witness:
  "\<exists>s1 files black files' st' R. init_ckpt (\<lambda>_. True) 5 (\<lambda>_. None) (demo_member plain_heap 2 1) = Inr (s1, files) \<and>
     MPI_Init demo_platform (demo_poll 0) (Comm_Handle 0) 2 3 [104, 49] 77 (replicate 100 0) files
       ((demo_member empty_heap 2 0)\<lparr>stackHigherAddress := 9040\<rparr>) = Inr (black, files', [], st') \<and>
     restored_from (demo_member plain_heap 2 1)
       ((demo_member empty_heap 2 0)\<lparr>stackHigherAddress := 9040, node := node st'\<rparr>) [] (entries plain_heap [4112]) R \<and>
     job_id (node st') = 1"
proof -
  let ?s = "demo_member plain_heap 2 1" and ?st = "(demo_member empty_heap 2 0)\<lparr>stackHigherAddress := 9040\<rparr>"
  have cs: "entries ?s [4112] = [\<lparr>container_address = 64, linked_address = 0, allocated_address = 4096, msize = 8\<rparr>]"
    by (simp add: entries_def demo_member_defs plain_heap_def)
  have e: "entries ?s [4112] = entries plain_heap [4112]" by (simp add: entries_def demo_member_defs)
  have h: "heap_sender ?s [4112]"
    unfolding heap_sender_def cs
    by (simp add: demo_member_defs plain_heap_def registry_def sendable_def is_link_def fits_after_def)
  have l: "live_size ?s < 2147483648" by (simp add: live_size_def live_low_def demo_member_defs reg_defs)
  obtain fs where "\<forall>files. init_ckpt (\<lambda>_. True) 5 files ?s =
      Inr (?s\<lparr>stackLowerAddress := live_low ?s\<rparr>, files(CKPT_FILE_NAME (job_id (node ?s)) \<mapsto> fs))"
    using init_ckpt_saves [OF l _ h, of "\<lambda>_. True" 5] by auto
  then obtain s1 files where ck: "init_ckpt (\<lambda>_. True) 5 (\<lambda>_. None) ?s = Inr (s1, files)" by blast
  have sup: "supplies (malloc_at demo_platform) (allocs ?st) ([10000000, TEMP_STACK_SIZE] @ requests (entries ?s [4112]))"
    unfolding cs by (simp add: requests_def is_link_def fresh_block_def two_regions_def arena_def demo_platform_def
        sizeof_Malloc_list_def TEMP_STACK_SIZE_def apart_def empty_heap_def)
  have av: "alloc_avoids (malloc_at demo_platform) (map container_address (entries ?s [4112]))"
    unfolding demo_platform_def platform.simps by (rule two_regions_avoid) (simp add: cs)
  have "\<exists>black files' st' R q. MPI_Init demo_platform (demo_poll 0) (Comm_Handle 0) 2 3 [104, 49] 77 (replicate 100 0) files ?st =
       Inr (black, files', [], st') \<and>
     restored_from ?s (?st\<lparr>node := node st'\<rparr>) [] (entries ?s [4112]) R \<and> st' = freed q (R\<lparr>ckpt_restore := RESTORE_NO\<rparr>) \<and>
     ckpt_restore st' = RESTORE_NO \<and> job_id (node st') = int 1"
  proof (rule restart_resumes [OF ck _ l h _ _ readme_map_loads(1) _ _ _ _ _ _ _ _ _ _ _ _ _ _ sup av])
    show "registers ?st []"
      by (auto simp: registers_def entries_def registry_Nil demo_member_defs empty_heap_def intro!: exI [of _ "[]"])
    show "0 < length (ranks (readme_map ! 1))" "ranks (readme_map ! 1) ! 0 = 2" by (simp_all add: readme_map_def ranks_def)
    show "list_all (\<lambda>c. \<not> is_link c) (entries ?s [4112])" unfolding cs by (simp add: is_link_def)
  qed (simp_all add: readme_map_def demo_poll_def demo_member_defs same_symbols_def HOSTNAME_LEN_def reg_defs)
  then show ?thesis using ck unfolding e by auto
qed

section \<open>The arrays of times\<close>

text \<open>
  The arrays of times overflow. \<open>___rep_counter\<close> and \<open>___ckpt_counter\<close> grow with every
  update taken and are never compared with \<open>MAX_REP\<close> and \<open>MAX_CKPT\<close>: a checkpoint master that
  takes its update number 101 writes outside \<open>___ckpt_time\<close>, and a receiver outside
  \<open>___rep_time\<close>.
\<close>

lemma update_overflows_timers:
  assumes "takes_map pl e jm st" and "newcomer k jm i st"
    and "i = 0 \<and> ckpt_counter st + 1 = MAX_CKPT \<or> i \<noteq> 0 \<and> job_id (node st) \<noteq> int k \<and> rep_counter st + 1 = MAX_REP"
  shows "is_file_update_set pl (e\<lparr>incoming := rx\<rparr>) files st = Inl Out_Of_Bounds"
proof -
  have part: "job_id (node st) \<noteq> int k \<or> i = 0" using assms(3) by blast
  obtain nd t jl jc f files1 st1 where st1: "st1 = updated nd t jl jc f (st\<lparr>last_file_update := map_mtime e\<rparr>)"
      "\<forall>rx. is_file_update_set pl (e\<lparr>incoming := rx\<rparr>) files st =
         bindE (setjmp_1 pl (e\<lparr>incoming := rx\<rparr>) files1 (switched pl e st1)) (\<lambda>(files2, tx, st2).
         bindE (c_free (temp_block pl st) st2) (\<lambda>st3. Inr (None, files2, tx, st3)))"
      and nd: "job_id nd = int k" "rank nd = rank (node st)" "node_checkpoint_master nd = (if i = 0 then YES else NO)"
        "node_transit_state nd = (if job_id (node st) \<noteq> int k then NODE_DATA_RECEIVER
           else if 1 < length (RankList (jm ! k)) then NODE_DATA_SENDER else NODE_DATA_NONE)"
        "f = (if node_transit_state nd \<noteq> NODE_DATA_NONE then 1 else 0)"
    by (rule poll_takes_part [OF assms(1,2) part, of files])
  have "setjmp_1 pl (e\<lparr>incoming := rx\<rparr>) files1 (switched pl e st1) = Inl Out_Of_Bounds"
    using assms(1,3) nd by (auto simp: setjmp_1_def st1(1) switched_def updated_def takes_map_def guardE_False)
  then show ?thesis using st1(2) by simp
qed

lemma update_overflows_timers_witness:
  "is_file_update_set demo_platform (demo_poll 0) (\<lambda>_. None) ((demo_member sender_heap 2 1)\<lparr>ckpt_counter := 99\<rparr>) = Inl Out_Of_Bounds"
proof -
  have "takes_map demo_platform (demo_poll 0) readme_map ((demo_member sender_heap 2 1)\<lparr>ckpt_counter := 99\<rparr>)"
    using demo_takes [of sender_heap 0 2 1] by (simp add: takes_map_def can_switch_def temp_block_def old_map_ok_def)
  moreover have "newcomer 1 readme_map 0 ((demo_member sender_heap 2 1)\<lparr>ckpt_counter := 99\<rparr>)"
    using demo_newcomers(1) by (simp add: newcomer_def)
  moreover have "(demo_poll 0)\<lparr>incoming := []\<rparr> = demo_poll 0" by (simp add: demo_poll_def)
  ultimately show ?thesis
    using update_overflows_timers [of demo_platform "demo_poll 0" readme_map "(demo_member sender_heap 2 1)\<lparr>ckpt_counter := 99\<rparr>"
        1 0 "[]" "\<lambda>_. None"] unfolding MAX_CKPT_def by auto
qed

section \<open>A worker without a part\<close>

text \<open>A worker that stays where it is takes the map, records its data and goes on at once.\<close>

lemma poll_without_part:
  assumes "takes_map pl e jm st" and "newcomer k jm i st" and "job_id (node st) = int k" and "i \<noteq> 0"
  obtains nd t jl jc files1 where "is_file_update_set pl e files st =
     Inr (Some 1, files1, [], updated nd t jl jc 0 (st\<lparr>last_file_update := map_mtime e\<rparr>))"
proof -
  let ?st = "st\<lparr>last_file_update := map_mtime e\<rparr>"
  have h: "valid_map jm" "ckpt_restore ?st = RESTORE_NO" "old_map_ok (length (all_ranks jm)) ?st"
      "map_text e = Some (WriteToFile jm)" "newcomer k jm i ?st"
    using assms(1,2) by (simp_all add: takes_map_def old_map_ok_def newcomer_def)
  obtain nd t jl jc f files1 where l: "load_update pl e files ?st = Inr (files1, updated nd t jl jc f ?st)"
      and nd: "job_id nd = int k" "rank nd = rank (node ?st)" "node_checkpoint_master nd = (if i = 0 then YES else NO)"
        "node_transit_state nd = (if job_id (node ?st) \<noteq> int k then NODE_DATA_RECEIVER
           else if i = 0 \<and> 1 < length (RankList (jm ! k)) then NODE_DATA_SENDER else NODE_DATA_NONE)"
        "f = (if node_transit_state nd \<noteq> NODE_DATA_NONE then 1 else 0)"
    by (rule load_update_written [OF h, of pl files])
  have f: "f = 0" "node_checkpoint_master nd = NO" using nd assms(3,4) by simp_all
  have "is_file_update_set pl e files st = Inr (Some 1, files1, [], updated nd t jl jc 0 ?st)"
    using assms(1) l f by (simp add: is_file_update_set_def is_file_modified_def takes_map_def call_on_quiet updated_def)
  then show ?thesis by (rule that)
qed

theorem update_waits_for_requests_witness:
  "\<exists>files' tx st'. polls demo_platform [(demo_poll 0)\<lparr>pending_sum := quiet_answer None\<rparr>, demo_poll 0] (\<lambda>_. None)
     (demo_member empty_heap 1 1) = Inr ([Some 0, Some 1], files', tx, st')"
proof -
  have "takes_map demo_platform (demo_poll 0) readme_map (demo_member empty_heap 1 1)" by (rule demo_takes) simp
  then obtain nd t jl jc files1 where p: "is_file_update_set demo_platform (demo_poll 0) (\<lambda>_. None) (demo_member empty_heap 1 1) =
      Inr (Some 1, files1, [], updated nd t jl jc 0 ((demo_member empty_heap 1 1)\<lparr>last_file_update := map_mtime (demo_poll 0)\<rparr>))"
    by (rule poll_without_part [OF _ demo_newcomers(2)]) simp_all
  have "list_all (busy 5) [(demo_poll 0)\<lparr>pending_sum := quiet_answer None\<rparr>]"
    by (simp add: busy_def demo_poll_def quiet_answer_def MPI_SUCCESS_def)
  moreover have "map_mtime (demo_poll 0) = 5" by (simp add: demo_poll_def)
  ultimately have "polls demo_platform ([(demo_poll 0)\<lparr>pending_sum := quiet_answer None\<rparr>] @ [demo_poll 0]) (\<lambda>_. None)
      (demo_member empty_heap 1 1) = Inr (replicate 1 (Some 0) @ [Some 1], files1, [],
        updated nd t jl jc 0 ((demo_member empty_heap 1 1)\<lparr>last_file_update := map_mtime (demo_poll 0)\<rparr>))"
    using update_waits_for_requests [OF _ _ _ _ p, of 5 "[(demo_poll 0)\<lparr>pending_sum := quiet_answer None\<rparr>]"] by simp
  then show ?thesis by (simp del: polls.simps)
qed

end
