(* ===== verification/Finalize.thy ===== *)
theory Finalize
  imports Comm
begin

text \<open>
  \<open>MPI_Finalize\<close> of \<open>src/mpi/init.c\<close>: it frees two of the blocks that \<open>MPI_Init\<close> allocated, the
  ignore list and the block for swallowed messages (the job list, its rank lists and
  \<open>rank_2_job\<close> stay allocated until the process ends), and turns the times that the processes
  measured for every update into averages. The times are values of a type
  \<open>'d\<close> with the operations the code uses on \<open>double\<close>; the two arrays of times are an argument
  and part of the result. Only the first process of \<open>MPI_COMM_WORLD\<close> receives the times of all;
  the others average what \<open>malloc\<close> left in their array.
\<close>

section \<open>Averages\<close>

record 'd double_ops =
  dzero :: 'd
  dadd :: "'d \<Rightarrow> 'd \<Rightarrow> 'd"
  ddiv :: "'d \<Rightarrow> int \<Rightarrow> 'd"
  nonzero :: "'d \<Rightarrow> bool"

definition average :: "'d double_ops \<Rightarrow> 'd list \<Rightarrow> 'd" where
  "average ops time =
     (case fold (\<lambda>t (valid_times, sum_time).
                   if nonzero ops t then (valid_times + 1, dadd ops sum_time t) else (valid_times, sum_time))
             time (0, dzero ops) of (valid_times, sum_time) \<Rightarrow>
        if valid_times = 0 then dzero ops else ddiv ops sum_time valid_times)"

section \<open>Gathering\<close>

text \<open>
  What \<open>PMPI_Gather\<close> on \<open>MPI_COMM_WORLD\<close> does to this process: the root receives one time per
  process of that world, the others receive nothing, and an error is fatal, because only the
  duplicate of \<open>MPI_COMM_WORLD\<close> has the library's error handler.
\<close>

datatype 'd gathered = At_Root "'d list" | Elsewhere | Fatal int

text \<open>\<open>time\<close> is the block at address \<open>p\<close>; the root's data has to fit into it.\<close>

definition PMPI_Gather :: "address \<Rightarrow> 'd gathered \<Rightarrow> 'd list \<Rightarrow> 'd list result" where
  "PMPI_Gather p a time =
     (case a of Fatal c \<Rightarrow> Inl (Abort_With c)
      | Elsewhere \<Rightarrow> Inr time
      | At_Root ts \<Rightarrow>
          bindE (guardE (p \<noteq> 0 \<or> ts = []) Null_Deref) (\<lambda>_.
          bindE (guardE (length ts \<le> length time) Out_Of_Bounds) (\<lambda>_. Inr (ts @ drop (length ts) time))))"

text \<open>One half of the body of the loop: gather entry \<open>n_rep\<close> of an array, store the average there.\<close>

definition gather_average :: "'d double_ops \<Rightarrow> address \<Rightarrow> int \<Rightarrow> 'd gathered \<Rightarrow> 'd list \<Rightarrow> 'd list \<Rightarrow> ('d list \<times> 'd list) result" where
  "gather_average ops p n_rep a time arr =
     bindE (aget arr n_rep) (\<lambda>_.
     bindE (PMPI_Gather p a time) (\<lambda>time1.
     bindE (guardE (p \<noteq> 0 \<or> time1 = []) Null_Deref) (\<lambda>_.
     bindE (aset arr n_rep (average ops time1)) (\<lambda>arr1. Inr (time1, arr1)))))"

record 'd timers =
  ckpt_time :: "'d list"
  rep_time :: "'d list"

primrec finalize_loop :: "'d double_ops \<Rightarrow> address \<Rightarrow> nat \<Rightarrow> int \<Rightarrow> ('d gathered \<times> 'd gathered) list \<Rightarrow> 'd list \<Rightarrow> 'd timers \<Rightarrow>
    'd timers result" where
  "finalize_loop ops p 0 n_rep as time tm = Inr tm"
| "finalize_loop ops p (Suc k) n_rep as time tm =
     (case as of [] \<Rightarrow> Inl Short_Input
      | (a, b) # as1 \<Rightarrow>
          bindE (gather_average ops p n_rep a time (ckpt_time tm)) (\<lambda>(time1, ct).
          bindE (gather_average ops p n_rep b time1 (rep_time tm)) (\<lambda>(time2, rt).
            finalize_loop ops p k (n_rep + 1) as1 time2 (tm\<lparr>ckpt_time := ct, rep_time := rt\<rparr>))))"

text \<open>
  \<open>global_size\<close> is the size of \<open>node.rep_mpi_comm_world\<close>, \<open>blackhole\<close> the block that \<open>MPI_Init\<close>
  returned, \<open>junk\<close> what the fresh block holds. The freed \<open>rank_ignore_list\<close> has no entries left.
\<close>

definition MPI_Finalize :: "allocator \<Rightarrow> 'd double_ops \<Rightarrow> nat \<Rightarrow> address \<Rightarrow> (nat \<Rightarrow> 'd) \<Rightarrow> ('d gathered \<times> 'd gathered) list \<Rightarrow>
    'd timers \<Rightarrow> 'a globals_scheme \<Rightarrow> (int \<times> 'd timers \<times> 'a globals_scheme) result" where
  "MPI_Finalize alloc ops global_size blackhole junk as tm st =
     bindE (c_free blackhole (st\<lparr>rank_ignore_list := []\<rparr>)) (\<lambda>st1.
     bindE (aget (job_list st1) 0) (\<lambda>entry.
     bindE (some_or Uninitialised entry) (\<lambda>jb.
     bindE (aget (rank_list jb) 0) (\<lambda>master_of_master.
     case c_malloc alloc (8 * global_size) st1 of (p, st2) \<Rightarrow>
     bindE (finalize_loop ops p (nat (rep_counter st2 + 1)) 0 as (map junk [0..<global_size]) tm) (\<lambda>tm1.
     bindE (c_free p st2) (\<lambda>st3. Inr (0, tm1, st3)))))))"

section \<open>What the averages are\<close>

text \<open>
  The mean of the times that are not zero, added up from the left, as rounding makes the
  order matter; 0 when there are none.
\<close>

definition mean :: "'d double_ops \<Rightarrow> 'd list \<Rightarrow> 'd" where
  "mean ops time =
     (let ts = filter (nonzero ops) time
      in if ts = [] then dzero ops else ddiv ops (foldl (dadd ops) (dzero ops) ts) (int (length ts)))"

lemma average_mean: "average ops time = mean ops time"
proof -
  let ?ts = "filter (nonzero ops) time"
  have "fold (\<lambda>t (v, s). if nonzero ops t then (v + 1, dadd ops s t) else (v, s)) time (n, x) =
      (n + int (length ?ts), foldl (dadd ops) x ?ts)" for n x
    by (induction time arbitrary: n x) simp_all
  then have "fold (\<lambda>t (v, s). if nonzero ops t then (v + 1, dadd ops s t) else (v, s)) time (0, dzero ops) =
      (int (length ?ts), foldl (dadd ops) (dzero ops) ?ts)"
    by simp
  then show ?thesis by (simp add: average_def mean_def Let_def)
qed

text \<open>With exact arithmetic this is the sum over the number.\<close>

definition exact :: "'d::field double_ops" where
  "exact = \<lparr>dzero = 0, dadd = (+), ddiv = (\<lambda>s n. s / of_int n), nonzero = (\<lambda>t. t \<noteq> 0)\<rparr>"

lemma average_exact:
  "average exact time = (let ts = filter (\<lambda>t. t \<noteq> 0) time in if ts = [] then 0 else sum_list ts / of_nat (length ts))"
proof -
  have "foldl (+) x ts = x + sum_list ts" for x :: 'a and ts
    by (induction ts arbitrary: x) (simp_all add: add.assoc)
  then show ?thesis by (simp add: average_mean mean_def exact_def Let_def)
qed

lemma gather_average_root:
  assumes "n < length arr" and "length ts = length time" and "p \<noteq> 0"
  shows "gather_average ops p (int n) (At_Root ts) time arr = Inr (ts, arr[n := average ops ts])"
  using assms by (simp add: gather_average_def PMPI_Gather_def guardE_True)

lemma take_Suc_update: "n < length xs \<Longrightarrow> take (Suc n) (xs[n := x]) = take n xs @ [x]"
  by (simp add: take_Suc_conv_app_nth)

lemma finalize_loop_root:
  assumes "length rts = length cts" and "p \<noteq> 0" and "list_all (\<lambda>ts. length ts = length time) (cts @ rts)"
    and "n + length cts \<le> length (ckpt_time tm)" and "n + length cts \<le> length (rep_time tm)"
  shows "finalize_loop ops p (length cts) (int n) (zip (map At_Root cts) (map At_Root rts)) time tm = Inr (tm\<lparr>
     ckpt_time := take n (ckpt_time tm) @ map (average ops) cts @ drop (n + length cts) (ckpt_time tm),
     rep_time := take n (rep_time tm) @ map (average ops) rts @ drop (n + length cts) (rep_time tm)\<rparr>)"
  using assms
proof (induction cts arbitrary: rts n time tm)
  case Nil
  then show ?case by simp
next
  case (Cons c cts)
  obtain r rts' where rts: "rts = r # rts'" using Cons.prems(1) by (cases rts) auto
  let ?tm = "tm\<lparr>ckpt_time := (ckpt_time tm)[n := average ops c], rep_time := (rep_time tm)[n := average ops r]\<rparr>"
  have g: "gather_average ops p (int n) (At_Root c) time (ckpt_time tm) = Inr (c, (ckpt_time tm)[n := average ops c])"
      "gather_average ops p (int n) (At_Root r) c (rep_time tm) = Inr (r, (rep_time tm)[n := average ops r])"
    using Cons.prems rts by (auto intro!: gather_average_root)
  have "finalize_loop ops p (length cts) (int (Suc n)) (zip (map At_Root cts) (map At_Root rts')) r ?tm = Inr (?tm\<lparr>
     ckpt_time := take (Suc n) (ckpt_time ?tm) @ map (average ops) cts @ drop (Suc n + length cts) (ckpt_time ?tm),
     rep_time := take (Suc n) (rep_time ?tm) @ map (average ops) rts' @ drop (Suc n + length cts) (rep_time ?tm)\<rparr>)"
    by (rule Cons.IH) (use Cons.prems rts in auto)
  then show ?case using g rts Cons.prems(4,5) by (simp add: add.commute take_Suc_update)
qed

text \<open>
  What it takes: the block of \<open>MPI_Init\<close> is live, the first job has a worker, and there is
  memory for the times of \<open>n\<close> processes.
\<close>

definition can_finalize :: "allocator \<Rightarrow> nat \<Rightarrow> address \<Rightarrow> 'a globals_scheme \<Rightarrow> bool" where
  "can_finalize alloc n b st \<longleftrightarrow> b \<noteq> 0 \<and> b \<in> fst ` set (allocs st) \<and>
     (\<exists>jb. aget (job_list st) 0 = Inr (Some jb) \<and> rank_list jb \<noteq> []) \<and>
     (let al = filter (\<lambda>(q, _). q \<noteq> b) (allocs st) in fresh_block al (alloc al (8 * n)) (8 * n))"

text \<open>Apart from the loop, it frees two blocks.\<close>

lemma finalize_frame:
  assumes "can_finalize alloc n b st" and "rep_counter st + 1 = int K"
  shows "\<exists>p. p \<noteq> 0 \<and> (\<forall>tm'. finalize_loop ops p K 0 as (map junk [0..<n]) tm = Inr tm' \<longrightarrow>
     MPI_Finalize alloc ops n b junk as tm st = Inr (0, tm', freed b (st\<lparr>rank_ignore_list := []\<rparr>)))"
proof -
  let ?st1 = "freed b (st\<lparr>rank_ignore_list := []\<rparr>)" and ?p = "alloc (filter (\<lambda>(q, _). q \<noteq> b) (allocs st)) (8 * n)"
  have f: "c_free b (st\<lparr>rank_ignore_list := []\<rparr>) = Inr ?st1"
    using assms(1) by (intro c_free_live) (auto simp: can_finalize_def)
  have m: "c_malloc alloc (8 * n) ?st1 = (?p, ?st1\<lparr>allocs := (?p, 8 * n) # allocs ?st1\<rparr>)" "?p \<noteq> 0"
    using assms(1) by (auto simp: can_finalize_def c_malloc_def freed_def Let_def fresh_block_def)
  obtain jb r where jb: "aget (job_list st) 0 = Inr (Some jb)" "aget (rank_list jb) 0 = Inr r"
    using assms(1) by (auto simp: can_finalize_def aget_def)
  have "MPI_Finalize alloc ops n b junk as tm st = Inr (0, tm', ?st1)"
    if "finalize_loop ops ?p K 0 as (map junk [0..<n]) tm = Inr tm'" for tm'
    using that f m c_free_malloc [OF m] assms(2) jb by (simp add: MPI_Finalize_def freed_def some_or_Some)
  with m(2) show ?thesis by blast
qed

text \<open>
  C25: \<open>MPI_Finalize\<close> of the first process averages the measured times. After \<open>K\<close> updates entry
  \<open>n < K\<close> of each of the two arrays holds the mean of those times gathered for update \<open>n\<close> that
  are not zero, a process without a part in the update measuring none (0 if nobody measured
  one); all other entries are as they were, the block for swallowed messages is freed and so
  is the array the times were gathered in; nothing else changes.
\<close>

theorem finalize_averages:
  assumes "can_finalize alloc global_size blackhole st"
    and "rep_counter st + 1 = int (length cts)" and "length rts = length cts"
    and "list_all (\<lambda>ts. length ts = global_size) (cts @ rts)"
    and "length cts \<le> length (ckpt_time tm)" and "length cts \<le> length (rep_time tm)"
  shows "MPI_Finalize alloc ops global_size blackhole junk (zip (map At_Root cts) (map At_Root rts)) tm st = Inr (0,
     tm\<lparr>ckpt_time := map (mean ops) cts @ drop (length cts) (ckpt_time tm),
        rep_time := map (mean ops) rts @ drop (length cts) (rep_time tm)\<rparr>,
     freed blackhole (st\<lparr>rank_ignore_list := []\<rparr>))"
proof -
  obtain p where p: "p \<noteq> 0" "\<forall>tm'. finalize_loop ops p (length cts) 0 (zip (map At_Root cts) (map At_Root rts))
      (map junk [0..<global_size]) tm = Inr tm' \<longrightarrow>
     MPI_Finalize alloc ops global_size blackhole junk (zip (map At_Root cts) (map At_Root rts)) tm st =
       Inr (0, tm', freed blackhole (st\<lparr>rank_ignore_list := []\<rparr>))"
    using finalize_frame [OF assms(1,2)] by blast
  have "finalize_loop ops p (length cts) (int 0) (zip (map At_Root cts) (map At_Root rts)) (map junk [0..<global_size]) tm = Inr (tm\<lparr>
     ckpt_time := take 0 (ckpt_time tm) @ map (average ops) cts @ drop (0 + length cts) (ckpt_time tm),
     rep_time := take 0 (rep_time tm) @ map (average ops) rts @ drop (0 + length cts) (rep_time tm)\<rparr>)"
    using assms(3-6) p(1) by (intro finalize_loop_root) simp_all
  moreover have "average ops = mean ops" by (rule ext) (rule average_mean)
  ultimately show ?thesis by (intro p(2) [rule_format]) simp
qed

text \<open>Three processes, two updates; the times are whole seconds here.\<close>

definition demo_ops :: "int double_ops" where
  "demo_ops = \<lparr>dzero = 0, dadd = (+), ddiv = (div), nonzero = (\<lambda>t. t \<noteq> 0)\<rparr>"

definition demo_done :: globals where
  "demo_done = (demo_globals 0)\<lparr>job_list := [Some \<lparr>job_job_id = 0, worker_count = 3, rank_list = [0, 1, 2]\<rparr>],
     rank_ignore_list := [0, 0, 0], rep_counter := 1, allocs := [(4096, 10000000)]\<rparr>"

theorem finalize_averages_witness:
  "MPI_Finalize bump demo_ops 3 4096 (\<lambda>_. 7) (zip (map At_Root [[0, 4, 6], [2, 0, 0]]) (map At_Root [[0, 0, 0], [1, 2, 3]]))
     \<lparr>ckpt_time = replicate 100 0, rep_time = replicate 100 0\<rparr> demo_done =
   Inr (0, \<lparr>ckpt_time = [5, 2] @ replicate 98 0, rep_time = [0, 2] @ replicate 98 0\<rparr>,
     freed 4096 (demo_done\<lparr>rank_ignore_list := []\<rparr>))"
proof -
  have "MPI_Finalize bump demo_ops 3 4096 (\<lambda>_. 7) (zip (map At_Root [[0, 4, 6], [2, 0, 0]]) (map At_Root [[0, 0, 0], [1, 2, 3]]))
     \<lparr>ckpt_time = replicate 100 0, rep_time = replicate 100 0\<rparr> demo_done =
   Inr (0, \<lparr>ckpt_time = replicate 100 0, rep_time = replicate 100 0\<rparr>
     \<lparr>ckpt_time := map (mean demo_ops) [[0, 4, 6], [2, 0, 0]] @ drop (length [[0, 4, 6], [2, 0, 0 :: int]])
        (ckpt_time \<lparr>ckpt_time = replicate 100 0, rep_time = replicate 100 0\<rparr>),
      rep_time := map (mean demo_ops) [[0, 0, 0], [1, 2, 3]] @ drop (length [[0, 4, 6], [2, 0, 0 :: int]])
        (rep_time \<lparr>ckpt_time = replicate 100 0, rep_time = replicate 100 0\<rparr>)\<rparr>,
     freed 4096 (demo_done\<lparr>rank_ignore_list := []\<rparr>))"
    by (rule finalize_averages) (simp_all add: demo_done_def can_finalize_def fresh_block_def bump_def aget_def)
  then show ?thesis by (simp add: mean_def demo_ops_def)
qed

text \<open>
  Every other process stores the average of an array it never wrote. Nobody prints it, but the
  code reads uninitialised memory.
\<close>

lemma finalize_loop_elsewhere:
  assumes "p \<noteq> 0" and "n + K \<le> length (ckpt_time tm)" and "n + K \<le> length (rep_time tm)"
  shows "finalize_loop ops p K (int n) (replicate K (Elsewhere, Elsewhere)) time tm = Inr (tm\<lparr>
     ckpt_time := take n (ckpt_time tm) @ replicate K (average ops time) @ drop (n + K) (ckpt_time tm),
     rep_time := take n (rep_time tm) @ replicate K (average ops time) @ drop (n + K) (rep_time tm)\<rparr>)"
  using assms
proof (induction K arbitrary: n tm)
  case (Suc K)
  let ?a = "average ops time"
  let ?tm = "tm\<lparr>ckpt_time := (ckpt_time tm)[n := ?a], rep_time := (rep_time tm)[n := ?a]\<rparr>"
  have g: "gather_average ops p (int n) Elsewhere time arr = Inr (time, arr[n := ?a])" if "n < length arr" for arr
    using that Suc.prems(1) by (simp add: gather_average_def PMPI_Gather_def guardE_True)
  have "finalize_loop ops p K (int (Suc n)) (replicate K (Elsewhere, Elsewhere)) time ?tm = Inr (?tm\<lparr>
     ckpt_time := take (Suc n) (ckpt_time ?tm) @ replicate K ?a @ drop (Suc n + K) (ckpt_time ?tm),
     rep_time := take (Suc n) (rep_time ?tm) @ replicate K ?a @ drop (Suc n + K) (rep_time ?tm)\<rparr>)"
    by (rule Suc.IH) (use Suc.prems in simp_all)
  then show ?case using g Suc.prems(2,3) by (simp add: add.commute take_Suc_update)
qed simp

lemma finalize_averages_junk:
  assumes "can_finalize alloc global_size blackhole st" and "rep_counter st + 1 = int K"
    and "K \<le> length (ckpt_time tm)" and "K \<le> length (rep_time tm)" and "n < K"
  shows "\<exists>tm'. MPI_Finalize alloc ops global_size blackhole junk (replicate K (Elsewhere, Elsewhere)) tm st =
       Inr (0, tm', freed blackhole (st\<lparr>rank_ignore_list := []\<rparr>)) \<and>
     ckpt_time tm' ! n = average ops (map junk [0..<global_size])"
proof -
  obtain p where p: "p \<noteq> 0" "\<forall>tm'. finalize_loop ops p K 0 (replicate K (Elsewhere, Elsewhere)) (map junk [0..<global_size]) tm = Inr tm' \<longrightarrow>
     MPI_Finalize alloc ops global_size blackhole junk (replicate K (Elsewhere, Elsewhere)) tm st =
       Inr (0, tm', freed blackhole (st\<lparr>rank_ignore_list := []\<rparr>))"
    using finalize_frame [OF assms(1,2)] by blast
  have "finalize_loop ops p K (int 0) (replicate K (Elsewhere, Elsewhere)) (map junk [0..<global_size]) tm = Inr (tm\<lparr>
     ckpt_time := take 0 (ckpt_time tm) @ replicate K (average ops (map junk [0..<global_size])) @ drop (0 + K) (ckpt_time tm),
     rep_time := take 0 (rep_time tm) @ replicate K (average ops (map junk [0..<global_size])) @ drop (0 + K) (rep_time tm)\<rparr>)"
    using assms(3,4) p(1) by (intro finalize_loop_elsewhere) simp_all
  then have f: "finalize_loop ops p K 0 (replicate K (Elsewhere, Elsewhere)) (map junk [0..<global_size]) tm = Inr (tm\<lparr>
     ckpt_time := replicate K (average ops (map junk [0..<global_size])) @ drop K (ckpt_time tm),
     rep_time := replicate K (average ops (map junk [0..<global_size])) @ drop K (rep_time tm)\<rparr>)"
    by simp
  show ?thesis using p(2) [rule_format, OF f] assms(5) by (simp add: nth_append)
qed

end
