(* ===== verification/Fortran.thy ===== *)
theory Fortran
  imports Requests Update Finalize
begin

text \<open>
  The Fortran entry points of \<open>src/fortran/mpi.c\<close>. Fortran passes every argument by reference
  and a handle as a four byte \<open>INTEGER\<close>; the wrappers load the arguments and call the C
  functions. What \<open>PMPI_Comm_f2c\<close> and \<open>PMPI_Type_f2c\<close> make of a handle is a parameter: whether
  the communicator is \<open>MPI_COMM_WORLD\<close>, and the size of the type in bytes. The value of a
  request is the address of its \<open>Aggregate_Request\<close>, chosen by the parameter \<open>new\<close>.
\<close>

section \<open>Arguments\<close>

record handles =
  comm_f2c :: "int \<Rightarrow> bool"
  type_f2c :: "int \<Rightarrow> nat"

record fortran = ulfm +
  agg_reqs :: "address \<Rightarrow> Aggregate_Request option"

definition f_int :: "'a memory_scheme \<Rightarrow> address \<Rightarrow> int" where
  "f_int st a = sint (dec_int (read_bytes (mem st) a 4))"

definition f_store :: "address \<Rightarrow> int \<Rightarrow> 'a memory_scheme \<Rightarrow> 'a memory_scheme" where
  "f_store a v st = st\<lparr>mem := write_bytes (mem st) a (enc_int (word_of_int v))\<rparr>"

text \<open>The size of a message; a negative cnt makes the error handler abort.\<close>

definition f_bytes :: "handles \<Rightarrow> 'a memory_scheme \<Rightarrow> address \<Rightarrow> address \<Rightarrow> nat result" where
  "f_bytes h st cnt datatype =
     bindE (guardE (0 \<le> f_int st cnt) (Abort_With 300)) (\<lambda>_.
       Inr (nat (f_int st cnt) * type_f2c h (f_int st datatype)))"

definition f_world :: "handles \<Rightarrow> 'a memory_scheme \<Rightarrow> address \<Rightarrow> bool" where
  "f_world h st comm = comm_f2c h (f_int st comm)"

section \<open>The wrappers\<close>

text \<open>
  \<open>mpi_send_f\<close> models \<open>mpi_send_\<close>, and so on. None of these sets \<open>ierr\<close>. The buffers of the
  collective operations are lists of bytes, as in the C functions.
\<close>

definition mpi_init_f :: "platform \<Rightarrow> poll_env \<Rightarrow> MPI_Comm \<Rightarrow> int \<Rightarrow> nat \<Rightarrow> byte list \<Rightarrow> 32 word \<Rightarrow> byte list \<Rightarrow> files \<Rightarrow>
    'a ulfm_scheme \<Rightarrow> (address \<times> files \<times> byte list list \<times> 'a ulfm_scheme) result" where
  "mpi_init_f = MPI_Init"

definition mpi_finalize_f :: "allocator \<Rightarrow> 'd double_ops \<Rightarrow> nat \<Rightarrow> address \<Rightarrow> (nat \<Rightarrow> 'd) \<Rightarrow> ('d gathered \<times> 'd gathered) list \<Rightarrow>
    'd timers \<Rightarrow> 'a globals_scheme \<Rightarrow> ('d timers \<times> 'a globals_scheme) result" where
  "mpi_finalize_f alloc ops global_size blackhole junk as tm st =
     bindE (MPI_Finalize alloc ops global_size blackhole junk as tm st) (\<lambda>(_, tm1, st1). Inr (tm1, st1))"

definition mpi_comm_rank_f :: "address \<Rightarrow> 'a ulfm_scheme \<Rightarrow> 'a ulfm_scheme" where
  "mpi_comm_rank_f rnk st = f_store rnk (MPI_Comm_rank st) st"

definition mpi_comm_size_f :: "address \<Rightarrow> 'a ulfm_scheme \<Rightarrow> 'a ulfm_scheme" where
  "mpi_comm_size_f sz st = f_store sz (MPI_Comm_size st) st"

definition mpi_send_f :: "handles \<Rightarrow> translation \<Rightarrow> splitter \<Rightarrow> address \<Rightarrow> address \<Rightarrow> address \<Rightarrow> address \<Rightarrow> address \<Rightarrow> address \<Rightarrow>
    answer list \<Rightarrow> 'a ulfm_scheme \<Rightarrow> (message list \<times> answer list \<times> 'a ulfm_scheme) result" where
  "mpi_send_f h tln sp buf cnt datatype dest tag comm tr st =
     bindE (f_bytes h st cnt datatype) (\<lambda>n.
     bindE (MPI_Send tln sp buf n (f_int st dest) (f_int st tag) (f_world h st comm) tr st) (\<lambda>(c_ierr, msgs, tr1, st1).
       Inr (msgs, tr1, st1)))"

definition mpi_recv_f :: "handles \<Rightarrow> translation \<Rightarrow> splitter \<Rightarrow> address \<Rightarrow> address \<Rightarrow> address \<Rightarrow> address \<Rightarrow> address \<Rightarrow> address \<Rightarrow>
    answer list \<Rightarrow> 'a ulfm_scheme \<Rightarrow> ((int \<times> int) list \<times> answer list \<times> 'a ulfm_scheme) result" where
  "mpi_recv_f h tln sp buf cnt datatype source tag comm tr st =
     bindE (f_bytes h st cnt datatype) (\<lambda>n.
     bindE (MPI_Recv tln sp buf n (f_int st source) (f_int st tag) (f_world h st comm) tr st) (\<lambda>(c_ierr, posts, tr1, st1).
       Inr (posts, tr1, st1)))"

definition mpi_scatter_f :: "handles \<Rightarrow> 'a ulfm_scheme poll \<Rightarrow> translation \<Rightarrow> splitter \<Rightarrow> address \<Rightarrow> address \<Rightarrow> address \<Rightarrow>
    byte list \<Rightarrow> answer list \<Rightarrow> 'a ulfm_scheme \<Rightarrow> (byte list \<times> answer list \<times> 'a ulfm_scheme) result" where
  "mpi_scatter_f h poll tln sp recvcount recvtype comm rbuf tr st =
     bindE (f_bytes h st recvcount recvtype) (\<lambda>n.
     bindE (MPI_Scatter poll tln sp n (f_world h st comm) rbuf tr st) (\<lambda>(c_ierr, rb, tr1, st1). Inr (rb, tr1, st1)))"

definition mpi_gather_f :: "handles \<Rightarrow> 'a ulfm_scheme poll \<Rightarrow> translation \<Rightarrow> splitter \<Rightarrow> address \<Rightarrow> address \<Rightarrow> address \<Rightarrow>
    byte list \<Rightarrow> answer list \<Rightarrow> 'a ulfm_scheme \<Rightarrow> (byte list \<times> answer list \<times> 'a ulfm_scheme) result" where
  "mpi_gather_f h poll tln sp recvcount recvtype comm rbuf tr st =
     bindE (f_bytes h st recvcount recvtype) (\<lambda>n.
     bindE (MPI_Gather poll tln sp n (f_world h st comm) rbuf tr st) (\<lambda>(c_ierr, rb, tr1, st1). Inr (rb, tr1, st1)))"

definition mpi_allgather_f :: "handles \<Rightarrow> 'a ulfm_scheme poll \<Rightarrow> translation \<Rightarrow> splitter \<Rightarrow> address \<Rightarrow> address \<Rightarrow> address \<Rightarrow>
    byte list \<Rightarrow> answer list \<Rightarrow> 'a ulfm_scheme \<Rightarrow> (byte list \<times> answer list \<times> 'a ulfm_scheme) result" where
  "mpi_allgather_f h poll tln sp recvcount recvtype comm rbuf tr st =
     bindE (f_bytes h st recvcount recvtype) (\<lambda>n.
     bindE (MPI_Allgather poll tln sp n (f_world h st comm) rbuf tr st) (\<lambda>(c_ierr, rb, tr1, st1). Inr (rb, tr1, st1)))"

definition mpi_allreduce_f :: "handles \<Rightarrow> 'a ulfm_scheme poll \<Rightarrow> translation \<Rightarrow> splitter \<Rightarrow> address \<Rightarrow> address \<Rightarrow> address \<Rightarrow>
    byte list \<Rightarrow> answer list \<Rightarrow> 'a ulfm_scheme \<Rightarrow> (byte list \<times> answer list \<times> 'a ulfm_scheme) result" where
  "mpi_allreduce_f h poll tln sp cnt datatype comm rbuf tr st =
     bindE (f_bytes h st cnt datatype) (\<lambda>n.
     bindE (MPI_Allreduce poll tln sp n (f_world h st comm) rbuf tr st) (\<lambda>(c_ierr, rb, tr1, st1). Inr (rb, tr1, st1)))"

definition mpi_bcast_f :: "handles \<Rightarrow> 'a ulfm_scheme poll \<Rightarrow> translation \<Rightarrow> splitter \<Rightarrow> address \<Rightarrow> address \<Rightarrow> address \<Rightarrow> address \<Rightarrow>
    byte list \<Rightarrow> answer list \<Rightarrow> 'a ulfm_scheme \<Rightarrow> (int list \<times> byte list \<times> answer list \<times> 'a ulfm_scheme) result" where
  "mpi_bcast_f h poll tln sp cnt datatype root comm buf tr st =
     bindE (f_bytes h st cnt datatype) (\<lambda>n.
     bindE (MPI_Bcast poll tln sp n (f_int st root) (f_world h st comm) buf tr st) (\<lambda>(c_ierr, roots, b, tr1, st1).
       Inr (roots, b, tr1, st1)))"

definition mpi_reduce_f :: "handles \<Rightarrow> 'a ulfm_scheme poll \<Rightarrow> translation \<Rightarrow> splitter \<Rightarrow> address \<Rightarrow> address \<Rightarrow> address \<Rightarrow> address \<Rightarrow>
    int \<Rightarrow> byte list \<Rightarrow> answer list \<Rightarrow> 'a ulfm_scheme \<Rightarrow> (byte list \<times> answer list \<times> 'a ulfm_scheme) result" where
  "mpi_reduce_f h poll tln sp cnt datatype root comm flag0 rbuf tr st =
     bindE (f_bytes h st cnt datatype) (\<lambda>n.
     bindE (MPI_Reduce poll tln sp n (f_int st root) (f_world h st comm) flag0 rbuf tr st) (\<lambda>(c_ierr, rb, tr1, st1).
       Inr (rb, tr1, st1)))"

text \<open>
  \<open>MPI_Isend\<close> is not redefined by \<open>src/mpi/init.c\<close>, so the call goes to the MPI library itself:
  one message, to the process whose number is the job, under the caller's tag. \<open>lib\<close> is the
  status and the handle the library returns; the handle is cut to an \<open>int\<close>.
\<close>

definition mpi_isend_f :: "handles \<Rightarrow> int \<times> address \<Rightarrow> address \<Rightarrow> address \<Rightarrow> address \<Rightarrow> address \<Rightarrow> address \<Rightarrow> address \<Rightarrow> address \<Rightarrow>
    'a ulfm_scheme \<Rightarrow> (message \<times> 'a ulfm_scheme) result" where
  "mpi_isend_f h lib buf cnt datatype dest tag request ierr st =
     bindE (f_bytes h st cnt datatype) (\<lambda>n.
       let msg = (f_int st dest, f_int st tag, read_bytes (mem st) buf n);
           st1 = (if ierr \<noteq> 0 then f_store ierr (fst lib) st else st)
       in Inr (msg, if fst lib = MPI_SUCCESS then f_store request (uint (snd lib)) st1 else st1))"

definition mpi_irecv_f :: "handles \<Rightarrow> allocator \<Rightarrow> ((address \<Rightarrow> Aggregate_Request option) \<Rightarrow> address) \<Rightarrow> translation \<Rightarrow> splitter \<Rightarrow>
    address \<Rightarrow> address \<Rightarrow> address \<Rightarrow> address \<Rightarrow> address \<Rightarrow> address \<Rightarrow> address \<Rightarrow> address \<Rightarrow> answer list \<Rightarrow>
    'a fortran_scheme \<Rightarrow> ((int \<times> int) list \<times> answer list \<times> 'a fortran_scheme) result" where
  "mpi_irecv_f h alloc new tln sp buf cnt datatype source tag comm request ierr tr st =
     bindE (f_bytes h st cnt datatype) (\<lambda>n.
     bindE (MPI_Irecv alloc tln sp buf n (f_int st source) (f_int st tag) (f_world h st comm) tr st)
       (\<lambda>(c_ierr, agg, posts, tr1, st1).
         let c_req = new (agg_reqs st1)
         in bindE (guardE (c_req \<noteq> 0 \<and> agg_reqs st1 c_req = None) Null_Deref) (\<lambda>_.
            let st2 = st1\<lparr>agg_reqs := (agg_reqs st1)(c_req \<mapsto> agg)\<rparr>
            in bindE (if ierr = 0 then Inr st2 else bindE (some_or Uninitialised c_ierr) (\<lambda>c. Inr (f_store ierr c st2))) (\<lambda>st3.
                 Inr (posts, tr1, st3\<lparr>mem := store_addr (mem st3) request c_req\<rparr>)))))"

text \<open>
  Waiting goes through the eight bytes at \<open>request\<close>. The C status is a local variable, so the
  caller's \<open>status\<close> is never written. The aggregate is freed unless it had no slot.
\<close>

definition mpi_wait_f :: "translation \<Rightarrow> splitter \<Rightarrow> address \<Rightarrow> wait_answer list \<Rightarrow> 'a fortran_scheme \<Rightarrow>
    ((int \<times> int) list \<times> wait_answer list \<times> 'a fortran_scheme) result" where
  "mpi_wait_f tln sp request ws st =
     (let c_req = load_addr (mem st) request
      in bindE (some_or Out_Of_Bounds (agg_reqs st c_req)) (\<lambda>agg.
         bindE (MPI_Wait tln sp agg False ws st) (\<lambda>(c_ierr, c_status, posts, ws1, st1).
           Inr (posts, ws1,
                if request_count agg = 0 \<or> req_array agg = [] then st1
                else st1\<lparr>agg_reqs := (agg_reqs st1)(c_req := None)\<rparr>))))"

section \<open>A receive and its wait\<close>

text \<open>The arguments at the addresses of a call that receives from job \<open>source\<close>.\<close>

definition f_args :: "handles \<Rightarrow> 'a memory_scheme \<Rightarrow> address \<Rightarrow> address \<Rightarrow> address \<Rightarrow> address \<Rightarrow> address \<Rightarrow> nat \<Rightarrow> int \<Rightarrow> int \<Rightarrow> bool" where
  "f_args h st cnt datatype source tag comm sz job t \<longleftrightarrow>
     0 \<le> f_int st cnt \<and> nat (f_int st cnt) * type_f2c h (f_int st datatype) = sz \<and>
     f_int st source = job \<and> f_int st tag = t \<and> f_world h st comm"

definition fresh_request :: "((address \<Rightarrow> Aggregate_Request option) \<Rightarrow> address) \<Rightarrow> 'a fortran_scheme \<Rightarrow> bool" where
  "fresh_request new st \<longleftrightarrow> new (agg_reqs st) \<noteq> 0 \<and> agg_reqs st (new (agg_reqs st)) = None"

text \<open>The memory after the call: the status, then the eight bytes of the request.\<close>

definition irecv_mem :: "address \<Rightarrow> address \<Rightarrow> address \<Rightarrow> 'a memory_scheme \<Rightarrow> address \<Rightarrow> byte" where
  "irecv_mem ierr request p st =
     store_addr (if ierr = 0 then mem st else write_bytes (mem st) ierr (enc_int (word_of_int MPI_SUCCESS))) request p"

lemma mpi_irecv_live:
  assumes "f_args h st cnt datatype source tag comm sz job t" and "fresh_request new st"
    and "live_job st job jb" and "can_allocate alloc sz jb st" and "length as = nat (worker_count jb)"
    and "list_all (\<lambda>a. astatus a = MPI_SUCCESS) as" and "block_for alloc buf sz jb st = (tb, bl)"
  shows "mpi_irecv_f h alloc new tln sp buf cnt datatype source tag comm request ierr (as @ tr) st =
     Inr (map (\<lambda>w. (w, SET_TAG w t)) (workers jb), tr,
       st\<lparr>mem := irecv_mem ierr request (new (agg_reqs st)) st, allocs := bl, request_pending := request_pending st + 1,
          ignore_process_failure := 0, agg_reqs := (agg_reqs st)(new (agg_reqs st) \<mapsto> posted buf sz t jb st tb)\<rparr>)"
  using assms(1,2) MPI_Irecv_live [OF assms(3-7), of tln sp t tr]
  by (simp add: mpi_irecv_f_def f_args_def f_bytes_def fresh_request_def guardE_True some_or_Some Let_def irecv_mem_def f_store_def)

text \<open>
  C16: a Fortran receive and its wait. The eight bytes of the request hold the address of the
  aggregate until the wait; \<open>mpi_wait_\<close> always passes a status of its own, so the bytes of the
  first worker that completed reach the caller's buffer, also with several workers, and the
  aggregate and its temporary block are freed.
\<close>

theorem fortran_irecv_wait:
  assumes "f_args h st cnt datatype source tag comm sz job t" and "fresh_request new st"
    and "live_job st job jb" and "can_allocate alloc sz jb st" and "length as = nat (worker_count jb)"
    and "list_all (\<lambda>a. astatus a = MPI_SUCCESS) as"
    and "first_good jb w i d" and "length d = sz" and "spares tln (wfailure w) (workers jb ! i) st"
    and "rank_2_job st = Some tbl" and "aget tbl (workers jb ! i) = Inr (Some job)"
    and "pass_receiver_cont_add st = 0"
  shows "\<exists>posts st1 st2.
     mpi_irecv_f h alloc new tln sp buf cnt datatype source tag comm request ierr (as @ tr) st = Inr (posts, tr, st1) \<and>
     load_addr (mem st1) request = new (agg_reqs st) \<and>
     mpi_wait_f tln sp request (w # ws) st1 = Inr ([], ws, st2) \<and>
     read_bytes (mem st2) buf sz = d \<and> agg_reqs st2 (new (agg_reqs st)) = None \<and>
     allocs st2 = allocs st \<and> request_pending st2 = request_pending st"
proof -
  obtain tb bl where b: "block_for alloc buf sz jb st = (tb, bl)" by (cases "block_for alloc buf sz jb st")
  let ?p = "new (agg_reqs st)" and ?agg = "posted buf sz t jb st tb"
  define st' where "st' = st\<lparr>mem := irecv_mem ierr request (new (agg_reqs st)) st, agg_reqs := (agg_reqs st)(?p \<mapsto> ?agg)\<rparr>"
  let ?st1 = "st'\<lparr>allocs := bl, request_pending := request_pending st' + 1, ignore_process_failure := 0\<rparr>"
  have sel: "job_list st' = job_list st" "rank_ignore_list st' = rank_ignore_list st" "rank_2_job st' = rank_2_job st"
    "allocs st' = allocs st" "request_pending st' = request_pending st" "pass_receiver_cont_add st' = 0" "node st' = node st"
    "jobs_count (node st') = jobs_count (node st)" "agg_reqs st' ?p = Some ?agg" "load_addr (mem st') request = ?p"
    using assms(12) by (simp_all add: st'_def irecv_mem_def)
  have buf: "SET_RIGHT_R_BUFFER st' buf = buf" "SET_RIGHT_R_BUFFER st buf = buf"
    using assms(12) sel by (simp_all add: SET_RIGHT_R_BUFFER_def)
  have same: "live_job st' job jb" "can_allocate alloc sz jb st'" "spares tln (wfailure w) (workers jb ! i) st'"
    "rank_2_job st' = Some tbl" "posted buf sz t jb st' tb = ?agg" "block_for alloc buf sz jb st' = block_for alloc buf sz jb st"
    using assms(3,4,9,10) buf
    by (simp_all add: live_job_def can_allocate_def spares_def known_rank_def block_for_def posted_def sel Let_def cong: option.case_cong)
  note same = same(1-5) same(6) [unfolded b]
  have posted: "MPI_Irecv alloc tln sp buf sz job t True (as @ tr) st' =
      Inr (Some MPI_SUCCESS, ?agg, map (\<lambda>w. (w, SET_TAG w t)) (workers jb), tr, ?st1)"
    using MPI_Irecv_live [OF same(1,2) assms(5,6) same(6), of tln sp t tr] same(5) by simp
  obtain st2 where w: "MPI_Wait tln sp ?agg False (w # ws) ?st1 =
      Inr (MPI_SUCCESS, Some ((statuses w ! i)\<lparr>MPI_SOURCE := job\<rparr>), [], ws, st2)"
    "read_bytes (mem st2) buf sz = d" "allocs st2 = allocs st'" "request_pending st2 = request_pending st'"
    using irecv_wait_state [OF same(1,2) assms(5,6,7,8) same(3,4) assms(11) same(6), of sp t tr ws] posted buf by auto
  have "req_array ?agg \<noteq> []" "request_count ?agg \<noteq> 0" using assms(3) by (auto simp: posted_def slots_def live_job_def)
  then have "mpi_wait_f tln sp request (w # ws) ?st1 = Inr ([], ws, st2\<lparr>agg_reqs := (agg_reqs st2)(?p := None)\<rparr>)"
    using sel(9,10) w(1) by (simp add: mpi_wait_f_def some_or_Some)
  moreover have "mpi_irecv_f h alloc new tln sp buf cnt datatype source tag comm request ierr (as @ tr) st =
      Inr (map (\<lambda>w. (w, SET_TAG w t)) (workers jb), tr, ?st1)"
    using mpi_irecv_live [OF assms(1-6) b, of tln sp request ierr tr] by (simp add: st'_def)
  ultimately show ?thesis using sel(4,5,10) w(2,3,4) by simp
qed

text \<open>
  Process 1 of the example world with the arguments of a receive of two bytes from job 1 in
  memory. The block allocator hands out two neighbouring blocks for the aggregates.
\<close>

definition fortran_world :: fortran where
  "fortran_world = ulfm.extend
     (readme_world\<lparr>mem := (\<lambda>x. if x = 100 then 2 else if x = 108 then 1 else if x = 112 then 7 else 0)\<rparr>)
     \<lparr>agg_reqs = (\<lambda>_. None)\<rparr>"

definition fortran_handles :: handles where
  "fortran_handles = \<lparr>comm_f2c = (\<lambda>c. c = 0), type_f2c = (\<lambda>_. 1)\<rparr>"

definition fortran_new :: "(address \<Rightarrow> Aggregate_Request option) \<Rightarrow> address" where
  "fortran_new r = (if r 0x555500001000 = None then 0x555500001000 else 0x555500002000)"

lemma fortran_world_sel:
  "job_list fortran_world = job_list readme_world" "rank_2_job fortran_world = rank_2_job readme_world"
  "rank_ignore_list fortran_world = rank_ignore_list readme_world" "node fortran_world = node readme_world"
  "allocs fortran_world = []" "pass_receiver_cont_add fortran_world = 0" "agg_reqs fortran_world = (\<lambda>_. None)"
  "mem fortran_world = (\<lambda>x. if x = 100 then 2 else if x = 108 then 1 else if x = 112 then 7 else 0)"
  using readme_receives(7,8) by (simp_all add: fortran_world_def ulfm.defs)

lemma f_int_small:
  assumes "mem st a = b" and "mem st (a + 1) = 0" and "mem st (a + 2) = 0" and "mem st (a + 3) = 0"
  shows "f_int st a = int (unat b)"
proof -
  have "read_bytes (mem st) a 4 = [b, 0, 0, 0]"
    using assms by (simp add: read_bytes_def upt_rec)
  then have "f_int st a = sint (word_of_nat (unat b) :: 32 word)" by (simp add: f_int_def dec_int_def)
  moreover have "unat b < 2 ^ 8" using unsigned_less [of b] by simp
  then have "unat (word_of_nat (unat b) :: 32 word) = unat b"
    by (simp add: unsigned_ucast_eq take_bit_nat_eq_self)
  ultimately show ?thesis using \<open>unat b < 2 ^ 8\<close> by (simp add: sint_small)
qed

lemma fortran_world_ints:
  "f_int fortran_world 100 = 2" "f_int fortran_world 104 = 0" "f_int fortran_world 108 = 1" "f_int fortran_world 112 = 7"
  "f_int fortran_world 116 = 0"
  by (simp_all add: f_int_small fortran_world_sel)

lemma fortran_world_args: "f_args fortran_handles fortran_world 100 104 108 112 116 2 1 7"
  by (simp add: f_args_def f_world_def fortran_handles_def fortran_world_ints)

lemma fortran_world_receives:
  "live_job fortran_world 1 (readme_jobs ! 1)" "can_allocate (\<lambda>_ _. 4096) 2 (readme_jobs ! 1) fortran_world"
  "spares group_translate (wfailure readme_wait) 1 fortran_world" "fresh_request fortran_new fortran_world"
  using readme_receives(1,2,6,7)
  by (simp_all add: live_job_def can_allocate_def spares_def known_rank_def fortran_world_sel fresh_request_def fortran_new_def
      cong: option.case_cong)

theorem fortran_irecv_wait_witness:
  "\<exists>posts st1 st2.
     mpi_irecv_f fortran_handles (\<lambda>_ _. 4096) fortran_new group_translate any_split 64 100 104 108 112 116 200 300
       (replicate 2 (quiet_answer None) @ []) fortran_world = Inr (posts, [], st1) \<and>
     load_addr (mem st1) 200 = fortran_new (agg_reqs fortran_world) \<and>
     mpi_wait_f group_translate any_split 200 [readme_wait] st1 = Inr ([], [], st2) \<and>
     read_bytes (mem st2) 64 2 = [5, 6] \<and> agg_reqs st2 (fortran_new (agg_reqs fortran_world)) = None \<and>
     allocs st2 = allocs fortran_world \<and> request_pending st2 = request_pending fortran_world"
  by (rule fortran_irecv_wait [OF fortran_world_args fortran_world_receives(4,1,2) _ _ readme_receives(3),
      where tbl = "[Some 0, Some 1, Some 1]"])
    (simp_all add: fortran_world_receives fortran_world_sel readme_receives readme_sel list_all_iff aget_nat del: One_nat_def)

section \<open>Adjacent requests\<close>

lemma read_bytes_add: "read_bytes m a (n + k) = read_bytes m a n @ read_bytes m (a + word_of_nat n) k"
  by (rule nth_equalityI) (auto simp: read_bytes_nth nth_append algebra_simps of_nat_diff)

lemma read_write_prefix:
  assumes "k \<le> length bs" and "length bs < 2 ^ 64"
  shows "read_bytes (write_bytes m a bs) a k = take k bs"
proof -
  have "read_bytes (write_bytes m a bs) a (k + (length bs - k)) = bs" using assms by (simp add: read_write_bytes)
  then have "take k (read_bytes (write_bytes m a bs) a k @ read_bytes (write_bytes m a bs) (a + word_of_nat k) (length bs - k)) =
      take k bs"
    by (simp only: read_bytes_add)
  then show ?thesis by simp
qed

text \<open>The first four bytes of one address and the first four of another.\<close>

definition mixed :: "address \<Rightarrow> address \<Rightarrow> address" where
  "mixed p q = dec_addr (take 4 (enc_addr p) @ take 4 (enc_addr q))"

lemma apart_next_int: "apart (r + 4) 8 r 4"
  by (simp add: apart_def)

lemma load_mixed:
  assumes "ierr = 0 \<or> apart ierr 4 r 4"
  shows "load_addr (irecv_mem ierr (r + 4) q (st\<lparr>mem := store_addr m r p\<rparr>)) r = mixed p q"
proof -
  let ?m = "if ierr = 0 then store_addr m r p else write_bytes (store_addr m r p) ierr (enc_int (word_of_int MPI_SUCCESS))"
  have "read_bytes ?m r 4 = read_bytes (store_addr m r p) r 4"
    using assms by (auto simp: read_write_apart enc_simps)
  also have "\<dots> = take 4 (enc_addr p)" by (simp add: store_addr_def read_write_prefix enc_simps)
  finally have "read_bytes (store_addr ?m (r + 4) q) r 4 = take 4 (enc_addr p)"
    using apart_next_int [of r] by (simp add: store_addr_def read_write_apart enc_simps)
  moreover have "read_bytes (store_addr ?m (r + 4) q) (r + 4) 4 = take 4 (enc_addr q)"
    by (simp add: store_addr_def read_write_prefix enc_simps)
  moreover have "read_bytes (store_addr ?m (r + 4) q) r 8 =
      read_bytes (store_addr ?m (r + 4) q) r 4 @ read_bytes (store_addr ?m (r + 4) q) (r + 4) 4"
    using read_bytes_add [of _ r 4 4] by simp
  ultimately show ?thesis by (cases "ierr = 0") (simp_all add: load_addr_def irecv_mem_def mixed_def)
qed

lemma mpi_irecv_names_request:
  assumes "mpi_irecv_f h alloc new tln sp buf cnt datatype source tag comm request ierr tr st = Inr (posts, tr1, st1)"
  obtains m p agg where "mem st1 = store_addr m request p" and "agg_reqs st1 p = Some agg"
  using assms that by (force simp: mpi_irecv_f_def bindE_eq_Inr_iff Let_def f_store_def split: if_splits)

text \<open>
  C35: two receives whose requests are neighbouring elements of an \<open>INTEGER\<close> array. Each call
  stores eight bytes into an element of four, so the second one overwrites the upper half of
  the first address. Both calls succeed, the first request named a live aggregate in between,
  but afterwards it reads as a mixture of the two addresses, and unless that happens to be the
  address of another aggregate the wait for it is an access outside every object.
\<close>

theorem fortran_requests_overlap:
  assumes "mpi_irecv_f h alloc new tln sp buf cnt datatype source tag comm request ierr tr0 st = Inr (posts1, as @ tr, st1)"
    and "f_args h st1 cnt2 datatype2 source2 tag2 comm2 sz job t" and "fresh_request new st1"
    and "live_job st1 job jb" and "can_allocate alloc sz jb st1" and "length as = nat (worker_count jb)"
    and "list_all (\<lambda>a. astatus a = MPI_SUCCESS) as" and "ierr2 = 0 \<or> apart ierr2 4 request 4"
  shows "\<exists>p posts2 st2. load_addr (mem st1) request = p \<and> agg_reqs st1 p \<noteq> None \<and>
     mpi_irecv_f h alloc new tln sp buf2 cnt2 datatype2 source2 tag2 comm2 (request + 4) ierr2 (as @ tr) st1 = Inr (posts2, tr, st2) \<and>
     load_addr (mem st2) request = mixed p (new (agg_reqs st1)) \<and>
     (mixed p (new (agg_reqs st1)) \<noteq> new (agg_reqs st1) \<and> agg_reqs st1 (mixed p (new (agg_reqs st1))) = None \<longrightarrow>
        mpi_wait_f tln sp request ws st2 = Inl Out_Of_Bounds)"
proof -
  obtain tb bl where b: "block_for alloc buf2 sz jb st1 = (tb, bl)" by (cases "block_for alloc buf2 sz jb st1")
  obtain m p agg where p: "mem st1 = store_addr m request p" "agg_reqs st1 p = Some agg"
    using mpi_irecv_names_request [OF assms(1)] .
  let ?q = "new (agg_reqs st1)"
  have "irecv_mem ierr2 (request + 4) ?q st1 = irecv_mem ierr2 (request + 4) ?q (st1\<lparr>mem := store_addr m request p\<rparr>)"
    using p(1) by (simp add: irecv_mem_def)
  then have "load_addr (irecv_mem ierr2 (request + 4) ?q st1) request = mixed p ?q"
    using load_mixed [OF assms(8)] by simp
  then show ?thesis
    using p mpi_irecv_live [OF assms(2-7) b, of tln sp "request + 4" ierr2 tr] by (simp add: mpi_wait_f_def some_or_None)
qed

lemma mixed_example: "mixed 0x555500001000 0x555500002000 = 0x200000001000"
  by (simp add: mixed_def enc_addr_def dec_addr_def bytes_of_nat_def)

definition two_blocks :: allocator where
  "two_blocks bl n = (if bl = [] then 4096 else 8192)"

theorem fortran_requests_overlap_witness:
  "\<exists>posts1 st1 posts2 st2.
     mpi_irecv_f fortran_handles two_blocks fortran_new group_translate any_split 64 100 104 108 112 116 200 300
       (replicate 2 (quiet_answer None) @ replicate 2 (quiet_answer None) @ []) fortran_world =
       Inr (posts1, replicate 2 (quiet_answer None) @ [], st1) \<and>
     mpi_irecv_f fortran_handles two_blocks fortran_new group_translate any_split 80 100 104 108 112 116 (200 + 4) 300
       (replicate 2 (quiet_answer None) @ []) st1 = Inr (posts2, [], st2) \<and>
     mpi_wait_f group_translate any_split 200 [] st2 = Inl Out_Of_Bounds"
proof -
  let ?jb = "readme_jobs ! 1" and ?p = "0x555500001000 :: address"
  let ?agg = "posted 64 2 7 ?jb fortran_world 4096"
  define st1 where "st1 = fortran_world\<lparr>mem := irecv_mem 300 200 (fortran_new (agg_reqs fortran_world)) fortran_world,
      allocs := [(4096, 4)], request_pending := request_pending fortran_world + 1, ignore_process_failure := 0,
      agg_reqs := (agg_reqs fortran_world)(fortran_new (agg_reqs fortran_world) \<mapsto> ?agg)\<rparr>"
  have sel: "job_list st1 = job_list fortran_world" "rank_ignore_list st1 = rank_ignore_list fortran_world"
    "allocs st1 = [(4096, 4)]" "agg_reqs st1 = (\<lambda>_. None)(?p \<mapsto> ?agg)" "load_addr (mem st1) 200 = ?p"
    by (simp_all add: st1_def irecv_mem_def fortran_world_sel fortran_new_def)
  have "mem st1 x = mem fortran_world x" if "x \<in> {100, 101, 102, 103, 104, 105, 106, 107, 108, 109, 110, 111,
      112, 113, 114, 115, 116, 117, 118, 119}" for x
    using that by (auto simp: st1_def irecv_mem_def store_addr_def write_bytes_def enc_simps Let_def)
  then have args: "f_args fortran_handles st1 100 104 108 112 116 2 1 7"
    by (simp add: f_args_def f_world_def fortran_handles_def f_int_small fortran_world_sel)
  have alloc: "can_allocate two_blocks 2 ?jb fortran_world" "can_allocate two_blocks 2 ?jb st1"
    "block_for two_blocks 64 2 ?jb fortran_world = (4096, [(4096, 4)])"
    by (simp_all add: can_allocate_def two_blocks_def fresh_block_def block_for_def apart_def sel fortran_world_sel readme_receives
        del: One_nat_def)
  have live: "live_job st1 1 ?jb" "fresh_request fortran_new st1"
    using fortran_world_receives(1) by (simp_all add: live_job_def sel fresh_request_def fortran_new_def)
  have first: "mpi_irecv_f fortran_handles two_blocks fortran_new group_translate any_split 64 100 104 108 112 116 200 300
       (replicate 2 (quiet_answer None) @ replicate 2 (quiet_answer None) @ []) fortran_world =
       Inr (map (\<lambda>w. (w, SET_TAG w 7)) (workers ?jb), replicate 2 (quiet_answer None) @ [], st1)"
    unfolding st1_def
    by (rule mpi_irecv_live [OF fortran_world_args fortran_world_receives(4,1) alloc(1) _ _ alloc(3)])
      (simp_all add: readme_receives list_all_iff del: One_nat_def)
  have "\<exists>p posts2 st2. load_addr (mem st1) 200 = p \<and> agg_reqs st1 p \<noteq> None \<and>
     mpi_irecv_f fortran_handles two_blocks fortran_new group_translate any_split 80 100 104 108 112 116 (200 + 4) 300
       (replicate 2 (quiet_answer None) @ []) st1 = Inr (posts2, [], st2) \<and>
     load_addr (mem st2) 200 = mixed p (fortran_new (agg_reqs st1)) \<and>
     (mixed p (fortran_new (agg_reqs st1)) \<noteq> fortran_new (agg_reqs st1) \<and>
        agg_reqs st1 (mixed p (fortran_new (agg_reqs st1))) = None \<longrightarrow>
        mpi_wait_f group_translate any_split 200 [] st2 = Inl Out_Of_Bounds)"
    by (rule fortran_requests_overlap [OF first args live(2,1) alloc(2)])
      (simp_all add: readme_receives list_all_iff apart_def del: One_nat_def)
  moreover have "fortran_new (agg_reqs st1) = 0x555500002000" by (simp add: sel fortran_new_def)
  ultimately show ?thesis using first mixed_example sel(4,5) by auto
qed

end
