(* ===== verification/Tables.thy ===== *)
theory Tables
  imports Ulfm
begin

text \<open>
  The type of the shared tables. \<open>job_list\<close>, \<open>rank_2_job\<close> and \<open>rank_ignore_list\<close> are indexed
  by numbers that come from the map file, from MPI and from each other; \<open>tables_ok\<close> says that
  all these numbers fit. This theory shows that a map sets them up and that the error handler
  keeps them, whatever it finds.
\<close>

section \<open>What a successful renaming has read\<close>

lemma compact_step:
  assumes "compact_workers (Suc n) j p i sz tr st = Inr st'"
  obtains jb w t st1 p1 jb1 where "0 \<le> i" "nat i < length (job_list st)" "job_list st ! nat i = Some jb"
    "aget (rank_list jb) j = Inr w" "w < sz" "aget tr w = Inr t"
    "compact_workers n (j + 1) p1 i sz tr st1 = Inr st'" "job_list st1 = (job_list st)[nat i := Some jb1]"
    "p1 = p \<or> p1 = p + 1" "rank_list jb1 = rank_list jb \<or> rank_list jb1 = (rank_list jb)[nat p := t]"
    "length (rank_ignore_list st1) = length (rank_ignore_list st)"
    "rank_2_job st1 = rank_2_job st \<or> (\<exists>x. rank_2_job st1 = map_option (\<lambda>tbl. tbl[x := Some i]) (rank_2_job st))"
proof -
  obtain jb w t where r: "0 \<le> i" "nat i < length (job_list st)" "job_list st ! nat i = Some jb"
      "aget (rank_list jb) j = Inr w" "w < sz" "aget tr w = Inr t"
    using assms by (fastforce simp: bindE_eq_Inr_iff aget_Inr guardE_eq_Inr_iff some_or_eq_Inr_iff simp del: aget_of_nat)
  note step = assms [simplified, unfolded aget_nat [OF r(1,2)] r(3)]
  show ?thesis
  proof (cases "t = MPI_UNDEFINED")
    case True
    let ?jb = "jb\<lparr>worker_count := worker_count jb - 1\<rparr>"
    have "compact_workers n (j + 1) p i sz tr (st\<lparr>job_list := (job_list st)[nat i := Some ?jb]\<rparr>) = Inr st'"
      using step r True by (auto simp: some_or_Some guardE_True bindE_eq_Inr_iff aset_Inr guardE_eq_Inr_iff)
    from that [OF r this, of ?jb] show ?thesis by simp
  next
    case False
    let ?rl = "(rank_list jb)[nat p := t]" and ?ign = "(rank_ignore_list st)[nat t := 0]"
    obtain tbl where c: "rank_2_job st = Some tbl"
        "compact_workers n (j + 1) (p + 1) i sz tr (st\<lparr>job_list := (job_list st)[nat i := Some (jb\<lparr>rank_list := ?rl\<rparr>)],
           rank_2_job := Some (tbl[nat t := Some i]), rank_ignore_list := ?ign\<rparr>) = Inr st'"
      using step r False by (auto simp: some_or_Some guardE_True bindE_eq_Inr_iff aset_Inr some_or_eq_Inr_iff)
    from that [OF r c(2), of "jb\<lparr>rank_list := ?rl\<rparr>"] c(1) show ?thesis by auto
  qed
qed

lemma compact_other:
  assumes "compact_workers n j p i sz tr st = Inr st'"
  shows "length (job_list st') = length (job_list st) \<and> (\<forall>k. k \<noteq> nat i \<longrightarrow> job_list st' ! k = job_list st ! k)"
  using assms
proof (induction n arbitrary: j p st)
  case 0
  then show ?case by simp
next
  case (Suc n)
  obtain st1 p1 jb1 where "compact_workers n (j + 1) p1 i sz tr st1 = Inr st'" "job_list st1 = (job_list st)[nat i := Some jb1]"
    using Suc.prems by (rule compact_step)
  then show ?case using Suc.IH by fastforce
qed

lemma compact_reads:
  assumes "compact_workers n j p i sz tr st = Inr st'" and "job_list st ! nat i = Some jb" and "0 \<le> p" and "p \<le> j" and "x < n"
  shows "\<exists>w. aget (rank_list jb) (j + int x) = Inr w \<and> 0 \<le> w \<and> w < sz \<and> nat w < length tr"
  using assms
proof (induction n arbitrary: j p st jb x)
  case 0
  then show ?case by simp
next
  case (Suc n)
  obtain w t st1 p1 jb1 where s: "nat i < length (job_list st)" "aget (rank_list jb) j = Inr w" "w < sz" "aget tr w = Inr t"
      "compact_workers n (j + 1) p1 i sz tr st1 = Inr st'" "job_list st1 = (job_list st)[nat i := Some jb1]"
      "p1 = p \<or> p1 = p + 1" "rank_list jb1 = rank_list jb \<or> rank_list jb1 = (rank_list jb)[nat p := t]"
    using Suc.prems(1) by (rule compact_step) (use Suc.prems(2) in simp)
  show ?case
  proof (cases x)
    case 0
    then show ?thesis using s(2,3,4) by (simp add: aget_Inr)
  next
    case (Suc y)
    have y: "y < n" "j + int x = j + 1 + int y" using Suc Suc.prems(5) by auto
    have "nat p \<noteq> nat (j + 1 + int y)" using Suc.prems(3,4) by auto
    then have "aget (rank_list jb1) (j + 1 + int y) = aget (rank_list jb) (j + 1 + int y)"
      using s(8) by (auto simp: aget_def)
    moreover have "0 \<le> p1" "p1 \<le> j + 1" "job_list st1 ! nat i = Some jb1" using s(1,6,7) Suc.prems(3,4) by auto
    ultimately show ?thesis using Suc.IH [OF s(5) _ _ _ y(1)] unfolding y(2) by simp
  qed
qed

lemma update_jobs_reads:
  assumes "update_jobs n i sz tr st = Inr st'" and "0 \<le> i" and "k < n" and "job_list st ! (nat i + k) = Some jb"
    and "w \<in> set (workers jb)"
  shows "0 \<le> w \<and> w < sz \<and> nat w < length tr"
  using assms
proof (induction n arbitrary: i k st)
  case 0
  then show ?case by simp
next
  case (Suc n)
  obtain jb0 st1 where s: "job_list st ! nat i = Some jb0" "compact_workers (nat (worker_count jb0)) 0 0 i sz tr st = Inr st1"
      "update_jobs n (i + 1) sz tr st1 = Inr st'"
    using Suc.prems(1) by (auto simp: err_simps)
  show ?case
  proof (cases k)
    case 0
    then have "jb0 = jb" using s(1) Suc.prems(4) by simp
    then obtain x where x: "x < nat (worker_count jb0)" "x < length (rank_list jb0)" "w = rank_list jb0 ! x"
      using Suc.prems(5) by (auto simp: workers_def in_set_conv_nth)
    then have "aget (rank_list jb0) (0 + int x) = Inr w" by simp
    then show ?thesis using compact_reads [OF s(2,1) _ _ x(1)] by auto
  next
    case (Suc y)
    have n: "nat (i + 1) + y = nat i + k" "nat i + k \<noteq> nat i" using Suc Suc.prems(2) by auto
    then have "job_list st1 ! (nat (i + 1) + y) = Some jb" using compact_other [OF s(2)] Suc.prems(4) by simp
    then show ?thesis using Suc.IH [OF s(3) _ _ _ Suc.prems(5), of y] Suc Suc.prems(2,3) by simp
  qed
qed

text \<open>Whatever the renaming does, the table of jobs keeps naming jobs.\<close>

definition table_in :: "nat \<Rightarrow> nat \<Rightarrow> 'a globals_scheme \<Rightarrow> bool" where
  "table_in N J st \<longleftrightarrow> (\<forall>r < N. \<exists>k < J. the (rank_2_job st) ! r = Some (int k))"

lemma compact_table:
  assumes "compact_workers n j p (int k) sz tr st = Inr st'" and "table_in N J st" and "k < J" and "tables N st"
  shows "table_in N J st' \<and> tables N st'"
  using assms
proof (induction n arbitrary: j p st)
  case 0
  then show ?case by simp
next
  case (Suc n)
  obtain st1 p1 jb1 where s: "compact_workers n (j + 1) p1 (int k) sz tr st1 = Inr st'"
      "rank_2_job st1 = rank_2_job st \<or> (\<exists>x. rank_2_job st1 = map_option (\<lambda>tbl. tbl[x := Some (int k)]) (rank_2_job st))"
      "length (rank_ignore_list st1) = length (rank_ignore_list st)"
    using Suc.prems(1) by (rule compact_step)
  obtain tbl where tbl: "rank_2_job st = Some tbl" "N \<le> length tbl" "N \<le> length (rank_ignore_list st)"
    using Suc.prems(4) by (auto simp: tables_def)
  then obtain tbl1 where t1: "rank_2_job st1 = Some tbl1" "tbl1 = tbl \<or> (\<exists>x. tbl1 = tbl[x := Some (int k)])"
    using s(2) by auto
  have "tbl1 ! r = tbl ! r \<or> tbl1 ! r = Some (int k)" if "r < N" for r
    using t1(2) that tbl(2) by (metis nth_list_update nth_list_update_neq order_less_le_trans)
  moreover have "N \<le> length tbl1" using t1(2) tbl(2) by auto
  ultimately have "table_in N J st1 \<and> tables N st1"
    using Suc.prems(2,3) tbl(1,3) t1(1) s(3) unfolding table_in_def tables_def by (metis option.sel)
  then show ?case using Suc.IH [OF s(1)] Suc.prems(3) by simp
qed

lemma update_jobs_table:
  assumes "update_jobs n (int k) sz tr st = Inr st'" and "table_in N J st" and "k + n \<le> J" and "tables N st"
  shows "table_in N J st' \<and> tables N st'"
  using assms
proof (induction n arbitrary: k st)
  case 0
  then show ?case by simp
next
  case (Suc n)
  obtain jb :: Job and st1 where s: "compact_workers (nat (worker_count jb)) 0 0 (int k) sz tr st = Inr st1"
      "update_jobs n (1 + int k) sz tr st1 = Inr st'"
    using Suc.prems(1) by (auto simp: err_simps add.commute)
  have "table_in N J st1 \<and> tables N st1" by (rule compact_table [OF s(1)]) (use Suc.prems in simp_all)
  then show ?case using Suc.IH [of "Suc k" st1] s(2) Suc.prems(3) by simp
qed

section \<open>Well-formed tables\<close>

text \<open>
  For a run started with \<open>N\<close> processes and \<open>J\<close> jobs: every job has a worker, the workers of
  all jobs are different ranks below \<open>N\<close>, \<open>rank_2_job\<close> leads each one to its job and every
  other rank to some job, the ignore list has an entry for it, and the process itself belongs
  to one of the jobs.
\<close>

definition job_ok :: "Job \<Rightarrow> bool" where
  "job_ok jb \<longleftrightarrow> 0 < worker_count jb \<and> nat (worker_count jb) \<le> length (rank_list jb)"

definition tables_ok :: "nat \<Rightarrow> nat \<Rightarrow> 'a globals_scheme \<Rightarrow> bool" where
  "tables_ok N J st \<longleftrightarrow> (\<exists>js. job_list st = map Some js \<and> length js = J \<and> list_all job_ok js \<and>
     tables N st \<and> table_in N J st \<and> jobs_count (node st) = int J \<and> 0 \<le> job_id (node st) \<and> job_id (node st) < int J \<and>
     distinct (concat (map workers js)) \<and>
     (\<forall>k < J. \<forall>w \<in> set (workers (js ! k)). 0 \<le> w \<and> nat w < N \<and> the (rank_2_job st) ! nat w = Some (int k)))"

lemma tables_ok_frame:
  assumes "tables_ok N J st" and "job_list st' = job_list st" and "rank_2_job st' = rank_2_job st"
    and "length (rank_ignore_list st') = length (rank_ignore_list st)"
    and "job_id (node st') = job_id (node st)" and "jobs_count (node st') = jobs_count (node st)"
  shows "tables_ok N J st'"
  using assms by (simp add: tables_ok_def tables_def table_in_def)

text \<open>
  What MPI guarantees of a failure it reports: the class of the error is that of a process
  failure, the surviving processes get different ranks in a world that is not larger than
  before, and the dead ones have ranks in the old world, if any.
\<close>

definition sane_failure :: "nat \<Rightarrow> translation \<Rightarrow> failure \<Rightarrow> bool" where
  "sane_failure N tln f \<longleftrightarrow> (let tr = world_translation tln f in
     error_class_proc_failed f \<and> length tr = length (world_group f) \<and> length tr \<le> N \<and>
     (\<forall>r \<in> set (tln (acked f) (map int [0..<length (acked f)]) (world_group f)). r = MPI_UNDEFINED \<or> 0 \<le> r \<and> nat r < N) \<and>
     (\<forall>a < length tr. tr ! a = MPI_UNDEFINED \<or> 0 \<le> tr ! a \<and> nat (tr ! a) < length tr) \<and>
     (\<forall>a < length tr. \<forall>b < length tr. tr ! a = tr ! b \<and> tr ! a \<noteq> MPI_UNDEFINED \<longrightarrow> a = b))"

lemma sane_failureD:
  assumes "sane_failure N tln f"
  defines "tr \<equiv> world_translation tln f"
  shows "length tr = length (world_group f)" "length tr \<le> N"
    "\<forall>a < length tr. tr ! a = MPI_UNDEFINED \<or> 0 \<le> tr ! a \<and> nat (tr ! a) < length tr"
    "\<forall>a < length tr. \<forall>b < length tr. tr ! a = tr ! b \<and> tr ! a \<noteq> MPI_UNDEFINED \<longrightarrow> a = b"
    "error_class_proc_failed f"
    "\<forall>r \<in> set (tln (acked f) (map int [0..<length (acked f)]) (world_group f)). r = MPI_UNDEFINED \<or> 0 \<le> r \<and> nat r < N"
  using assms(1) unfolding sane_failure_def tr_def Let_def by blast+

text \<open>The translation of the MPI standard is like that when both groups have no process twice.\<close>

lemma index_from_spec:
  "index_from i g p = (if p \<in> set g then i + int (length (takeWhile (\<lambda>q. q \<noteq> p) g)) else MPI_UNDEFINED)"
  by (induction g arbitrary: i) auto

lemma index_from_range:
  assumes "index_from 0 g p \<noteq> MPI_UNDEFINED"
  shows "p \<in> set g" "0 \<le> index_from 0 g p" "nat (index_from 0 g p) < length g" "g ! nat (index_from 0 g p) = p"
proof -
  show p: "p \<in> set g" using assms by (simp add: index_from_spec split: if_splits)
  have "length (takeWhile (\<lambda>q. q \<noteq> p) g) < length g \<and> g ! length (takeWhile (\<lambda>q. q \<noteq> p) g) = p"
    using p by (induction g) auto
  then show "0 \<le> index_from 0 g p" "nat (index_from 0 g p) < length g" "g ! nat (index_from 0 g p) = p"
    using p by (simp_all add: index_from_spec)
qed

lemma group_translate_sane:
  assumes "distinct (world_group f)" and "length (shrunk_group f) \<le> length (world_group f)" and "length (world_group f) \<le> N"
    and "error_class_proc_failed f"
  shows "sane_failure N group_translate f"
proof -
  have dead: "\<forall>r \<in> set (group_translate (acked f) (map int [0..<length (acked f)]) (world_group f)).
      r = MPI_UNDEFINED \<or> 0 \<le> r \<and> nat r < N"
  proof
    fix r
    assume "r \<in> set (group_translate (acked f) (map int [0..<length (acked f)]) (world_group f))"
    then obtain p where "r = index_from 0 (world_group f) p" by (auto simp: group_translate_def)
    then show "r = MPI_UNDEFINED \<or> 0 \<le> r \<and> nat r < N"
      using index_from_range(2,3) [of "world_group f" p] assms(3) by auto
  qed
  let ?tr = "world_translation group_translate f" and ?g = "world_group f"
  have l: "length ?tr = length ?g" by (simp add: world_translation_def group_translate_def)
  have nth: "?tr ! a = index_from 0 (shrunk_group f) (?g ! a)" if "a < length ?g" for a
    using that by (simp add: world_translation_def group_translate_def)
  have rng: "?tr ! a = MPI_UNDEFINED \<or> 0 \<le> ?tr ! a \<and> nat (?tr ! a) < length ?tr" if "a < length ?tr" for a
    using index_from_range(2,3) [of "shrunk_group f" "?g ! a"] nth that l assms(2) by auto
  have inj: "a = b" if "a < length ?tr" "b < length ?tr" "?tr ! a = ?tr ! b" "?tr ! a \<noteq> MPI_UNDEFINED" for a b
  proof -
    have "?g ! a = ?g ! b" using index_from_range(4) nth that l by metis
    then show ?thesis using nth_eq_iff_index_eq [OF assms(1)] that l by simp
  qed
  show ?thesis
    unfolding sane_failure_def Let_def using assms(3,4) dead l rng inj by simp
qed

section \<open>The error handler\<close>

lemma ignore_failed_frame:
  assumes "ignore_failed rs st = Inr st'"
  shows "\<exists>l. st' = st\<lparr>rank_ignore_list := l\<rparr> \<and> length l = length (rank_ignore_list st)"
  using assms
proof (induction rs arbitrary: st)
  case Nil
  then show ?case by (intro exI [of _ "rank_ignore_list st"]) simp
next
  case (Cons r rs)
  show ?case
  proof (cases "r = MPI_UNDEFINED")
    case True
    then show ?thesis using Cons by simp
  next
    case False
    then obtain l where l: "aset (rank_ignore_list st) r 1 = Inr l" "ignore_failed rs (st\<lparr>rank_ignore_list := l\<rparr>) = Inr st'"
      using Cons.prems by (auto simp: bindE_eq_Inr_iff)
    then show ?thesis using Cons.IH [OF l(2)] by (auto simp: aset_Inr)
  qed
qed

lemma survivors_concat: "concat (map (\<lambda>jb. survivors tr (workers jb)) js) = survivors tr (concat (map workers js))"
  by (induction js) (simp_all add: survivors_def)

lemma distinct_survivors:
  assumes "distinct ws" and "\<forall>w \<in> set ws. 0 \<le> w \<and> nat w < length tr"
    and "\<forall>a < length tr. \<forall>b < length tr. tr ! a = tr ! b \<and> tr ! a \<noteq> MPI_UNDEFINED \<longrightarrow> a = b"
  shows "distinct (survivors tr ws)"
proof -
  have "inj_on (\<lambda>r. tr ! nat r) (set (filter (\<lambda>r. tr ! nat r \<noteq> MPI_UNDEFINED) ws))"
  proof (rule inj_onI)
    fix x y
    assume "x \<in> set (filter (\<lambda>r. tr ! nat r \<noteq> MPI_UNDEFINED) ws)" "y \<in> set (filter (\<lambda>r. tr ! nat r \<noteq> MPI_UNDEFINED) ws)"
      "tr ! nat x = tr ! nat y"
    then have "nat x = nat y" "0 \<le> x" "0 \<le> y" using assms(2,3) by auto
    then show "x = y" by simp
  qed
  then show ?thesis using assms(1) by (simp add: survivors_def distinct_map)
qed

text \<open>A renaming that returns started from a state to which the lemmas of \<open>Ulfm\<close> apply.\<close>

lemma renaming_was_possible:
  assumes ok: "tables_ok N J st" and f: "sane_failure N tln f"
    and run: "update_job_list (int (length (world_group f))) (world_translation tln f) st = Inr st'"
  obtains js where "job_list st = map Some js" "length js = J" "before_failure (world_translation tln f) js st"
    "list_all (\<lambda>jb. survivors (world_translation tln f) (workers jb) \<noteq> []) js"
proof -
  let ?tr = "world_translation tln f" and ?st = "st\<lparr>node := (node st)\<lparr>node_checkpoint_master := NO\<rparr>\<rparr>"
  obtain js where js: "job_list st = map Some js" "length js = J" "list_all job_ok js" "tables N st"
      "jobs_count (node st) = int J" "0 \<le> job_id (node st)" "job_id (node st) < int J" "distinct (concat (map workers js))"
    using ok by (auto simp: tables_ok_def)
  note tr = sane_failureD [OF f]
  obtain st2 where u: "update_jobs J 0 (int (length ?tr)) ?tr ?st = Inr st2" "node st2 = node ?st \<longrightarrow> True"
      "\<exists>t. aget ?tr (rank (node st2)) = Inr t"
    using run js(5) tr(1) by (auto simp: update_job_list_def Let_def bindE_eq_Inr_iff)
  have w: "0 \<le> w \<and> nat w < length ?tr" if "k < J" "w \<in> set (workers (js ! k))" for k w
    using update_jobs_reads [OF u(1) _ that(1) _ that(2)] that(1) js(1,2) by simp
  have "renamable ?tr (length ?tr) v" if "k < J" "v \<in> set (workers (js ! k))" for k v
    using w [OF that] tr(3) by (auto simp: renamable_def)
  then have wf: "list_all (wf_job ?tr (length ?tr)) js"
    using js(2,3) by (simp add: list_all_length wf_job_def job_ok_def)
  have tb: "tables (length ?tr) ?st" using js(4) tr(2) by (auto simp: tables_def)
  have live: "list_all (\<lambda>jb. survivors ?tr (workers jb) \<noteq> []) js"
  proof (rule ccontr)
    assume "\<not> ?thesis"
    then have "\<exists>jb \<in> set js. survivors ?tr (workers jb) = []" by (simp add: list_all_iff)
    then have "update_jobs (length js) (int 0) (int (length ?tr)) ?tr ?st = Inl (Abort_With 200)"
      using js(1) wf tb by (intro update_jobs_dead [where n = "length ?tr"]) simp_all
    then show False using u(1) js(2) by simp
  qed
  have "\<exists>js'. update_jobs (length js) (int 0) (int (length ?tr)) ?tr ?st = Inr (renamed_all 0 js' ?st) \<and> list_all2 (follows ?tr) js js'"
    using js(1) wf tb live by (intro update_jobs_ok [where n = "length ?tr"]) simp_all
  then have "node st2 = node ?st" using u(1) js(2) by auto
  then have rk: "0 \<le> rank (node st)" "nat (rank (node st)) < length ?tr" using u(3) by (auto simp: aget_Inr)
  have "\<forall>w \<in> set (concat (map workers js)). 0 \<le> w \<and> nat w < length ?tr"
  proof
    fix v
    assume "v \<in> set (concat (map workers js))"
    then obtain k where "k < J" "v \<in> set (workers (js ! k))" using js(2) by (auto simp: in_set_conv_nth [of _ js])
    then show "0 \<le> v \<and> nat v < length ?tr" by (rule w)
  qed
  then have "distinct (concat (map (\<lambda>jb. survivors ?tr (workers jb)) js))"
    unfolding survivors_concat using js(8) tr(4) by (intro distinct_survivors)
  then have "before_failure ?tr js st"
    using js wf tb rk by (simp add: before_failure_def tables_def)
  then show ?thesis using that js(1,2) live by blast
qed

lemma follows_job_ok:
  assumes "follows tr jb jb'" and "survivors tr (workers jb) \<noteq> []"
  shows "job_ok jb'"
proof -
  have "length (workers jb') \<le> length (rank_list jb')" by (simp add: workers_def)
  moreover have "worker_count jb' = int (length (workers jb'))" "workers jb' \<noteq> []" using assms by (simp_all add: follows_def)
  ultimately show ?thesis by (simp add: job_ok_def)
qed

lemma handler_keeps_tables:
  assumes ok: "tables_ok N J st" and f: "sane_failure N tln f" and run: "rep_errhandler tln sp f c st = Inr st'"
  shows "tables_ok N J st'"
proof (cases "c = rep_mpi_comm_world (node st)")
  case False
  then have "st' = st" using run by (auto simp: rep_errhandler_def bindE_eq_Inr_iff Let_def)
  then show ?thesis using ok by simp
next
  case world: True
  show ?thesis
  proof (cases "ignore_process_failure st = 0")
    case False
    then obtain l where "st' = st\<lparr>last_group_failed := acked f, process_shrinking_pending := 1, rank_ignore_list := l\<rparr>"
        "length l = length (rank_ignore_list st)"
      using run world by (auto simp: rep_errhandler_def bindE_eq_Inr_iff Let_def dest!: ignore_failed_frame)
    then show ?thesis using ok by (auto intro: tables_ok_frame [of N J st])
  next
    case True
    let ?tr = "world_translation tln f" and ?st = "st\<lparr>last_group_failed := acked f, previous_world_group := world_group f\<rparr>"
    have ok1: "tables_ok N J ?st" using ok by (rule tables_ok_frame) simp_all
    note tr = sane_failureD [OF f]
    have sh: "shrinks tln f c st" using run world True tr(1) by (auto simp: shrinks_def rep_errhandler_def bindE_eq_Inr_iff guardE_eq_Inr_iff)
    obtain st2 where "update_job_list (int (length (world_group f))) ?tr ?st = Inr st2"
      using run world True by (auto simp: rep_errhandler_def bindE_eq_Inr_iff Let_def world_translation_def)
    then obtain js where js: "job_list ?st = map Some js" "length js = J" "before_failure ?tr js ?st"
        "list_all (\<lambda>jb. survivors ?tr (workers jb) \<noteq> []) js"
      using renaming_was_possible [OF ok1 f] by blast
    have b: "before_failure ?tr js st" using js(3) by (simp add: ulfm_cong)
    obtain js' where js': "job_list st' = map Some js'" "list_all2 (follows ?tr) js js'" "indexed 0 (map workers js') st'"
        "job_id (node st') = job_id (node st)" "jobs_count (node st') = jobs_count (node st)" "tables N st'"
      using errhandler_shrinks [OF sh b js(4), of sp] run ok by (auto simp: tables_ok_def)
    have "table_in N J st'"
    proof -
      obtain st3 where u: "update_jobs J (int 0) (int (length (world_group f))) ?tr (?st\<lparr>node := (node ?st)\<lparr>node_checkpoint_master := NO\<rparr>\<rparr>) = Inr st3"
          "rank_2_job st' = rank_2_job st3"
        using run world True ok by (auto simp: rep_errhandler_def update_job_list_def update_comms_def bindE_eq_Inr_iff Let_def
            world_translation_def tables_ok_def)
      have t: "table_in N J (?st\<lparr>node := (node ?st)\<lparr>node_checkpoint_master := NO\<rparr>\<rparr>)"
          "tables N (?st\<lparr>node := (node ?st)\<lparr>node_checkpoint_master := NO\<rparr>\<rparr>)"
        using ok by (auto simp: tables_ok_def table_in_def tables_def)
      have "table_in N J st3" using update_jobs_table [OF u(1) t(1) _ t(2)] by simp
      then show ?thesis using u(2) by (simp add: table_in_def)
    qed
    moreover have w: "map workers js' = map (\<lambda>jb. survivors ?tr (workers jb)) js" using js'(2) by (rule follows_workers)
    have l: "length js' = J" using js'(2) js(2) by (simp add: list_all2_lengthD)
    have wk: "workers (js' ! k) = survivors ?tr (workers (js ! k))" if "k < J" for k
      using arg_cong [OF w, of "\<lambda>xs. xs ! k"] that l js(2) by simp
    have "job_ok (js' ! k)" if "k < J" for k
    proof (rule follows_job_ok)
      show "follows ?tr (js ! k) (js' ! k)" using js'(2) that js(2) by (simp add: list_all2_nthD)
      show "survivors ?tr (workers (js ! k)) \<noteq> []" using js(2,4) that by (simp add: list_all_length)
    qed
    moreover have "0 \<le> v \<and> nat v < N" if "k < J" "v \<in> set (workers (js' ! k))" for k v
    proof -
      have "list_all (renamable ?tr (length ?tr)) (workers (js ! k))"
        using b that(1) js(2) by (simp add: before_failure_def wf_job_def list_all_length)
      then show ?thesis using survivors_bound that wk tr(2) by (metis order_less_le_trans)
    qed
    moreover have "distinct (concat (map workers js'))" using b w by (simp add: before_failure_def)
    ultimately show ?thesis
      using js' l ok by (auto simp: tables_ok_def indexed_def list_all_length)
  qed
qed

text \<open>
  Inside a point-to-point call the handler cannot fail: the dead ranks have entries in all
  tables, and the job list stays as it is.
\<close>

lemma ignore_failed_total:
  assumes "tables_ok N J st" and "\<forall>r \<in> set rs. r = MPI_UNDEFINED \<or> 0 \<le> r \<and> nat r < N"
  shows "\<exists>l. ignore_failed rs st = Inr (st\<lparr>rank_ignore_list := l\<rparr>) \<and> length l = length (rank_ignore_list st)"
  using assms
proof (induction rs arbitrary: st)
  case Nil
  then show ?case by (intro exI [of _ "rank_ignore_list st"]) simp
next
  case (Cons r rs)
  show ?case
  proof (cases "r = MPI_UNDEFINED")
    case True
    then show ?thesis using Cons by simp
  next
    case False
    let ?st = "st\<lparr>rank_ignore_list := (rank_ignore_list st)[nat r := 1]\<rparr>"
    have r: "0 \<le> r" "nat r < N" using Cons.prems(2) False by auto
    obtain tbl js where t: "rank_2_job st = Some tbl" "N \<le> length tbl" "N \<le> length (rank_ignore_list st)"
        "job_list st = map Some js" "length js = J"
      using Cons.prems(1) by (auto simp: tables_ok_def tables_def)
    obtain k where k: "k < J" "tbl ! nat r = Some (int k)"
      using Cons.prems(1) r(2) t(1) by (auto simp: tables_ok_def table_in_def)
    have "tables_ok N J ?st" using Cons.prems(1) by (rule tables_ok_frame) simp_all
    then obtain l where "ignore_failed rs ?st = Inr (?st\<lparr>rank_ignore_list := l\<rparr>)" "length l = length (rank_ignore_list ?st)"
      using Cons.IH Cons.prems(2) by fastforce
    then show ?thesis using False r t k by (intro exI [of _ l]) (simp add: aset_def aget_def some_or_Some)
  qed
qed

lemma handler_ignoring_total:
  assumes "tables_ok N J st" and "sane_failure N tln f" and "ignore_process_failure st \<noteq> 0"
  shows "\<exists>st'. rep_errhandler tln sp f c st = Inr st' \<and> job_list st' = job_list st \<and>
     ignore_process_failure st' = ignore_process_failure st"
proof (cases "c = rep_mpi_comm_world (node st)")
  case True
  let ?st = "st\<lparr>last_group_failed := acked f, process_shrinking_pending := 1\<rparr>"
  have "tables_ok N J ?st" using assms(1) by (rule tables_ok_frame) simp_all
  then obtain l where "ignore_failed (tln (acked f) (map int [0..<length (acked f)]) (world_group f)) ?st =
      Inr (?st\<lparr>rank_ignore_list := l\<rparr>)"
    using ignore_failed_total sane_failureD(6) [OF assms(2)] by blast
  then show ?thesis using True assms(3) sane_failureD(5) [OF assms(2)] by (simp add: rep_errhandler_def guardE_True)
next
  case False
  then show ?thesis using sane_failureD(5) [OF assms(2)] by (simp add: rep_errhandler_def guardE_True)
qed

section \<open>A map of a larger world\<close>

text \<open>
  The renaming asserts that every worker of the job list has a rank in the world that has just
  shrunk. With a worker beyond it the handler does not return.
\<close>

lemma foreign_worker_stops_handler:
  assumes "c = rep_mpi_comm_world (node st)" and "ignore_process_failure st = 0"
    and "k < nat (jobs_count (node st))" and "job_list st ! k = Some jb" and "w \<in> set (workers jb)"
    and "int (length (world_group f)) \<le> w"
  shows "rep_errhandler tln sp f c st \<noteq> Inr st'"
proof
  let ?st = "st\<lparr>last_group_failed := acked f, previous_world_group := world_group f,
     node := (node st)\<lparr>node_checkpoint_master := NO\<rparr>\<rparr>"
  assume "rep_errhandler tln sp f c st = Inr st'"
  then obtain st2 where u: "update_jobs (nat (jobs_count (node ?st))) 0 (int (length (world_group f))) (world_translation tln f) ?st = Inr st2"
    using assms(1,2) by (auto simp: rep_errhandler_def update_job_list_def bindE_eq_Inr_iff Let_def world_translation_def)
  have "0 \<le> w \<and> w < int (length (world_group f))"
    using update_jobs_reads [OF u _ _ _ assms(5), of k] assms(3,4) by simp
  then show False using assms(6) by simp
qed

end
