(* ===== verification/Calls.thy ===== *)
theory Calls
  imports Tables Requests
begin

text \<open>
  What survives the error handler survives every call. The loops around the MPI calls change
  the shared state only through the handler, apart from a few fields of their own; the locale
  proves once, for any property \<open>I\<close> of the state, that each operation of \<open>src/mpi/init.c\<close>
  keeps it. \<open>ok\<close> is what is known of the failures that MPI reports.
\<close>

definition answers_ok :: "(failure \<Rightarrow> bool) \<Rightarrow> answer list \<Rightarrow> bool" where
  "answers_ok ok tr \<longleftrightarrow> list_all (\<lambda>a. ok (afailure a)) tr"

definition waits_ok :: "(failure \<Rightarrow> bool) \<Rightarrow> wait_answer list \<Rightarrow> bool" where
  "waits_ok ok ws \<longleftrightarrow> list_all (\<lambda>w. case wfailure w of None \<Rightarrow> True | Some f \<Rightarrow> ok f) ws"

lemma answers_ok_simps [simp]:
  "answers_ok ok []" "answers_ok ok (a # tr) \<longleftrightarrow> ok (afailure a) \<and> answers_ok ok tr"
  by (simp_all add: answers_ok_def)

lemma waits_ok_simps [simp]:
  "waits_ok ok []" "waits_ok ok (w # ws) \<longleftrightarrow> (case wfailure w of None \<Rightarrow> True | Some f \<Rightarrow> ok f) \<and> waits_ok ok ws"
  by (simp_all add: waits_ok_def)

lemma new_agg_frame:
  assumes "new_agg_request alloc b sz wc st = (agg, st')"
  shows "\<exists>l. st' = st\<lparr>allocs := l, request_pending := request_pending st + 1\<rparr>"
proof -
  obtain l where "c_malloc alloc (sz * nat wc) st = (fst (c_malloc alloc (sz * nat wc) st), st\<lparr>allocs := l\<rparr>)"
  proof (cases "fresh_block (allocs st) (alloc (allocs st) (sz * nat wc)) (sz * nat wc)")
    case True
    show ?thesis by (rule that) (simp add: c_malloc_def Let_def True)
  next
    case False
    show ?thesis by (rule that [of "allocs st"]) (simp add: c_malloc_def Let_def False)
  qed
  then show ?thesis
    using assms by (cases "wc = 1") (auto simp: new_agg_request_def split: prod.splits intro: exI [of _ "allocs st"])
qed

locale failure_invariant =
  fixes tln :: translation and sp :: splitter and ok :: "failure \<Rightarrow> bool" and I :: "'a ulfm_scheme \<Rightarrow> bool"
  assumes handler: "I st \<Longrightarrow> ok f \<Longrightarrow> rep_errhandler tln sp f c st = Inr st' \<Longrightarrow> I st'"
    and ok_pending: "ok f \<Longrightarrow> ok (f\<lparr>proc_shrink_pending := b\<rparr>)"
    and frame: "I st \<Longrightarrow> I (st\<lparr>ignore_process_failure := x\<rparr>)" "I st \<Longrightarrow> I (st\<lparr>process_shrinking_pending := x\<rparr>)"
      "I st \<Longrightarrow> I (st\<lparr>request_pending := x\<rparr>)" "I st \<Longrightarrow> I (st\<lparr>mem := m\<rparr>)" "I st \<Longrightarrow> I (st\<lparr>allocs := l\<rparr>)"
begin

lemma call_on_keeps: "I st \<Longrightarrow> ok (afailure a) \<Longrightarrow> call_on tln sp comm a st = Inr st' \<Longrightarrow> I st'"
  by (simp add: call_on_def handler split: if_splits)

lemma agree_keeps:
  assumes "I st" and "ok (afailure a)" and "MPI_Comm_agree tln sp flag a st = Inr (s, flag', st')"
  shows "I st'"
proof (cases "process_shrinking_pending st = 0")
  case True
  then have "call_on tln sp rep_mpi_comm_world a st = Inr st'"
    using assms(3) by (auto simp: MPI_Comm_agree_def bindE_eq_Inr_iff)
  then show ?thesis by (rule call_on_keeps [OF assms(1,2)])
next
  case False
  then obtain st1 where "rep_errhandler tln sp ((afailure a)\<lparr>proc_shrink_pending := True\<rparr>) (rep_mpi_comm_world (node st)) st = Inr st1"
      "st' = st1\<lparr>process_shrinking_pending := 0\<rparr>"
    using assms(3) by (auto simp: MPI_Comm_agree_def bindE_eq_Inr_iff)
  then show ?thesis using handler [OF assms(1) ok_pending [OF assms(2)]] frame(2) by blast
qed

lemma agree_loop_keeps:
  "I st \<Longrightarrow> answers_ok ok tr \<Longrightarrow> agree_loop tln sp flag tr st = Inr (flag', tr', st') \<Longrightarrow> I st' \<and> answers_ok ok tr'"
proof (induction tr arbitrary: flag st)
  case (Cons a tr)
  obtain s flag1 st1 where a: "MPI_Comm_agree tln sp flag a st = Inr (s, flag1, st1)"
      "(if s \<noteq> MPI_SUCCESS then agree_loop tln sp flag1 tr st1 else Inr (flag1, tr, st1)) = Inr (flag', tr', st')"
    using Cons.prems(3) by (auto simp: bindE_eq_Inr_iff)
  have "I st1" using agree_keeps [OF _ _ a(1)] Cons.prems by simp
  then show ?case using a(2) Cons.prems(2) Cons.IH by (auto split: if_splits)
qed simp

lemma do_comm_agree_keeps:
  "I st \<Longrightarrow> answers_ok ok tr \<Longrightarrow> do_comm_agree tln sp flag bkup tr st = Inr (flag', bkup', tr', st') \<Longrightarrow>
     I st' \<and> answers_ok ok tr'"
proof (induction tr arbitrary: flag bkup st)
  case (Cons a tr)
  obtain s flag1 st1 where a: "MPI_Comm_agree tln sp flag a st = Inr (s, flag1, st1)"
      "(if s \<noteq> MPI_SUCCESS
       then (if bkup \<noteq> node_checkpoint_master (node st1)
             then do_comm_agree tln sp (static_rank (node st1)) (node_checkpoint_master (node st1)) tr st1
             else do_comm_agree tln sp flag1 bkup tr st1)
       else Inr (flag1, bkup, tr, st1)) = Inr (flag', bkup', tr', st')"
    using Cons.prems(3) by (auto simp: bindE_eq_Inr_iff)
  have "I st1" using agree_keeps [OF _ _ a(1)] Cons.prems by simp
  then show ?case using a(2) Cons.prems(2) Cons.IH by (auto split: if_splits)
qed simp

text \<open>One call that consumes an answer, as the loops write it.\<close>

lemma step_keeps:
  assumes "I st" and "answers_ok ok tr"
    and "(case tr of [] \<Rightarrow> Inl Short_Input
          | a # tr1 \<Rightarrow> bindE (call_on tln sp comm a st) (\<lambda>st0. Inr (astatus a, g a, tr1, st0))) = Inr (ms, b, tr', st')"
  shows "I st' \<and> answers_ok ok tr'"
  using assms by (auto simp: bindE_eq_Inr_iff split: list.splits intro: call_on_keeps)

lemma bcast_loop_keeps:
  "I st \<Longrightarrow> answers_ok ok tr \<Longrightarrow> bcast_loop tln sp bytes rbuf tr st = Inr (flag, ms, b, tr', st') \<Longrightarrow>
     I st' \<and> answers_ok ok tr'"
proof (induction "length tr" arbitrary: rbuf tr st rule: less_induct)
  case less
  obtain a tr0 where tr: "tr = a # tr0" using less.prems(3) by (cases tr) auto
  obtain st0 flag1 tr1 st1 where s: "call_on tln sp world_job_comm a st = Inr st0"
      "agree_loop tln sp (if astatus a = MPI_SUCCESS then 1 else 0) tr0 st0 = Inr (flag1, tr1, st1)"
    and r: "(if flag1 = 0
       then bindE (is_failed_node_world_job_comm_root tln st1) (\<lambda>r.
              if r \<noteq> 0 then Inr (0, astatus a, put (bytes (node st)) a rbuf, tr1, st1)
              else bcast_loop tln sp bytes (put (bytes (node st)) a rbuf) tr1 st1)
       else Inr (flag1, astatus a, put (bytes (node st)) a rbuf, tr1, st1)) = Inr (flag, ms, b, tr', st')"
    using less.prems(3) unfolding tr by (auto simp: bindE_eq_Inr_iff Let_def)
  have "I st0" using call_on_keeps [OF _ _ s(1)] less.prems tr by simp
  then have k: "I st1" "answers_ok ok tr1" using agree_loop_keeps [OF _ _ s(2)] less.prems(2) tr by auto
  moreover have "length tr1 < length tr" using agree_loop_shorter [OF s(2)] tr by simp
  ultimately show ?case
    using r less.hyps [of tr1 st1 "put (bytes (node st)) a rbuf"] by (auto simp: bindE_eq_Inr_iff split: if_splits)
qed

lemma collective_loop_keeps:
  "I st \<Longrightarrow> answers_ok ok tr \<Longrightarrow> collective_loop tln sp reset main bytes t ms rbuf tr st = Inr (b, tr', st') \<Longrightarrow> I st'"
proof (induction "NO_TRIALS - t" arbitrary: t ms rbuf tr st rule: less_induct)
  case less
  note run = less.prems(3) [unfolded collective_loop.simps [of tln sp reset main bytes t ms rbuf tr st]]
  have t: "\<not> NO_TRIALS \<le> t + 1" using run by auto
  obtain ms1 b1 tr1 st0 flag tr2 st1 where
    m: "(if active_comm (node st) \<noteq> MPI_COMM_NULL
         then (case tr of [] \<Rightarrow> Inl Short_Input
               | a # tr1 \<Rightarrow> bindE (call_on tln sp active_comm a st) (\<lambda>st0. Inr (astatus a, put (main (node st)) a rbuf, tr1, st0)))
         else Inr (if reset then MPI_SUCCESS else ms, rbuf, tr, st)) = Inr (ms1, b1, tr1, st0)"
    and a: "agree_loop tln sp (if ms1 = MPI_SUCCESS then 1 else 0) tr1 st0 = Inr (flag, tr2, st1)"
    and r: "(if flag = 0 then collective_loop tln sp reset main bytes (t + 1) ms1 b1 tr2 st1
           else bindE (bcast_loop tln sp bytes b1 tr2 st1) (\<lambda>(flag1, ms2, b2, tr3, st2).
                  if flag1 = 0 then collective_loop tln sp reset main bytes (t + 1) ms2 b2 tr3 st2
                  else Inr (b2, tr3, st2))) = Inr (b, tr', st')"
    using run t by (auto simp: bindE_eq_Inr_iff)
  have "I st0 \<and> answers_ok ok tr1" using m less.prems(1,2) by (auto split: if_splits dest: step_keeps)
  then have k: "I st1" "answers_ok ok tr2" using agree_loop_keeps [OF _ _ a] by auto
  have d: "NO_TRIALS - (t + 1) < NO_TRIALS - t" using t by simp
  show ?case
  proof (cases "flag = 0")
    case True
    then show ?thesis using r less.hyps [OF d k] by simp
  next
    case False
    then obtain flag1 ms2 b2 tr3 st2 where b: "bcast_loop tln sp bytes b1 tr2 st1 = Inr (flag1, ms2, b2, tr3, st2)"
        "(if flag1 = 0 then collective_loop tln sp reset main bytes (t + 1) ms2 b2 tr3 st2 else Inr (b2, tr3, st2)) = Inr (b, tr', st')"
      using r by (auto simp: bindE_eq_Inr_iff)
    have "I st2" "answers_ok ok tr3" using bcast_loop_keeps [OF k b(1)] by auto
    then show ?thesis using b(2) less.hyps [OF d] by (auto split: if_splits)
  qed
qed

text \<open>\<open>poll_keeps poll\<close>: the poll that starts an operation keeps the property.\<close>

definition poll_keeps :: "'a ulfm_scheme poll \<Rightarrow> bool" where
  "poll_keeps poll \<longleftrightarrow> (\<forall>st st'. I st \<longrightarrow> poll st = Inr st' \<longrightarrow> I st')"

lemma collective_keeps:
  assumes "I st" and "answers_ok ok tr" and "poll_keeps poll"
    and "collective poll tln sp reset main bytes on_world rbuf tr st = Inr (s, b, tr', st')"
  shows "I st'"
  using assms by (auto simp: collective_def bindE_eq_Inr_iff poll_keeps_def intro: collective_loop_keeps)

lemma bcast_trials_keeps:
  "I st \<Longrightarrow> answers_ok ok tr \<Longrightarrow> bcast_trials tln sp n root t buf tr st = Inr (roots, b, tr', st') \<Longrightarrow> I st'"
proof (induction "NO_TRIALS - t" arbitrary: t buf tr st roots rule: less_induct)
  case less
  note run = less.prems(3) [unfolded bcast_trials.simps [of tln sp n root t buf tr st]]
  have t: "\<not> NO_TRIALS \<le> t + 1" using run by auto
  obtain a tr1 where tr: "tr = a # tr1" using run t by (cases tr) (auto simp: bindE_eq_Inr_iff)
  obtain rr st0 flag tr2 st1 where c: "call_on tln sp rep_mpi_comm_world a st = Inr st0"
      "agree_loop tln sp (if astatus a = MPI_SUCCESS then 1 else 0) tr1 st0 = Inr (flag, tr2, st1)"
    and r: "(if flag = 0
       then bindE (bcast_trials tln sp n root (t + 1) (put n a buf) tr2 st1)
              (\<lambda>(roots, b, tr3, st2). Inr (rr # roots, b, tr3, st2))
       else Inr ([rr], put n a buf, tr2, st1)) = Inr (roots, b, tr', st')"
    using run t unfolding tr by (auto simp: bindE_eq_Inr_iff)
  have "I st0" using call_on_keeps [OF _ _ c(1)] less.prems tr by simp
  then have k: "I st1" "answers_ok ok tr2" using agree_loop_keeps [OF _ _ c(2)] less.prems(2) tr by auto
  have "NO_TRIALS - (t + 1) < NO_TRIALS - t" using t by simp
  from less.hyps [OF this k] show ?case using r k by (auto simp: bindE_eq_Inr_iff split: if_splits)
qed

lemma Bcast_keeps:
  assumes "I st" and "answers_ok ok tr" and "poll_keeps poll"
    and "MPI_Bcast poll tln sp n root on_world buf tr st = Inr (s, roots, b, tr', st')"
  shows "I st'"
  using assms by (auto simp: MPI_Bcast_def bindE_eq_Inr_iff poll_keeps_def intro: bcast_trials_keeps)

lemma reduce_bcast_loop_keeps:
  "I st \<Longrightarrow> answers_ok ok tr \<Longrightarrow> reduce_bcast_loop tln sp n root flag bkup rbuf tr st = Inr (flag', ms, bkup', b, tr', st') \<Longrightarrow>
     I st' \<and> answers_ok ok tr'"
proof (induction "length tr" arbitrary: flag bkup rbuf tr st rule: less_induct)
  case less
  note run = less.prems(3) [unfolded reduce_bcast_loop.simps [of tln sp n root flag bkup rbuf tr st]]
  obtain ms1 b1 tr1 st0 flag1 bkup1 tr2 st1 where
    m: "(if job_id (node st) = root
         then (case tr of [] \<Rightarrow> Inl Short_Input
               | a # tr1 \<Rightarrow> bindE (call_on tln sp world_job_comm a st) (\<lambda>st0. Inr (astatus a, put n a rbuf, tr1, st0)))
         else Inr (MPI_SUCCESS, rbuf, tr, st)) = Inr (ms1, b1, tr1, st0)"
    and a: "do_comm_agree tln sp (if ms1 = MPI_SUCCESS then -1 else flag) bkup tr1 st0 = Inr (flag1, bkup1, tr2, st1)"
    and r: "(if flag1 \<noteq> -1
       then bindE (is_failed_node_world_job_comm_root tln st1) (\<lambda>r.
              if r \<noteq> 0 then Inr (flag1, ms1, bkup1, b1, tr2, st1)
              else reduce_bcast_loop tln sp n root flag1 bkup1 b1 tr2 st1)
       else Inr (flag1, ms1, bkup1, b1, tr2, st1)) = Inr (flag', ms, bkup', b, tr', st')"
    using run by (auto simp: bindE_eq_Inr_iff)
  have k0: "I st0 \<and> answers_ok ok tr1" using m less.prems(1,2) by (auto split: if_splits dest: step_keeps)
  then have k: "I st1" "answers_ok ok tr2" using do_comm_agree_keeps [OF _ _ a] by auto
  have "length tr1 \<le> length tr" using m by (auto simp: bindE_eq_Inr_iff split: if_splits list.splits)
  then have "length tr2 < length tr" using do_comm_agree_shorter [OF a] by simp
  from less.hyps [OF this k] show ?case using r k by (auto simp: bindE_eq_Inr_iff split: if_splits)
qed

lemma reduce_loop_keeps:
  "I st \<Longrightarrow> answers_ok ok tr \<Longrightarrow> reduce_loop tln sp n root t flag ms bkup rbuf tr st = Inr (b, tr', st') \<Longrightarrow> I st'"
proof (induction "NO_TRIALS - t" arbitrary: t flag ms bkup rbuf tr st rule: less_induct)
  case less
  note run = less.prems(3) [unfolded reduce_loop.simps [of tln sp n root t flag ms bkup rbuf tr st]]
  have t: "\<not> NO_TRIALS \<le> t + 1" using run by auto
  obtain ms1 b1 tr1 st0 flag1 bkup1 tr2 st1 where
    m: "(if active_comm (node st) \<noteq> MPI_COMM_NULL
         then (case tr of [] \<Rightarrow> Inl Short_Input
               | a # tr1 \<Rightarrow> bindE (call_on tln sp active_comm a st) (\<lambda>st0. Inr (astatus a, put n a rbuf, tr1, st0)))
         else Inr (ms, rbuf, tr, st)) = Inr (ms1, b1, tr1, st0)"
    and a: "do_comm_agree tln sp (if ms1 = MPI_SUCCESS then -1 else flag) bkup tr1 st0 = Inr (flag1, bkup1, tr2, st1)"
    and r: "(if flag1 \<noteq> -1 then reduce_loop tln sp n root (t + 1) flag1 ms1 bkup1 b1 tr2 st1
           else bindE (reduce_bcast_loop tln sp n root flag1 bkup1 b1 tr2 st1)
                  (\<lambda>(flag2, ms2, bkup2, b2, tr3, st2).
                  if flag2 \<noteq> -1 then reduce_loop tln sp n root (t + 1) flag2 ms2 bkup2 b2 tr3 st2
                  else Inr (b2, tr3, st2))) = Inr (b, tr', st')"
    using run t by (auto simp: bindE_eq_Inr_iff)
  have "I st0 \<and> answers_ok ok tr1" using m less.prems(1,2) by (auto split: if_splits dest: step_keeps)
  then have k: "I st1" "answers_ok ok tr2" using do_comm_agree_keeps [OF _ _ a] by auto
  have d: "NO_TRIALS - (t + 1) < NO_TRIALS - t" using t by simp
  show ?case
  proof (cases "flag1 = -1")
    case False
    then show ?thesis using r less.hyps [OF d k] by simp
  next
    case True
    then obtain flag2 ms2 bkup2 b2 tr3 st2 where b: "reduce_bcast_loop tln sp n root flag1 bkup1 b1 tr2 st1 =
        Inr (flag2, ms2, bkup2, b2, tr3, st2)"
        "(if flag2 \<noteq> -1 then reduce_loop tln sp n root (t + 1) flag2 ms2 bkup2 b2 tr3 st2 else Inr (b2, tr3, st2)) = Inr (b, tr', st')"
      using r by (auto simp: bindE_eq_Inr_iff)
    have "I st2" "answers_ok ok tr3" using reduce_bcast_loop_keeps [OF k b(1)] by auto
    then show ?thesis using b(2) less.hyps [OF d] by (auto split: if_splits)
  qed
qed

lemma Reduce_keeps:
  assumes "I st" and "answers_ok ok tr" and "poll_keeps poll"
    and "MPI_Reduce poll tln sp n root on_world flag0 rbuf tr st = Inr (s, b, tr', st')"
  shows "I st'"
  using assms by (auto simp: MPI_Reduce_def bindE_eq_Inr_iff poll_keeps_def intro: reduce_loop_keeps)

lemma Barrier_keeps: "I st \<Longrightarrow> ok (afailure a) \<Longrightarrow> MPI_Barrier tln sp a st = Inr (s, st') \<Longrightarrow> I st'"
  by (auto simp: MPI_Barrier_def bindE_eq_Inr_iff intro: call_on_keeps)

end

section \<open>Point-to-point operations\<close>

context failure_invariant
begin

lemma send_loop_keeps:
  "I st \<Longrightarrow> answers_ok ok tr \<Longrightarrow> send_loop tln sp dest tag dat n i ms tr st = Inr (s, msgs, tr', st') \<Longrightarrow> I st'"
proof (induction n arbitrary: i ms tr st s msgs)
  case (Suc n)
  obtain e jb rk ign where h: "aget (job_list st) dest = Inr e" "some_or Uninitialised e = Inr jb"
      "aget (rank_list jb) i = Inr rk" "aget (rank_ignore_list st) rk = Inr ign"
    using Suc.prems(3) by (auto simp: bindE_eq_Inr_iff)
  show ?case
  proof (cases "ign = (1 :: int)")
    case True
    then show ?thesis using Suc.prems(3) h Suc.IH [OF Suc.prems(1,2)] by simp
  next
    case False
    then obtain a tr1 st1 msgs1 where s: "tr = a # tr1" "call_on tln sp rep_mpi_comm_world a st = Inr st1"
        "send_loop tln sp dest tag dat n (i + 1) (Some (astatus a)) tr1 st1 = Inr (s, msgs1, tr', st')"
      using Suc.prems(3) h by (auto simp: bindE_eq_Inr_iff split: list.splits)
    have "I st1" using call_on_keeps [OF _ _ s(2)] Suc.prems(1,2) s(1) by simp
    then show ?thesis using Suc.IH [OF _ _ s(3)] Suc.prems(2) s(1) by simp
  qed
qed simp

lemma Send_keeps:
  assumes "I st" and "answers_ok ok tr" and "MPI_Send tln sp buf n dest tag on_world tr st = Inr (s, msgs, tr', st')"
  shows "I st'"
proof -
  obtain m dat st2 where "send_loop tln sp dest tag dat m 0 None tr (st\<lparr>ignore_process_failure := 1\<rparr>) = Inr (s, msgs, tr', st2)"
      "st' = st2\<lparr>ignore_process_failure := 0\<rparr>"
    using assms(3) by (auto simp: MPI_Send_def bindE_eq_Inr_iff Let_def)
  then show ?thesis using send_loop_keeps [OF frame(1) [OF assms(1)] assms(2)] frame(1) by blast
qed

lemma recv_loop_keeps:
  "I st \<Longrightarrow> answers_ok ok tr \<Longrightarrow> recv_loop tln sp source tag buf sz n i ms tr st = Inr (s, posts, tr', st') \<Longrightarrow> I st'"
proof (induction n arbitrary: i ms tr st s posts)
  case (Suc n)
  obtain e jb rk ign where h: "aget (job_list st) source = Inr e" "some_or Uninitialised e = Inr jb"
      "aget (rank_list jb) i = Inr rk" "aget (rank_ignore_list st) rk = Inr ign"
    using Suc.prems(3) by (auto simp: bindE_eq_Inr_iff)
  show ?case
  proof (cases "ign = (1 :: int)")
    case True
    then show ?thesis using Suc.prems(3) h Suc.IH [OF Suc.prems(1,2)] by simp
  next
    case False
    then obtain a tr1 st1 m posts1 where s: "tr = a # tr1" "call_on tln sp rep_mpi_comm_world a st = Inr st1"
        "recv_loop tln sp source tag buf sz n (i + 1) (Some (astatus a)) tr1 (st1\<lparr>mem := m\<rparr>) = Inr (s, posts1, tr', st')"
      using Suc.prems(3) h by (auto simp: bindE_eq_Inr_iff Let_def split: list.splits)
    have "I st1" using call_on_keeps [OF _ _ s(2)] Suc.prems(1,2) s(1) by simp
    then show ?thesis using Suc.IH [OF _ _ s(3)] Suc.prems(2) s(1) frame(4) by simp
  qed
qed simp

lemma Recv_keeps:
  assumes "I st" and "answers_ok ok tr" and "MPI_Recv tln sp buf sz source tag on_world tr st = Inr (s, posts, tr', st')"
  shows "I st'"
proof -
  obtain m st2 where "recv_loop tln sp source tag buf sz m 0 None tr (st\<lparr>ignore_process_failure := 1\<rparr>) = Inr (s, posts, tr', st2)"
      "st' = st2\<lparr>ignore_process_failure := 0\<rparr>"
    using assms(3) by (auto simp: MPI_Recv_def bindE_eq_Inr_iff Let_def)
  then show ?thesis using recv_loop_keeps [OF frame(1) [OF assms(1)] assms(2)] frame(1) by blast
qed

lemma irecv_loop_keeps:
  "I st \<Longrightarrow> answers_ok ok tr \<Longrightarrow> irecv_loop tln sp source tag agg n ms tr st = Inr (s, agg', posts, tr', st') \<Longrightarrow> I st'"
proof (induction "length tr + n" arbitrary: agg n ms tr st s agg' posts rule: less_induct)
  case less
  note run = less.prems(3) [unfolded irecv_loop.simps [of tln sp source tag agg n ms tr st]]
  show ?case
  proof (cases "n = 0")
    case True
    then show ?thesis using run less.prems(1) by simp
  next
    case False
    show ?thesis
    proof (cases "\<exists>agg1. irecv_loop tln sp source tag agg1 (n - 1) ms tr st = Inr (s, agg', posts, tr', st')")
      case True
      then show ?thesis using less.hyps [of tr "n - 1"] less.prems(1,2) False by auto
    next
      case skip: False
      then obtain a tr1 st1 agg1 k posts1 where s: "tr = a # tr1" "call_on tln sp rep_mpi_comm_world a st = Inr st1"
          "irecv_loop tln sp source tag agg1 k (Some (astatus a)) tr1 st1 = Inr (s, agg', posts1, tr', st')" "k \<le> n"
        using run False by (auto simp: bindE_eq_Inr_iff Let_def split: if_splits list.splits)
      have "I st1" using call_on_keeps [OF _ _ s(2)] less.prems(1,2) s(1) by simp
      then show ?thesis using less.hyps [of tr1 k, OF _ _ _ s(3)] less.prems(2) s(1,4) by simp
    qed
  qed
qed

lemma Irecv_keeps:
  assumes "I st" and "answers_ok ok tr"
    and "MPI_Irecv alloc tln sp buf sz source tag on_world tr st = Inr (s, agg, posts, tr', st')"
  shows "I st'"
proof -
  let ?st = "st\<lparr>ignore_process_failure := 1\<rparr>"
  obtain b wc agg1 n st3 where l: "irecv_loop tln sp source tag agg1 n None tr (snd (new_agg_request alloc b sz wc ?st)) =
      Inr (s, agg, posts, tr', st3)" "st' = st3\<lparr>ignore_process_failure := 0\<rparr>"
    using assms(3) by (auto simp: MPI_Irecv_def bindE_eq_Inr_iff Let_def split_beta)
  obtain l where "snd (new_agg_request alloc b sz wc ?st) = ?st\<lparr>allocs := l, request_pending := request_pending st + 1\<rparr>"
    using new_agg_frame [of alloc b sz wc ?st] by (cases "new_agg_request alloc b sz wc ?st") auto
  then have "I (snd (new_agg_request alloc b sz wc ?st))" using frame(1,3,5) assms(1) by simp
  then show ?thesis using irecv_loop_keeps [OF _ assms(2) l(1)] l(2) frame(1) by simp
qed

lemma Waitall_keeps:
  assumes "I st" and "case wfailure w of None \<Rightarrow> True | Some f \<Rightarrow> ok f" and "PMPI_Waitall tln sp agg w st = Inr st'"
  shows "I st'"
  using assms(2,3) handler [OF frame(4) [OF assms(1)]] frame(4) [OF assms(1)]
  by (auto simp: PMPI_Waitall_def Let_def split: option.splits)

lemma wait_loop_keeps:
  "I st \<Longrightarrow> waits_ok ok ws \<Longrightarrow> wait_loop tln sp agg t ws st = Inr (x, ws', st') \<Longrightarrow> I st'"
proof (induction ws arbitrary: t st)
  case (Cons w ws)
  obtain st1 found where s: "PMPI_Waitall tln sp agg w st = Inr st1"
      "(case found of None \<Rightarrow> wait_loop tln sp agg (t + 1) ws st1 | Some x \<Rightarrow> Inr (x, ws, st1)) = Inr (x, ws', st')"
    using Cons.prems(3) by (auto simp: bindE_eq_Inr_iff split: if_splits)
  have "I st1" using Waitall_keeps [OF _ _ s(1)] Cons.prems(1,2) by simp
  then show ?case using s(2) Cons.prems(2) Cons.IH by (auto split: option.splits)
qed simp

lemma free_keeps: "I st \<Longrightarrow> free_agg_request agg st = Inr st' \<Longrightarrow> I st'"
  using frame(5) by (auto simp: free_agg_request_def c_free_def split: if_splits)

lemma Wait_keeps:
  assumes "I st" and "waits_ok ok ws" and "MPI_Wait tln sp agg ignored ws st = Inr (s, status, posts, ws', st')"
  shows "I st'"
proof -
  let ?st = "st\<lparr>ignore_process_failure := 1\<rparr>"
  obtain st3 where w: "wait_for_agg_request tln sp agg ignored ws ?st = Inr (s, status, posts, ws', st3)"
      "st' = st3\<lparr>request_pending := request_pending st3 - 1, ignore_process_failure := 0\<rparr>"
    using assms(3) by (auto simp: MPI_Wait_def bindE_eq_Inr_iff)
  have st: "I ?st" using assms(1) by (rule frame)
  have "I st3"
  proof (cases "request_count agg = 0 \<or> req_array agg = []")
    case True
    then show ?thesis using w(1) st by (auto simp: wait_for_agg_request_def)
  next
    case more: False
    show ?thesis
    proof (cases ignored)
      case True
      then obtain w0 ws1 st1 where x: "ws = w0 # ws1" "PMPI_Waitall tln sp agg w0 ?st = Inr st1" "free_agg_request agg st1 = Inr st3"
        using w(1) more by (auto simp: wait_for_agg_request_def bindE_eq_Inr_iff split: list.splits)
      then show ?thesis using Waitall_keeps [OF st _ x(2)] free_keeps [OF _ x(3)] assms(2) by simp
    next
      case False
      note run = w(1) [unfolded wait_for_agg_request_def, simplified more False if_False]
      obtain i s0 jid st1 where l: "wait_loop tln sp agg 0 ws ?st = Inr ((i, s0, jid), ws', st1)"
        using run by (auto simp: bindE_eq_Inr_iff Let_def)
      have st1: "I st1" by (rule wait_loop_keeps [OF st assms(2) l])
      show ?thesis
      proof (cases "request_count agg = 1")
        case True
        then have "free_agg_request agg st1 = Inr st3" using run l by (auto simp: bindE_eq_Inr_iff Let_def)
        then show ?thesis by (rule free_keeps [OF st1])
      next
        case False
        then have "\<exists>m. free_agg_request agg (st1\<lparr>mem := m\<rparr>) = Inr st3"
          using run l by (auto simp: bindE_eq_Inr_iff Let_def)
        then show ?thesis using free_keeps frame(4) [OF st1] by blast
      qed
    qed
  qed
  then show ?thesis using w(2) frame(1,3) by blast
qed

end

end
