(* ===== verification/Frames.thy ===== *)
theory Frames
  imports Full_Context
begin

text \<open>
  What the transfers and the checkpoint leave alone, whatever their input is. The operations
  on the registry and on the heap change nothing outside the heap record; the phases of
  \<open>init_rep\<close>, \<open>init_ckpt\<close> and \<open>init_ckpt_restore\<close> keep the node's own record and every field
  beyond the process record, so in particular the tables of the replication map.
\<close>

section \<open>Heap operations\<close>

lemma c_malloc_frame: "c_malloc alloc n st = (p, st') \<Longrightarrow> \<exists>l. st' = st\<lparr>allocs := l\<rparr>"
  by (rule c_malloc_cases [of alloc n st]) (auto intro: exI [of _ "allocs st"])

lemma c_free_frame: "c_free p st = Inr st' \<Longrightarrow> \<exists>l. st' = st\<lparr>allocs := l\<rparr>"
  by (auto simp: c_free_def split: if_splits intro: exI [of _ "allocs st"])

lemma malloc_more: "c_malloc alloc n st = (p, st') \<Longrightarrow> heap.more st' = heap.more st"
  by (auto dest: c_malloc_frame)

lemma free_more: "c_free p st = Inr st' \<Longrightarrow> heap.more st' = heap.more st"
  by (auto dest: c_free_frame)

lemma upd_cell_more: "upd_cell p f st = Inr st' \<Longrightarrow> heap.more st' = heap.more st"
  by (auto simp: upd_cell_def bindE_eq_Inr_iff)

lemma free_cell_more: "free_cell p st = Inr st' \<Longrightarrow> heap.more st' = heap.more st"
  by (auto simp: free_cell_def bindE_eq_Inr_iff dest: free_more)

lemma rep_append_more: "rep_append alloc c st = Inr st' \<Longrightarrow> heap.more st' = heap.more st"
  by (auto simp: rep_append_def bindE_eq_Inr_iff Let_def split: prod.splits if_splits dest!: malloc_more upd_cell_more)

lemma clear_loop_more: "clear_loop n temp st = Inr st' \<Longrightarrow> heap.more st' = heap.more st"
  by (induction n arbitrary: temp st) (auto simp: bindE_eq_Inr_iff split: if_splits dest!: free_cell_more)

lemma clear_discontiguous_loop_more: "clear_discontiguous_loop n temp st = Inr st' \<Longrightarrow> heap.more st' = heap.more st"
  by (induction n arbitrary: temp st) (auto simp: bindE_eq_Inr_iff split: if_splits dest!: free_cell_more free_more)

lemma rep_clear_more:
  "rep_clear n st = Inr st' \<Longrightarrow> heap.more st' = heap.more st"
  "rep_clear_discontiguous n st = Inr st' \<Longrightarrow> heap.more st' = heap.more st"
  by (auto simp: rep_clear_def rep_clear_discontiguous_def bindE_eq_Inr_iff
      dest!: clear_loop_more clear_discontiguous_loop_more free_more)

section \<open>Heap transfer and restoration\<close>

lemma transfer_loop_more:
  "transfer_loop alloc me n temp cont rx st = Inr (st', rx', tx) \<Longrightarrow> heap.more st' = heap.more st"
proof (induction n arbitrary: temp cont rx st st' rx' tx)
  case (Suc n)
  obtain cont1 temp1 cb rx1 tx1 where r:
    "(let cont2 = dec_container cb
      in if msize cont2 = 0 \<and> linked_address cont2 \<noteq> 0
         then bindE (if me \<noteq> 0
                     then bindE (guardE (container_address cont2 \<noteq> 0) Null_Deref) (\<lambda>_.
                            Inr (st\<lparr>mem := store_addr (mem st) (container_address cont2)
                                      (load_addr (mem st) (linked_address cont2))\<rparr>))
                     else Inr st)
                (\<lambda>st1. bindE (transfer_loop alloc me n temp1 cont2 rx1 st1)
                         (\<lambda>(st2, rx2, tx2). Inr (st2, rx2, tx1 @ tx2)))
         else
           bindE (guardE (container_address cont2 \<noteq> 0) Null_Deref) (\<lambda>_.
           case (if me = 0 then (load_addr (mem st) (container_address cont2), st)
                 else c_malloc alloc (unat (msize cont2)) st) of (heap_start, st1) \<Rightarrow>
           bindE (guardE (heap_start \<noteq> 0 \<or> msize cont2 = 0) Null_Deref) (\<lambda>_.
           bindE (guardE (0 \<le> int_count (msize cont2)) (Abort_With 300)) (\<lambda>_.
           bindE (PMPI_Bcast me (read_bytes (mem st1) heap_start (nat (int_count (msize cont2)))) rx1)
             (\<lambda>(hbytes, rx2, tx2).
           bindE (if me \<noteq> 0
                  then let m1 = write_bytes (mem st1) heap_start hbytes;
                           m2 = store_addr m1 (container_address cont2) heap_start;
                           cont3 = cont2\<lparr>allocated_address := load_addr m2 (container_address cont2)\<rparr>
                       in bindE (rep_append alloc cont3 (st1\<lparr>mem := m2\<rparr>)) (\<lambda>st2. Inr (st2, cont3))
                  else Inr (st1, cont2))
             (\<lambda>(st2, cont3).
                bindE (transfer_loop alloc me n temp1 cont3 rx2 st2)
                  (\<lambda>(st3, rx3, tx3). Inr (st3, rx3, tx1 @ tx2 @ tx3)))))))) = Inr (st', rx', tx)"
    using Suc.prems by (auto simp: bindE_eq_Inr_iff)
  obtain st1 temp2 cont2 rx2 tx2 where l: "transfer_loop alloc me n temp2 cont2 rx2 st1 = Inr (st', rx', tx2)"
      "heap.more st1 = heap.more st"
  proof (cases "msize (dec_container cb) = 0 \<and> linked_address (dec_container cb) \<noteq> 0")
    case True
    then show ?thesis using r that by (auto simp: bindE_eq_Inr_iff Let_def split: if_splits)
  next
    case False
    obtain p st1 where m: "(if me = 0 then (load_addr (mem st) (container_address (dec_container cb)), st)
                 else c_malloc alloc (unat (msize (dec_container cb))) st) = (p, st1)"
      by fastforce
    have h: "heap.more st1 = heap.more st" using m by (auto split: if_splits dest: malloc_more)
    show ?thesis using r that h False unfolding Let_def m
      by (cases "me = 0") (auto simp: bindE_eq_Inr_iff Let_def dest!: rep_append_more)
  qed
  then show ?case using Suc.IH by simp
qed simp

lemma transfer_heap_more:
  "transfer_heap_seg alloc fuel cont me rx st = Inr (st', rx', tx) \<Longrightarrow> heap.more st' = heap.more st"
  by (auto simp: transfer_heap_seg_def bindE_eq_Inr_iff Let_def split: if_splits
      dest!: transfer_loop_more rep_clear_more)

lemma restore_heap_loop_more:
  "restore_heap_loop alloc n fs st = Inr (st', fs') \<Longrightarrow> heap.more st' = heap.more st"
proof (induction n arbitrary: fs st)
  case (Suc n)
  obtain c where c: "bindE (guardE (container_address c \<noteq> 0) Null_Deref) (\<lambda>_.
          case c_malloc alloc (unat (msize c)) st of (p, st1) \<Rightarrow>
          let m1 = store_addr (mem st1) (container_address c) p;
              cont = c\<lparr>allocated_address := load_addr m1 (container_address c)\<rparr>
          in case fread_buf (unat (msize c)) (drop 32 fs) of (bs, fs2) \<Rightarrow>
             bindE (guardE (load_addr m1 (container_address c) \<noteq> 0 \<or> bs = []) Null_Deref) (\<lambda>_.
             bindE (rep_append alloc cont (st1\<lparr>mem := write_bytes m1 (load_addr m1 (container_address c)) bs\<rparr>)) (\<lambda>st2.
               restore_heap_loop alloc n fs2 st2))) = Inr (st', fs')"
    using Suc.prems by (auto simp: bindE_eq_Inr_iff fread_exact_def Let_def split: if_splits)
  obtain p st1 where m: "c_malloc alloc (unat (msize c)) st = (p, st1)" by fastforce
  obtain cont m2 st2 fs2 where s: "rep_append alloc cont (st1\<lparr>mem := m2\<rparr>) = Inr st2"
      "restore_heap_loop alloc n fs2 st2 = Inr (st', fs')"
    using c unfolding m by (auto simp: bindE_eq_Inr_iff Let_def fread_buf_def)
  show ?case using Suc.IH [OF s(2)] rep_append_more [OF s(1)] malloc_more [OF m] by simp
qed simp

lemma restore_heap_more: "restore_heap_seg alloc fs st = Inr (st', fs') \<Longrightarrow> heap.more st' = heap.more st"
  by (auto simp: restore_heap_seg_def bindE_eq_Inr_iff Let_def dest!: restore_heap_loop_more)

section \<open>Process operations\<close>

text \<open>The node's record and the globals beyond the process record.\<close>

definition same_node :: "'a process_scheme \<Rightarrow> 'a process_scheme \<Rightarrow> bool" where
  "same_node st st' \<longleftrightarrow> node st' = node st \<and> process.more st' = process.more st"

lemma same_node_trans [trans]: "same_node a b \<Longrightarrow> same_node b c \<Longrightarrow> same_node a c"
  by (simp add: same_node_def)

lemma same_node_heap: "heap.more st' = heap.more st \<Longrightarrow> same_node st st'"
  unfolding same_node_def by (intro conjI same_extension)

definition keeps_node :: "'a process_scheme phase \<Rightarrow> bool" where
  "keeps_node f \<longleftrightarrow> (\<forall>me rx st st' rx' tx. f me rx st = Inr (st', rx', tx) \<longrightarrow> same_node st st')"

lemma keeps_nodeI: "(\<And>me rx st st' rx' tx. f me rx st = Inr (st', rx', tx) \<Longrightarrow> same_node st st') \<Longrightarrow> keeps_node f"
  unfolding keeps_node_def by blast

lemma keeps_nodeD: "keeps_node f \<Longrightarrow> f me rx st = Inr (st', rx', tx) \<Longrightarrow> same_node st st'"
  unfolding keeps_node_def by blast

lemma keeps_node_then:
  assumes "keeps_node f" and "keeps_node g"
  shows "keeps_node (then_phase f g)"
proof (rule keeps_nodeI)
  fix me rx st st' rx' tx
  assume "then_phase f g me rx st = Inr (st', rx', tx)"
  then obtain st1 rx1 tx1 tx2 where "f me rx st = Inr (st1, rx1, tx1)" "g me rx1 st1 = Inr (st', rx', tx2)"
    by (auto simp: then_phase_def bindE_eq_Inr_iff)
  then show "same_node st st'" using assms [THEN keeps_nodeD] same_node_trans by blast
qed

lemma bcast_mem_same: "bcast_mem a n me rx st = Inr (st', rx', tx) \<Longrightarrow> same_node st st'"
  by (auto simp: bcast_mem_def bindE_eq_Inr_iff same_node_def)

lemma keeps_node_data: "keeps_node transfer_data_seg"
  unfolding transfer_data_seg_def
  by (intro keeps_node_then keeps_nodeI)
    (simp_all add: transfer_init_data_seg_def transfer_uninit_data_seg_def Let_def bcast_mem_same)

lemma keeps_node_heap: "keeps_node (transfer_heap_seg alloc fuel cont)"
  by (intro keeps_nodeI same_node_heap) (rule transfer_heap_more)

lemma keeps_node_framework: "keeps_node transfer_framework_data"
  by (rule keeps_nodeI) (auto simp: transfer_framework_data_def bindE_eq_Inr_iff same_node_def)

lemma keeps_node_stack: "keeps_node (transfer_stack_seg pc ss)"
proof (rule keeps_nodeI)
  fix me rx st st' rx' tx
  assume "transfer_stack_seg pc ss me rx st = Inr (st', rx', tx)"
  then obtain st2 a n rx3 tx3 where "bcast_mem a n me rx3 st2 = Inr (st', rx', tx3)" "same_node st st2"
    unfolding transfer_stack_seg_def Let_def by (auto simp: bindE_eq_Inr_iff same_node_def)
  then show "same_node st st'" using bcast_mem_same same_node_trans by blast
qed

lemma init_rep_same: "init_rep alloc fuel pc ss cont me rx st = Inr (st', rx', tx) \<Longrightarrow> same_node st st'"
proof -
  have "keeps_node (init_rep alloc fuel pc ss cont :: 'a process_scheme phase)"
    unfolding init_rep_def
    by (intro keeps_node_then keeps_node_data keeps_node_stack keeps_node_heap keeps_node_framework)
  then show "init_rep alloc fuel pc ss cont me rx st = Inr (st', rx', tx) \<Longrightarrow> same_node st st'"
    by (rule keeps_nodeD)
qed

lemma init_ckpt_same: "init_ckpt w fuel files st = Inr (st', files') \<Longrightarrow> same_node st st'"
  by (auto simp: init_ckpt_def save_stack_seg_def bindE_eq_Inr_iff Let_def same_node_def)

lemma init_ckpt_restore_same: "init_ckpt_restore alloc files st = Inr st' \<Longrightarrow> same_node st st'"
proof -
  assume "init_ckpt_restore alloc files st = Inr st'"
  then obtain fs st1 fs1 st2 fs2 st3 fs3 fs4 where s: "restore_data_seg fs st = Inr (st1, fs1)" "restore_stack_seg fs1 st1 = Inr (st2, fs2)"
      "restore_heap_seg alloc fs2 st2 = Inr (st3, fs3)" "restore_framework_data fs3 st3 = Inr (st', fs4)"
    by (auto simp: init_ckpt_restore_def bindE_eq_Inr_iff)
  have "same_node st st1" using s(1) by (auto simp: restore_data_seg_def bindE_eq_Inr_iff Let_def same_node_def fread_buf_def)
  also have "same_node st1 st2" using s(2) by (auto simp: restore_stack_seg_def bindE_eq_Inr_iff Let_def same_node_def fread_buf_def)
  also have "same_node st2 st3" using s(3) by (rule same_node_heap [OF restore_heap_more])
  also have "same_node st3 st'" using s(4) by (auto simp: restore_framework_data_def bindE_eq_Inr_iff same_node_def)
  finally show ?thesis .
qed

end
