(* ===== verification/Sessions.thy ===== *)
theory Sessions
  imports Calls Frames Update
begin

text \<open>
  Whole runs of one process. After \<open>MPI_Init\<close> an application calls the library in any order;
  failures and new maps reach it inside these calls. The theory shows that the tables keep
  their type in all such runs: parsing establishes it, the polls and the error handler keep
  it, and so does every call.
\<close>

section \<open>Loading a map\<close>

text \<open>A map of the manager for \<open>N\<close> processes and \<open>J\<close> jobs.\<close>

definition map_for :: "nat \<Rightarrow> nat \<Rightarrow> JobMap \<Rightarrow> bool" where
  "map_for N J jm \<longleftrightarrow> valid_map jm \<and> length (all_ranks jm) = N \<and> length jm = J"

lemma workers_entry: "workers (entry_of k j) = ranks j"
  by (simp add: workers_def entry_of_def ranks_def)

lemma map_for_ranks:
  assumes "map_for N J jm" and "k < J" and "w \<in> set (ranks (jm ! k))"
  shows "w \<in> set (all_ranks jm)" "0 \<le> w" "nat w < N"
proof -
  show w: "w \<in> set (all_ranks jm)" using assms by (auto simp: map_for_def all_ranks_def)
  then show "0 \<le> w" "nat w < N" using assms(1) by (auto simp: map_for_def valid_map_def list_all_iff)
qed

lemma entries_ok:
  assumes "valid_map jm"
  shows "list_all job_ok (map (\<lambda>(k, j). entry_of k j) (enumerate 0 jm))"
proof -
  have "job_ok (entry_of k (jm ! k))" if "k < length jm" for k
    using assms that by (simp add: valid_map_def list_all_length job_ok_def entry_of_def ranks_def)
  then show ?thesis by (simp add: list_all_length nth_enumerate_eq)
qed

lemma load_jobs_length:
  assumes "rank_2_job st = Some tbl"
  shows "\<exists>t. rank_2_job (fold (load_job jobs) kjs st) = Some t \<and> length t = length tbl"
  using assms
proof (induction kjs arbitrary: st tbl)
  case (Cons kj kjs)
  obtain t where "rank_2_job (load_job jobs kj st) = Some t" "length t = length tbl" using load_job_sel(2) [OF Cons.prems] by blast
  then show ?case using Cons.IH by fastforce
qed simp

text \<open>The process's own job: as before, or the one of the map.\<close>

lemma own_job_after:
  assumes "map_for N J jm" and "map_loaded jm st st'" and "parse_map_file (Some (WriteToFile jm)) st = Inr st'"
    and "ckpt_restore st = RESTORE_NO" and "old_map_ok N st"
  shows "job_id (node st') = job_id (node st) \<and> jobs_count (node st') = jobs_count (node st) \<or>
     0 \<le> job_id (node st') \<and> job_id (node st') < int J \<and> jobs_count (node st') = int J"
proof (cases "\<exists>k i. k < length jm \<and> i < length (ranks (jm ! k)) \<and> ranks (jm ! k) ! i = rank (node st)")
  case True
  then show ?thesis using assms(1,2) by (auto simp: map_loaded_def map_for_def role_def)
next
  case False
  then have "\<forall>j \<in> set jm. rank (node (before_jobs jm st)) \<notin> set (ranks j)"
    by (auto simp: in_set_conv_nth before_jobs_def)
  then have "node st' = node (before_jobs jm st)"
    using assms(1,3-5) load_jobs_node_other [of jm "before_jobs jm st" "int (length jm)" 0]
    by (simp add: parse_map_written_file map_for_def)
  then show ?thesis by (simp add: before_jobs_def)
qed

lemma parse_gives_tables:
  assumes m: "map_for N J jm" and ck: "ckpt_restore st = RESTORE_NO" and old: "old_map_ok N st"
    and ign: "N \<le> length (rank_ignore_list st)"
    and own: "0 \<le> job_id (node st) \<and> job_id (node st) < int J \<and> jobs_count (node st) = int J \<or> (\<exists>k i. newcomer k jm i st)"
    and run: "parse_map_file (Some (WriteToFile jm)) st = Inr st'"
  shows "tables_ok N J st'"
proof -
  let ?js = "map (\<lambda>(k, j). entry_of k j) (enumerate 0 jm)"
  have v: "valid_map jm" "length (all_ranks jm) = N" "length jm = J" using m by (simp_all add: map_for_def)
  have old': "old_map_ok (length (all_ranks jm)) st" using old v(2) by simp
  have st': "st' = fold (load_job (int J)) (enumerate 0 jm) (before_jobs jm st)"
    using parse_map_written_file [OF v(1) ck old'] run v(3) by simp
  have ml: "map_loaded jm st st'" using parse_map_loads [OF v(1) ck old'] run by auto
  have nth: "?js ! k = entry_of k (jm ! k)" if "k < J" for k using that v(3) by (simp add: nth_enumerate_eq)
  obtain t where t: "rank_2_job st' = Some t" "\<forall>k < length jm. \<forall>w \<in> set (ranks (jm ! k)). t ! nat w = Some (int k)"
    using ml by (auto simp: map_loaded_def)
  have "N \<le> length t"
  proof -
    obtain tbl where tbl: "rank_2_job (before_jobs jm st) = Some tbl" "N \<le> length tbl"
      using old v(2) by (cases "rank_2_job st") (auto simp: before_jobs_def old_map_ok_def)
    then show ?thesis using load_jobs_length [OF tbl(1), of "int J" "enumerate 0 jm"] st' t(1) by auto
  qed
  moreover have "rank_ignore_list st' = rank_ignore_list st" using parse_map_frame [OF run] by auto
  ultimately have "tables N st'" using t(1) ign by (simp add: tables_def)
  moreover have "table_in N J st'"
    unfolding table_in_def
  proof (intro allI impI)
    fix r
    assume "r < N"
    then obtain k i where ki: "k < length jm" "i < length (ranks (jm ! k))" "nat (ranks (jm ! k) ! i) = r"
      using position [OF v(1)] v(2) by metis
    then have "t ! r = Some (int k)" using t(2) by (metis nth_mem)
    then show "\<exists>k < J. the (rank_2_job st') ! r = Some (int k)" using ki(1) v(3) t(1) by auto
  qed
  moreover have "job_list st' = map Some ?js" using ml by (auto simp: map_loaded_def)
  moreover have "list_all job_ok ?js" by (rule entries_ok [OF v(1)])
  moreover have "distinct (concat (map workers ?js))"
  proof -
    have "map workers ?js = map ranks jm" by (rule nth_equalityI) (simp_all add: nth_enumerate_eq workers_entry)
    then show ?thesis using v(1) by (simp add: valid_map_def all_ranks_def)
  qed
  moreover have "0 \<le> w \<and> nat w < N \<and> the (rank_2_job st') ! nat w = Some (int k)" if "k < J" "w \<in> set (workers (?js ! k))" for k w
    using map_for_ranks [OF m that(1)] that t v(3) nth [OF that(1)] by (auto simp: workers_entry)
  moreover have "0 \<le> job_id (node st') \<and> job_id (node st') < int J \<and> jobs_count (node st') = int J"
    using own
  proof
    assume "0 \<le> job_id (node st) \<and> job_id (node st) < int J \<and> jobs_count (node st) = int J"
    then show ?thesis using own_job_after [OF m ml run ck old] by auto
  next
    assume "\<exists>k i. newcomer k jm i st"
    then show ?thesis using ml v(3) by (auto simp: newcomer_def map_loaded_def role_def)
  qed
  ultimately show ?thesis unfolding tables_ok_def using v(3) by (intro exI [of _ ?js]) simp
qed

lemma tables_ok_old_map:
  assumes "tables_ok N J st"
  shows "old_map_ok N st" "N \<le> length (rank_ignore_list st)"
  using assms by (auto simp: tables_ok_def old_map_ok_def tables_def list_all_iff)

section \<open>Polls\<close>

lemma same_globals:
  fixes st st' :: "'a globals_scheme"
  assumes "process.more st' = process.more st"
  shows "job_list st' = job_list st" "rank_2_job st' = rank_2_job st" "rank_ignore_list st' = rank_ignore_list st"
    "globals.more st' = globals.more st"
  using assms by (cases st; cases st'; simp)+

lemma tables_ok_same_node:
  assumes "tables_ok N J st" and "same_node st st'"
  shows "tables_ok N J st'"
proof -
  have n: "node st' = node st" and m: "process.more st' = process.more st" using assms(2) by (simp_all add: same_node_def)
  from assms(1) same_globals(1,2) [OF m] show ?thesis
    by (rule tables_ok_frame) (simp_all only: n same_globals(3) [OF m])
qed

text \<open>A poll whose map, if the file opens, and whose failure, if there is one, fit the run.\<close>

definition sane_poll :: "nat \<Rightarrow> nat \<Rightarrow> platform \<Rightarrow> poll_env \<Rightarrow> bool" where
  "sane_poll N J pl e \<longleftrightarrow> sane_failure N (translate_ranks pl) (afailure (pending_sum e)) \<and>
     (case map_text e of None \<Rightarrow> True | Some s \<Rightarrow> \<exists>jm. map_for N J jm \<and> s = WriteToFile jm)"

interpretation tabs: failure_invariant tln sp "sane_failure N tln" "tables_ok N J" for tln sp N J
proof (unfold_locales, goal_cases)
  case (1 st f c st')
  then show ?case by (rule handler_keeps_tables)
next
  case (2 f b)
  then show ?case by (simp add: sane_failure_def world_translation_def)
qed (auto intro: tables_ok_frame)

lemma setjmp_0_tables:
  assumes "tables_ok N J st" and "setjmp_0 pl e st = Inr (p, c, st')"
  shows "tables_ok N J st'"
proof -
  obtain l where "st' = st\<lparr>ctx := cpu e, allocs := l\<rparr>"
    using assms(2) c_malloc_frame [of "malloc_at pl" TEMP_STACK_SIZE "st\<lparr>ctx := cpu e\<rparr>"]
    by (cases "c_malloc (malloc_at pl) TEMP_STACK_SIZE (st\<lparr>ctx := cpu e\<rparr>)") (auto simp: setjmp_0_def bindE_eq_Inr_iff Let_def)
  then show ?thesis by (auto intro: tables_ok_frame [OF assms(1)])
qed

lemma setjmp_1_tables:
  assumes ok: "tables_ok N J st" and run: "setjmp_1 pl e files st = Inr (files', tx, st')"
  shows "tables_ok N J st'"
proof (cases "ckpt_restore st = RESTORE_YES")
  case True
  then obtain st1 where "init_ckpt_restore (malloc_at pl) files st = Inr st1" "st' = st1\<lparr>ckpt_restore := RESTORE_NO\<rparr>"
    using run by (auto simp: setjmp_1_def bindE_eq_Inr_iff)
  moreover from this(1) have "tables_ok N J st1" by (rule tables_ok_same_node [OF ok init_ckpt_restore_same])
  ultimately show ?thesis by (auto intro: tables_ok_frame)
next
  case False
  then obtain st1 files1 where c: "(if node_checkpoint_master (node st) = YES
                  then bindE (guardE (0 \<le> ckpt_counter st \<and> ckpt_counter st < MAX_CKPT) Out_Of_Bounds) (\<lambda>_.
                       init_ckpt (creatable pl) (walk_fuel pl) files st)
                  else Inr (st, files)) = Inr (st1, files1)"
      and r: "(if rep_flag st1 \<noteq> 0
           then bindE (guardE (0 \<le> rep_counter st1 \<and> rep_counter st1 < MAX_REP) Out_Of_Bounds) (\<lambda>_.
                bindE (init_rep (malloc_at pl) (walk_fuel pl) (context0 e) (size0 e) (container0 e)
                         (comm_rank e) (incoming e) st1) (\<lambda>(st2, _, tx). Inr (files1, tx, st2)))
           else Inr (files1, [], st1)) = Inr (files', tx, st')"
    using run by (auto simp: setjmp_1_def bindE_eq_Inr_iff)
  have "tables_ok N J st1"
    using c ok by (auto simp: bindE_eq_Inr_iff split: if_splits intro: tables_ok_same_node [OF ok init_ckpt_same])
  then show ?thesis
    using r by (auto simp: bindE_eq_Inr_iff split: if_splits intro: tables_ok_same_node [OF _ init_rep_same])
qed

lemma take_part_tables:
  assumes "tables_ok N J st" and "take_part pl e files st = Inr (r, files', tx, st')"
  shows "tables_ok N J st'"
proof -
  obtain p c st1 st2 where s: "setjmp_0 pl e st = Inr (p, c, st1)" "setjmp_1 pl e files st1 = Inr (files', tx, st2)"
      "c_free p st2 = Inr st'"
    using assms(2) by (auto simp: take_part_def bindE_eq_Inr_iff)
  have "tables_ok N J st2" by (rule setjmp_1_tables [OF setjmp_0_tables [OF assms(1) s(1)] s(2)])
  then show ?thesis using c_free_frame [OF s(3)] by (auto intro: tables_ok_frame)
qed

lemma load_update_parses:
  assumes "load_update pl e files st = Inr (files', st')"
  obtains st1 where "parse_map_file (map_text e) st = Inr st1" "job_list st' = job_list st1" "rank_2_job st' = rank_2_job st1"
    "rank_ignore_list st' = rank_ignore_list st1" "job_id (node st') = job_id (node st1)" "jobs_count (node st') = jobs_count (node st1)"
proof -
  obtain st1 where p: "parse_map_file (map_text e) st = Inr st1"
      and st': "st' = (let st2 = fst (create_migration_comm (comm_split pl) (key0 e) (update_comms (comm_split pl) st1))
        in st2\<lparr>replication_idx := replication_idx st2 + 1, rep_counter := rep_counter st2 + 1, ckpt_counter := ckpt_counter st2 + 1\<rparr>)"
    using assms by (auto simp: load_update_def bindE_eq_Inr_iff Let_def)
  show ?thesis by (rule that [OF p]) (simp_all add: st' create_migration_comm_def update_comms_def Let_def)
qed

lemma load_update_tables:
  assumes ok: "tables_ok N J st" and e: "sane_poll N J pl e" and run: "load_update pl e files st = Inr (files', st')"
  shows "tables_ok N J st'"
proof -
  obtain st1 where p: "parse_map_file (map_text e) st = Inr st1"
      and st': "job_list st' = job_list st1" "rank_2_job st' = rank_2_job st1" "rank_ignore_list st' = rank_ignore_list st1"
        "job_id (node st') = job_id (node st1)" "jobs_count (node st') = jobs_count (node st1)"
    using run by (rule load_update_parses)
  have "tables_ok N J st1"
  proof (cases "ckpt_restore st = RESTORE_YES")
    case True
    then show ?thesis using p ok by (simp add: parse_map_file_def)
  next
    case False
    then have no: "ckpt_restore st = RESTORE_NO" by (cases "ckpt_restore st") auto
    obtain jm where jm: "map_for N J jm" "parse_map_file (Some (WriteToFile jm)) st = Inr st1"
      using p e False by (cases "map_text e") (auto simp: sane_poll_def parse_map_file_def)
    have "0 \<le> job_id (node st) \<and> job_id (node st) < int J \<and> jobs_count (node st) = int J"
      using ok by (auto simp: tables_ok_def)
    then show ?thesis using parse_gives_tables [OF jm(1) no tables_ok_old_map [OF ok] _ jm(2)] by blast
  qed
  then show ?thesis
    by (rule tables_ok_frame) (simp_all add: st')
qed

lemma poll_tables:
  assumes ok: "tables_ok N J st" and e: "sane_poll N J pl e"
    and run: "is_file_update_set pl e files st = Inr (r, files', tx, st')"
  shows "tables_ok N J st'"
proof -
  obtain m st0 where m: "is_file_modified (map_mtime e) st = (m, st0)" by fastforce
  have ok0: "tables_ok N J st0" using ok
    by (rule tables_ok_frame) (use m in \<open>auto simp: is_file_modified_def split: if_splits\<close>)
  show ?thesis
  proof (cases "m = 0")
    case True
    then show ?thesis using run m ok0 by (simp add: is_file_update_set_def)
  next
    case False
    then obtain st1 where c: "call_on (translate_ranks pl) (comm_split pl) rep_mpi_comm_world (pending_sum e) st0 = Inr st1"
        and r: "(if (if astatus (pending_sum e) = MPI_SUCCESS then aflag (pending_sum e) else 1) \<noteq> 0
              then Inr (Some 0, files, [], st1\<lparr>last_file_update := last_file_update st1 - 1\<rparr>)
              else bindE (load_update pl e files st1) (\<lambda>(files1, st2).
                   if rep_flag st2 = 0 \<and> node_checkpoint_master (node st2) = NO \<and> ckpt_restore st2 = RESTORE_NO
                   then Inr (Some 1, files1, [], st2)
                   else take_part pl e files1 st2)) = Inr (r, files', tx, st')"
      using run m by (auto simp: is_file_update_set_def bindE_eq_Inr_iff Let_def)
    have ok1: "tables_ok N J st1" using e by (intro tabs.call_on_keeps [OF ok0 _ c]) (simp add: sane_poll_def)
    show ?thesis
    proof (cases "(if astatus (pending_sum e) = MPI_SUCCESS then aflag (pending_sum e) else 1) \<noteq> 0")
      case True
      then have "st' = st1\<lparr>last_file_update := last_file_update st1 - 1\<rparr>" using r by auto
      then show ?thesis by (auto intro: tables_ok_frame [OF ok1])
    next
      case False
      then obtain files1 st2 where l: "load_update pl e files st1 = Inr (files1, st2)"
          "(if rep_flag st2 = 0 \<and> node_checkpoint_master (node st2) = NO \<and> ckpt_restore st2 = RESTORE_NO
            then Inr (Some 1, files1, [], st2) else take_part pl e files1 st2) = Inr (r, files', tx, st')"
        using r by (auto simp: bindE_eq_Inr_iff)
      have "tables_ok N J st2" by (rule load_update_tables [OF ok1 e l(1)])
      then show ?thesis using l(2) take_part_tables by (auto split: if_splits)
    qed
  qed
qed

section \<open>Initialisation\<close>

text \<open>A process that starts: nothing loaded yet, and the line of its job in the map is marked.\<close>

definition assigned :: "int \<Rightarrow> JobMap \<Rightarrow> bool" where
  "assigned r jm \<longleftrightarrow> (\<exists>k < length jm. r \<in> set (ranks (jm ! k)) \<and> Modified (jm ! k) = 1)"

definition blank :: "'a globals_scheme \<Rightarrow> bool" where
  "blank st \<longleftrightarrow> ckpt_restore st = RESTORE_NO \<and> jobs_count (node st) = 0 \<and> rank_2_job st = None"

lemma init_node_tables:
  assumes "map_for N J jm" and "assigned r jm" and "blank st" and "init_node sp r N (Some (WriteToFile jm)) st = Inr st'"
  shows "tables_ok N J st'"
proof -
  let ?st = "st\<lparr>node := (node st)\<lparr>rank := r, static_rank := r, job_id := -1\<rparr>, rank_ignore_list := replicate N 0\<rparr>"
  obtain st2 where p: "parse_map_file (Some (WriteToFile jm)) ?st = Inr st2"
      "st' = (let st3 = update_comms sp st2 in st3\<lparr>node := (node st3)\<lparr>node_transit_state := NODE_DATA_NONE\<rparr>\<rparr>)"
    using assms(4) by (auto simp: init_node_def bindE_eq_Inr_iff Let_def)
  have b: "ckpt_restore ?st = RESTORE_NO" "old_map_ok N ?st" "N \<le> length (rank_ignore_list ?st)"
    using assms(3) by (simp_all add: blank_def old_map_ok_def)
  obtain k where k: "k < length jm" "r \<in> set (ranks (jm ! k))" "Modified (jm ! k) = 1" using assms(2) by (auto simp: assigned_def)
  then obtain i where "i < length (ranks (jm ! k))" "ranks (jm ! k) ! i = r" by (auto simp: in_set_conv_nth)
  then have "\<exists>k i. newcomer k jm i ?st" using k by (auto simp: newcomer_def)
  then have "tables_ok N J st2" using parse_gives_tables [OF assms(1) b _ p(1)] by blast
  then show ?thesis by (rule tables_ok_frame) (simp_all add: p(2) update_comms_def Let_def)
qed

lemma MPI_Init_tables:
  assumes e: "sane_poll N J pl e" and jm: "map_text e = Some (WriteToFile jm)" "map_for N J jm" "assigned r jm" and b: "blank st"
    and run: "MPI_Init pl e dup r N host pid junk files st = Inr (bh, files', tx, st')"
  shows "tables_ok N J st'"
proof -
  let ?st = "st\<lparr>node := (node st)\<lparr>rep_mpi_comm_world := dup\<rparr>\<rparr>"
  obtain st2 where i: "init_node (comm_split pl) r N (Some (WriteToFile jm)) ?st = Inr st2"
    using run jm(1) by (auto simp: MPI_Init_def bindE_eq_Inr_iff Let_def)
  define st3 where "st3 = set_last_file_update (map_mtime e) st2"
  define st5 where "st5 = (if does_ckpt_file_exists files st3 then st3\<lparr>ckpt_restore := RESTORE_YES\<rparr> else st3)\<lparr>replication_idx := 0\<rparr>"
  obtain bl st6 where m: "c_malloc (malloc_at pl) 10000000 st5 = (bl, st6)" by fastforce
  have "blank ?st" using b by (simp add: blank_def)
  then have "tables_ok N J st2" by (rule init_node_tables [OF jm(2,3) _ i])
  then have "tables_ok N J st5" by (rule tables_ok_frame) (simp_all add: st5_def st3_def set_last_file_update_def)
  then have t6: "tables_ok N J st6" using c_malloc_frame [OF m] by (auto intro: tables_ok_frame)
  show ?thesis
  proof (cases "does_ckpt_file_exists files st3")
    case True
    then obtain files2 x where "is_file_update_set pl e files2 st6 = Inr (x, files', tx, st')"
      using run i jm(1) m by (auto simp: MPI_Init_def bindE_eq_Inr_iff Let_def st5_def st3_def)
    then show ?thesis by (rule poll_tables [OF t6 e])
  next
    case False
    then have "st' = st6" using run i jm(1) m by (auto simp: MPI_Init_def bindE_eq_Inr_iff Let_def st5_def st3_def)
    then show ?thesis using t6 by simp
  qed
qed

section \<open>Sessions\<close>

text \<open>
  One call of the library, with whatever MPI answers. \<open>N\<close> processes started, with \<open>J\<close> jobs.
\<close>

definition polled :: "platform \<Rightarrow> poll_env \<Rightarrow> files \<Rightarrow> 'a ulfm_scheme poll" where
  "polled pl e files st = bindE (is_file_update_set pl e files st) (\<lambda>(_, _, _, st1). Inr st1)"

abbreviation sane_answers :: "nat \<Rightarrow> platform \<Rightarrow> answer list \<Rightarrow> bool" where
  "sane_answers N pl \<equiv> answers_ok (sane_failure N (translate_ranks pl))"

inductive lib_call :: "platform \<Rightarrow> nat \<Rightarrow> nat \<Rightarrow> 'a ulfm_scheme \<Rightarrow> 'a ulfm_scheme \<Rightarrow> bool" for pl N J where
  scatter: "sane_poll N J pl e \<Longrightarrow> sane_answers N pl tr \<Longrightarrow>
    MPI_Scatter (polled pl e files) (translate_ranks pl) (comm_split pl) n on_world rbuf tr st = Inr (s, b, tr', st') \<Longrightarrow>
    lib_call pl N J st st'"
| gather: "sane_poll N J pl e \<Longrightarrow> sane_answers N pl tr \<Longrightarrow>
    MPI_Gather (polled pl e files) (translate_ranks pl) (comm_split pl) n on_world rbuf tr st = Inr (s, b, tr', st') \<Longrightarrow>
    lib_call pl N J st st'"
| allgather: "sane_poll N J pl e \<Longrightarrow> sane_answers N pl tr \<Longrightarrow>
    MPI_Allgather (polled pl e files) (translate_ranks pl) (comm_split pl) n on_world rbuf tr st = Inr (s, b, tr', st') \<Longrightarrow>
    lib_call pl N J st st'"
| allreduce: "sane_poll N J pl e \<Longrightarrow> sane_answers N pl tr \<Longrightarrow>
    MPI_Allreduce (polled pl e files) (translate_ranks pl) (comm_split pl) n on_world rbuf tr st = Inr (s, b, tr', st') \<Longrightarrow>
    lib_call pl N J st st'"
| bcast: "sane_poll N J pl e \<Longrightarrow> sane_answers N pl tr \<Longrightarrow>
    MPI_Bcast (polled pl e files) (translate_ranks pl) (comm_split pl) n root on_world rbuf tr st = Inr (s, roots, b, tr', st') \<Longrightarrow>
    lib_call pl N J st st'"
| reduce: "sane_poll N J pl e \<Longrightarrow> sane_answers N pl tr \<Longrightarrow>
    MPI_Reduce (polled pl e files) (translate_ranks pl) (comm_split pl) n root on_world flag0 rbuf tr st = Inr (s, b, tr', st') \<Longrightarrow>
    lib_call pl N J st st'"
| barrier: "sane_failure N (translate_ranks pl) (afailure a) \<Longrightarrow>
    MPI_Barrier (translate_ranks pl) (comm_split pl) a st = Inr (s, st') \<Longrightarrow> lib_call pl N J st st'"
| send: "sane_answers N pl tr \<Longrightarrow>
    MPI_Send (translate_ranks pl) (comm_split pl) buf n dest tag on_world tr st = Inr (s, msgs, tr', st') \<Longrightarrow>
    lib_call pl N J st st'"
| recv: "sane_answers N pl tr \<Longrightarrow>
    MPI_Recv (translate_ranks pl) (comm_split pl) buf n source tag on_world tr st = Inr (s, posts, tr', st') \<Longrightarrow>
    lib_call pl N J st st'"
| irecv: "sane_answers N pl tr \<Longrightarrow>
    MPI_Irecv (malloc_at pl) (translate_ranks pl) (comm_split pl) buf n source tag on_world tr st = Inr (s, agg, posts, tr', st') \<Longrightarrow>
    lib_call pl N J st st'"
| wait: "waits_ok (sane_failure N (translate_ranks pl)) ws \<Longrightarrow>
    MPI_Wait (translate_ranks pl) (comm_split pl) agg ignored ws st = Inr (s, status, posts, ws', st') \<Longrightarrow>
    lib_call pl N J st st'"

text \<open>
  A run: \<open>MPI_Init\<close>, then calls of the library and steps of the application, which may change
  memory, registers and registry but not the library's own globals.
\<close>

inductive session :: "platform \<Rightarrow> nat \<Rightarrow> nat \<Rightarrow> 'a ulfm_scheme \<Rightarrow> bool" for pl N J where
  start: "sane_poll N J pl e \<Longrightarrow> map_text e = Some (WriteToFile jm) \<Longrightarrow> map_for N J jm \<Longrightarrow> assigned r jm \<Longrightarrow> blank st \<Longrightarrow>
    MPI_Init pl e dup r N host pid junk files st = Inr (bh, files', tx, st') \<Longrightarrow> session pl N J st'"
| call: "session pl N J st \<Longrightarrow> lib_call pl N J st st' \<Longrightarrow> session pl N J st'"
| application: "session pl N J st \<Longrightarrow> same_node st st' \<Longrightarrow> session pl N J st'"

lemma polled_keeps:
  assumes "sane_poll N J pl e"
  shows "tabs.poll_keeps N J (polled pl e files)"
  unfolding tabs.poll_keeps_def polled_def by (auto simp: bindE_eq_Inr_iff intro: poll_tables [OF _ assms])

lemma lib_call_tables:
  assumes "lib_call pl N J st st'" and "tables_ok N J st"
  shows "tables_ok N J st'"
  using assms
proof (induction rule: lib_call.induct)
  case (scatter e tr files n on_world rbuf st s b tr' st')
  then show ?case using tabs.collective_keeps [OF _ _ polled_keeps] unfolding MPI_Scatter_def by blast
next
  case (gather e tr files n on_world rbuf st s b tr' st')
  then show ?case using tabs.collective_keeps [OF _ _ polled_keeps] unfolding MPI_Gather_def by blast
next
  case (allgather e tr files n on_world rbuf st s b tr' st')
  then show ?case using tabs.collective_keeps [OF _ _ polled_keeps] unfolding MPI_Allgather_def by blast
next
  case (allreduce e tr files n on_world rbuf st s b tr' st')
  then show ?case using tabs.collective_keeps [OF _ _ polled_keeps] unfolding MPI_Allreduce_def by blast
next
  case (bcast e tr files n root on_world rbuf st s roots b tr' st')
  then show ?case using tabs.Bcast_keeps [OF _ _ polled_keeps] by blast
next
  case (reduce e tr files n root on_world flag0 rbuf st s b tr' st')
  then show ?case using tabs.Reduce_keeps [OF _ _ polled_keeps] by blast
qed (blast intro: tabs.Barrier_keeps tabs.Send_keeps tabs.Recv_keeps tabs.Irecv_keeps tabs.Wait_keeps)+

lemma session_tables: "session pl N J st \<Longrightarrow> tables_ok N J st"
  by (induction rule: session.induct) (auto intro: MPI_Init_tables lib_call_tables tables_ok_same_node)

end
