(* ===== verification/Progress.thy ===== *)
theory Progress
  imports Sessions
begin

text \<open>
  What the type of the tables is good for. In a state that a run can reach, point-to-point
  calls never read outside the tables, whatever dies while they run; and where the type is not
  enough, a theorem says so: a map of the original processes, loaded after a failure, makes the
  next failure fatal.
\<close>

section \<open>Point-to-point calls return\<close>

lemma tables_worker:
  assumes "tables_ok N J st" and "0 \<le> k" and "k < int J"
  obtains jb where "aget (job_list st) k = Inr (Some jb)" "0 < worker_count jb" "nat (worker_count jb) \<le> N"
    "\<And>i. i < nat (worker_count jb) \<Longrightarrow> \<exists>rk g. aget (rank_list jb) (int i) = Inr rk \<and> aget (rank_ignore_list st) rk = Inr g"
proof -
  obtain js where js: "job_list st = map Some js" "length js = J" "list_all job_ok js" "distinct (concat (map workers js))"
      "\<forall>k < J. \<forall>w \<in> set (workers (js ! k)). 0 \<le> w \<and> nat w < N" "N \<le> length (rank_ignore_list st)"
    using assms(1) by (auto simp: tables_ok_def tables_def)
  have k: "nat k < J" using assms(2,3) by simp
  let ?jb = "js ! nat k"
  have ok: "0 < worker_count ?jb" "nat (worker_count ?jb) \<le> length (rank_list ?jb)"
    using js(2,3) k by (simp_all add: list_all_length job_ok_def)
  have at: "rank_list ?jb ! i \<in> set (workers ?jb)" if "i < nat (worker_count ?jb)" for i
    using that ok(2) by (auto simp: workers_def in_set_conv_nth intro!: exI [of _ i])
  have "nat (worker_count ?jb) = card (nat ` set (workers ?jb))"
  proof -
    have "distinct (workers ?jb)" using js(2,4) k by (simp add: distinct_concat_iff)
    moreover have "inj_on nat (set (workers ?jb))" using js(5) k by (auto intro!: inj_onI simp: eq_nat_nat_iff)
    ultimately show ?thesis using ok(2) by (simp add: card_image distinct_card workers_def)
  qed
  also have "\<dots> \<le> card {..<N}" using js(5) k by (intro card_mono) auto
  finally have n: "nat (worker_count ?jb) \<le> N" by simp
  show ?thesis
  proof (rule that [OF _ ok(1) n])
    show "aget (job_list st) k = Inr (Some ?jb)" using js(1,2) k assms(2) by (simp add: aget_def)
  next
    fix i
    assume i: "i < nat (worker_count ?jb)"
    then have "0 \<le> rank_list ?jb ! i \<and> nat (rank_list ?jb ! i) < N" using at js(5) k by blast
    then show "\<exists>rk g. aget (rank_list ?jb) (int i) = Inr rk \<and> aget (rank_ignore_list st) rk = Inr g"
      using i ok(2) js(6) by (simp add: aget_def)
  qed
qed

lemma tables_rank:
  assumes "tables_ok N J st" and "0 \<le> k" and "k < int J" and "aget (job_list st) k = Inr (Some jb)" and "i < nat (worker_count jb)"
  obtains rk g where "aget (rank_list jb) (int i) = Inr rk" "aget (rank_ignore_list st) rk = Inr g"
proof -
  obtain jb' where "aget (job_list st) k = Inr (Some jb')"
      "\<And>i. i < nat (worker_count jb') \<Longrightarrow> \<exists>rk g. aget (rank_list jb') (int i) = Inr rk \<and> aget (rank_ignore_list st) rk = Inr g"
    using assms(1-3) by (rule tables_worker) blast
  then show ?thesis using that assms(4,5) by (metis Inr_inject option.inject)
qed

lemma call_on_total:
  assumes "tables_ok N J st" and "sane_failure N tln (afailure a)" and "ignore_process_failure st \<noteq> 0"
  obtains st' where "call_on tln sp comm a st = Inr st'" "tables_ok N J st'" "job_list st' = job_list st"
    "ignore_process_failure st' \<noteq> 0"
proof (cases "astatus a = MPI_SUCCESS")
  case True
  then show ?thesis using that [of st] assms by (simp add: call_on_def)
next
  case False
  obtain st' where s: "rep_errhandler tln sp (afailure a) (comm (node st)) st = Inr st'" "job_list st' = job_list st"
      "ignore_process_failure st' = ignore_process_failure st"
    using handler_ignoring_total [OF assms] by blast
  moreover have "tables_ok N J st'" by (rule handler_keeps_tables [OF assms(1,2) s(1)])
  ultimately show ?thesis using that [of st'] False assms(3) by (simp add: call_on_def)
qed

lemma send_loop_total:
  "tables_ok N J st \<Longrightarrow> answers_ok (sane_failure N tln) tr \<Longrightarrow> ignore_process_failure st \<noteq> 0 \<Longrightarrow> 0 \<le> dest \<Longrightarrow> dest < int J \<Longrightarrow>
   aget (job_list st) dest = Inr (Some jb) \<Longrightarrow> i + n \<le> nat (worker_count jb) \<Longrightarrow> n \<le> length tr \<Longrightarrow>
   \<exists>s msgs tr' st'. send_loop tln sp dest tag dat n (int i) ms tr st = Inr (s, msgs, tr', st')"
proof (induction n arbitrary: i ms tr st)
  case (Suc n)
  obtain rk g where rk: "aget (rank_list jb) (int i) = Inr rk" "aget (rank_ignore_list st) rk = Inr g"
    by (rule tables_rank [OF Suc.prems(1,4-6), of i]) (use Suc.prems(7) in simp)
  obtain a tr1 where tr: "tr = a # tr1" using Suc.prems(8) by (cases tr) auto
  show ?case
  proof (cases "g = 1")
    case True
    have "\<exists>s msgs tr' st'. send_loop tln sp dest tag dat n (int (Suc i)) ms tr st = Inr (s, msgs, tr', st')"
      by (rule Suc.IH [OF Suc.prems(1-6)]) (use Suc.prems(7,8) in simp_all)
    then show ?thesis using True rk Suc.prems(6) by (simp add: some_or_Some add.commute del: aget_of_nat)
  next
    case False
    have "sane_failure N tln (afailure a)" using Suc.prems(2) tr by simp
    then obtain st1 where s: "call_on tln sp rep_mpi_comm_world a st = Inr st1" "tables_ok N J st1" "job_list st1 = job_list st"
        "ignore_process_failure st1 \<noteq> 0"
      by (rule call_on_total [OF Suc.prems(1) _ Suc.prems(3)])
    have "\<exists>s msgs tr' st'. send_loop tln sp dest tag dat n (int (Suc i)) (Some (astatus a)) tr1 st1 = Inr (s, msgs, tr', st')"
      by (rule Suc.IH [OF s(2) _ s(4) Suc.prems(4,5)]) (use Suc.prems(2,6-8) tr s(3) in simp_all)
    then show ?thesis using False rk s(1) Suc.prems(6) tr by (auto simp: some_or_Some add.commute simp del: aget_of_nat)
  qed
qed simp

lemma recv_loop_total:
  "tables_ok N J st \<Longrightarrow> answers_ok (sane_failure N tln) tr \<Longrightarrow> ignore_process_failure st \<noteq> 0 \<Longrightarrow> 0 \<le> source \<Longrightarrow> source < int J \<Longrightarrow>
   aget (job_list st) source = Inr (Some jb) \<Longrightarrow> i + n \<le> nat (worker_count jb) \<Longrightarrow> n \<le> length tr \<Longrightarrow>
   \<exists>s posts tr' st'. recv_loop tln sp source tag buf sz n (int i) ms tr st = Inr (s, posts, tr', st')"
proof (induction n arbitrary: i ms tr st)
  case (Suc n)
  obtain rk g where rk: "aget (rank_list jb) (int i) = Inr rk" "aget (rank_ignore_list st) rk = Inr g"
    by (rule tables_rank [OF Suc.prems(1,4-6), of i]) (use Suc.prems(7) in simp)
  obtain a tr1 where tr: "tr = a # tr1" using Suc.prems(8) by (cases tr) auto
  show ?case
  proof (cases "g = 1")
    case True
    have "\<exists>s posts tr' st'. recv_loop tln sp source tag buf sz n (int (Suc i)) ms tr st = Inr (s, posts, tr', st')"
      by (rule Suc.IH [OF Suc.prems(1-6)]) (use Suc.prems(7,8) in simp_all)
    then show ?thesis using True rk Suc.prems(6) by (simp add: some_or_Some add.commute del: aget_of_nat)
  next
    case False
    have "sane_failure N tln (afailure a)" using Suc.prems(2) tr by simp
    then obtain st1 where s: "call_on tln sp rep_mpi_comm_world a st = Inr st1" "tables_ok N J st1" "job_list st1 = job_list st"
        "ignore_process_failure st1 \<noteq> 0"
      by (rule call_on_total [OF Suc.prems(1) _ Suc.prems(3)])
    let ?p = "SET_RIGHT_R_BUFFER st buf"
    let ?m = "write_bytes (mem st1) ?p (put sz a (read_bytes (mem st1) ?p sz))"
    have "\<exists>s posts tr' st'. recv_loop tln sp source tag buf sz n (int (Suc i)) (Some (astatus a)) tr1 (st1\<lparr>mem := ?m\<rparr>) =
        Inr (s, posts, tr', st')"
      by (rule Suc.IH [OF tabs.frame(4) [OF s(2)] _ _ Suc.prems(4,5)]) (use Suc.prems(2,6-8) tr s(3,4) in simp_all)
    then show ?thesis
      using False rk s(1) Suc.prems(6) tr by (auto simp: some_or_Some add.commute Let_def simp del: aget_of_nat)
  qed
qed simp

lemma Send_total:
  assumes "tables_ok N J st" and "answers_ok (sane_failure N tln) tr" and "N \<le> length tr" and "0 \<le> dest" and "dest < int J"
  shows "\<exists>s msgs tr' st'. MPI_Send tln sp buf n dest tag True tr st = Inr (s, msgs, tr', st')"
proof -
  let ?st = "st\<lparr>ignore_process_failure := 1\<rparr>"
  have ok: "tables_ok N J ?st" by (rule tabs.frame(1) [OF assms(1)])
  obtain jb where jb: "aget (job_list ?st) dest = Inr (Some jb)" "nat (worker_count jb) \<le> N"
    using assms(4,5) by (rule tables_worker [OF ok])
  let ?dat = "read_bytes (mem ?st) (SET_RIGHT_S_BUFFER ?st buf) n"
  have "\<exists>s msgs tr' st'. send_loop tln sp dest tag ?dat (nat (worker_count jb)) (int 0) None tr ?st = Inr (s, msgs, tr', st')"
    by (rule send_loop_total [OF ok assms(2) _ assms(4,5) jb(1)]) (use jb(2) assms(3) in simp_all)
  then show ?thesis using jb(1) by (auto simp: MPI_Send_def Let_def guardE_True some_or_Some)
qed

lemma Recv_total:
  assumes "tables_ok N J st" and "answers_ok (sane_failure N tln) tr" and "N \<le> length tr" and "0 \<le> source" and "source < int J"
  shows "\<exists>s posts tr' st'. MPI_Recv tln sp buf sz source tag True tr st = Inr (s, posts, tr', st')"
proof -
  let ?st = "st\<lparr>ignore_process_failure := 1\<rparr>"
  have ok: "tables_ok N J ?st" by (rule tabs.frame(1) [OF assms(1)])
  obtain jb where jb: "aget (job_list ?st) source = Inr (Some jb)" "nat (worker_count jb) \<le> N"
    using assms(4,5) by (rule tables_worker [OF ok])
  have "\<exists>s posts tr' st'. recv_loop tln sp source tag buf sz (nat (worker_count jb)) (int 0) None tr ?st = Inr (s, posts, tr', st')"
    by (rule recv_loop_total [OF ok assms(2) _ assms(4,5) jb(1)]) (use jb(2) assms(3) in simp_all)
  then show ?thesis using jb(1) by (auto simp: MPI_Recv_def Let_def guardE_True some_or_Some)
qed

section \<open>A start, and what it shows\<close>

lemma MPI_Init_returns:
  assumes "map_for N J jm" and "assigned r jm" and "blank st" and "map_text e = Some (WriteToFile jm)" and "length host < HOSTNAME_LEN"
    and "\<And>j. files (CKPT_FILE_NAME j) = None"
  obtains bh files' nd t jl ign al where "MPI_Init pl e dup r N host pid junk files st = Inr (bh, files', [],
     st\<lparr>node := nd, rank_2_job := t, job_list := jl, rank_ignore_list := ign, last_file_update := map_mtime e,
       replication_idx := 0, allocs := al\<rparr>)" "rank nd = r"
proof -
  let ?st = "st\<lparr>node := (node st)\<lparr>rep_mpi_comm_world := dup\<rparr>\<rparr>"
  obtain k where k: "k < length jm" "r \<in> set (ranks (jm ! k))" "Modified (jm ! k) = 1" using assms(2) by (auto simp: assigned_def)
  then obtain i where i: "i < length (ranks (jm ! k))" "ranks (jm ! k) ! i = r" by (auto simp: in_set_conv_nth)
  have b: "valid_map jm" "ckpt_restore ?st = RESTORE_NO" "jobs_count (node ?st) = 0" "rank_2_job ?st = None"
    using assms(1,3) by (simp_all add: map_for_def blank_def)
  obtain nd t jl ign where n: "init_node (comm_split pl) r N (Some (WriteToFile jm)) ?st =
       Inr (?st\<lparr>node := nd, rank_2_job := t, job_list := jl, rank_ignore_list := ign\<rparr>)" "rank nd = r"
    by (rule init_node_loads [OF b(1) k(1) i k(3) b(2-4)])
  let ?st4 = "st\<lparr>node := nd, rank_2_job := t, job_list := jl, rank_ignore_list := ign, last_file_update := map_mtime e\<rparr>"
  let ?st5 = "?st4\<lparr>replication_idx := 0\<rparr>"
  obtain files1 where f1: "network_stat_init ''./network.stat'' host pid junk files ?st4 = Inr files1"
    using assms(5) by (auto simp: network_stat_init_def guardE_True Let_def)
  obtain bl st6 where m: "c_malloc (malloc_at pl) 10000000 ?st5 = (bl, st6)" by fastforce
  then obtain al where "st6 = ?st5\<lparr>allocs := al\<rparr>" using c_malloc_frame by blast
  moreover have "MPI_Init pl e dup r N host pid junk files st =
      Inr (bl, save_rep_and_stack_info (replication_idx ?st5) files1 ?st5, [], st6)"
    using n(1) f1 m assms(4,6) by (simp add: MPI_Init_def set_last_file_update_def does_ckpt_file_exists_def Let_def)
  ultimately show ?thesis using that n(2) by simp
qed

text \<open>Process 1 of the README's world.\<close>

lemma readme_sane: "sane_failure 3 group_translate readme_failure" "map_for 3 2 readme_map"
proof -
  show "sane_failure 3 group_translate readme_failure"
    by (rule group_translate_sane) (simp_all add: readme_failure_def)
  show "map_for 3 2 readme_map"
    using readme_map_loads(1) by (simp add: map_for_def) (simp add: all_ranks_def ranks_def readme_map_def)
qed

lemma demo_session:
  obtains st :: ulfm where "session demo_platform 3 2 st" "ckpt_restore st = RESTORE_NO" "ignore_process_failure st = 0" "rank (node st) = 1"
proof -
  let ?st = "demo_member empty_heap 1 0"
  have a: "assigned 1 readme_map" by (simp add: assigned_def readme_map_def ranks_def exI [of _ 1])
  have b: "blank ?st" by (simp add: blank_def demo_member_defs)
  have e: "map_text (demo_poll 0) = Some (WriteToFile readme_map)" by (simp add: demo_poll_def)
  have sp: "sane_poll 3 2 demo_platform (demo_poll 0)"
    using readme_sane by (auto simp: sane_poll_def demo_poll_def demo_platform_def)
  obtain bh files' nd t jl ign al where i: "MPI_Init demo_platform (demo_poll 0) (Comm_Handle 0) 1 3 [104, 49] 77 (replicate 100 0)
      (\<lambda>_. None) ?st = Inr (bh, files', [], ?st\<lparr>node := nd, rank_2_job := t, job_list := jl, rank_ignore_list := ign,
       last_file_update := map_mtime (demo_poll 0), replication_idx := 0, allocs := al\<rparr>)" "rank nd = 1"
    by (rule MPI_Init_returns [OF readme_sane(2) a b e, of "[104, 49]" "\<lambda>_. None"]) (simp_all add: HOSTNAME_LEN_def)
  show ?thesis
    by (rule that [OF session.start [OF sp e readme_sane(2) a b i(1)]]) (use i(2) in \<open>simp_all add: demo_member_defs\<close>)
qed

section \<open>Properties of runs\<close>

text \<open>
  C5: the tables keep their type in every run. Whatever calls an application makes after
  \<open>MPI_Init\<close>, in any order, with any process failures, updates of the map and restarts inside
  them, in every state between calls the job list has an entry with at least one worker for
  each of the \<open>J\<close> jobs, the workers of all jobs are different ranks, \<open>rank_2_job\<close> and
  \<open>rank_ignore_list\<close> have entries for all of them, and \<open>MPI_Comm_rank\<close> is a job number below
  \<open>MPI_Comm_size\<close>, which is the number of jobs.
\<close>

theorem session_keeps_type:
  assumes "session pl N J st"
  shows "tables_ok N J st \<and> 0 \<le> MPI_Comm_rank st \<and> MPI_Comm_rank st < MPI_Comm_size st \<and> MPI_Comm_size st = int J"
  using session_tables [OF assms] by (auto simp: MPI_Comm_rank_def MPI_Comm_size_def tables_ok_def)

theorem session_keeps_type_witness:
  "\<exists>st. session demo_platform 3 2 (st :: ulfm) \<and> tables_ok 3 2 st \<and> MPI_Comm_rank st < MPI_Comm_size st \<and> MPI_Comm_size st = 2"
proof -
  obtain st :: ulfm where "session demo_platform 3 2 st" by (rule demo_session)
  then show ?thesis using session_keeps_type by fastforce
qed

text \<open>
  C20: point-to-point calls survive failures. In every state of a run, \<open>MPI_Send\<close> and \<open>MPI_Recv\<close>
  with a partner below the number of jobs return, whatever dies while they run: no lookup in
  the job list, in the rank list of a job, in the ignore list or in \<open>rank_2_job\<close> leaves its
  table or finds an unset entry, and the error handler does not abort. At most \<open>N\<close> library
  calls are made.
\<close>

theorem session_ptp_returns:
  assumes "session pl N J st" and "sane_answers N pl tr" and "N \<le> length tr" and "0 \<le> partner" and "partner < MPI_Comm_size st"
  shows "(\<exists>s msgs tr' st'. MPI_Send (translate_ranks pl) (comm_split pl) buf n partner tag True tr st = Inr (s, msgs, tr', st')) \<and>
    (\<exists>s posts tr' st'. MPI_Recv (translate_ranks pl) (comm_split pl) buf n partner tag True tr st = Inr (s, posts, tr', st'))"
proof -
  have ok: "tables_ok N J st" by (rule session_tables [OF assms(1)])
  then have "partner < int J" using assms(5) by (auto simp: MPI_Comm_size_def tables_ok_def)
  then show ?thesis using Send_total [OF ok assms(2,3,4)] Recv_total [OF ok assms(2,3,4)] by blast
qed

text \<open>All three calls report that process 2 has died.\<close>

theorem session_ptp_returns_witness:
  "\<exists>st s msgs tr' st'. session demo_platform 3 2 (st :: ulfm) \<and>
     MPI_Send group_translate (\<lambda>k _ _. Comm_Handle k) 64 8 1 5 True
       (replicate 3 \<lparr>astatus = 54, afailure = readme_failure, aflag = 0, adata = None\<rparr>) st = Inr (s, msgs, tr', st')"
proof -
  obtain st :: ulfm where s: "session demo_platform 3 2 st" by (rule demo_session)
  then have "MPI_Comm_size st = 2" using session_tables [OF s] by (auto simp: MPI_Comm_size_def tables_ok_def)
  moreover have "sane_answers 3 demo_platform (replicate 3 \<lparr>astatus = 54, afailure = readme_failure, aflag = 0, adata = None\<rparr>)"
    using readme_sane(1) by (simp add: demo_platform_def numeral_3_eq_3)
  ultimately show ?thesis
    using session_ptp_returns [OF s, of "replicate 3 \<lparr>astatus = 54, afailure = readme_failure, aflag = 0, adata = None\<rparr>" 1 64 8 5] s
    by (simp add: demo_platform_def) blast
qed

text \<open>
  C13: a map update after a failure makes the next failure fatal. The manager does not learn of
  failures, so every map it writes names all \<open>N\<close> processes by their original ranks. A process
  that has loaded such a map when its world has already shrunk does not return from the error
  handler the next time a process dies: \<open>update_job_list\<close> asserts that every worker of the
  job list has a rank in the world that has shrunk.
\<close>

theorem map_after_failure_is_fatal:
  assumes "session pl N J st" and "ckpt_restore st = RESTORE_NO" and "map_for N J jm" and "map_text e = Some (WriteToFile jm)"
    and "load_update pl e files st = Inr (files', st')" and "ignore_process_failure st' = 0" and "length (world_group f) < N"
  shows "rep_errhandler (translate_ranks pl) (comm_split pl) f (rep_mpi_comm_world (node st')) st' \<noteq> Inr st''"
proof -
  have ok: "tables_ok N J st" by (rule session_tables [OF assms(1)])
  obtain st1 where p: "parse_map_file (Some (WriteToFile jm)) st = Inr st1"
      and st': "job_list st' = job_list st1" "jobs_count (node st') = jobs_count (node st1)"
    using assms(5) unfolding assms(4) [symmetric] by (rule load_update_parses)
  have v: "valid_map jm" "length (all_ranks jm) = N" "length jm = J" using assms(3) by (simp_all add: map_for_def)
  have t1: "tables_ok N J st1"
    using parse_gives_tables [OF assms(3,2) tables_ok_old_map [OF ok] _ p] ok by (auto simp: tables_ok_def)
  obtain k i where ki: "k < length jm" "i < length (ranks (jm ! k))" "nat (ranks (jm ! k) ! i) = N - 1"
    using position [OF v(1), of "N - 1"] v(2) assms(7) by (metis diff_less less_zeroE not_gr_zero zero_less_one)
  let ?w = "ranks (jm ! k) ! i"
  have w: "?w \<in> set (ranks (jm ! k))" "0 \<le> ?w" using ki map_for_ranks [OF assms(3)] v(3) by simp_all
  have "map_loaded jm st st1"
    using parse_map_loads [OF v(1) assms(2)] tables_ok_old_map(1) [OF ok] v(2) p by auto
  then have "job_list st1 ! k = Some (entry_of k (jm ! k))" using ki(1) by (simp add: map_loaded_def nth_enumerate_eq)
  moreover have "k < nat (jobs_count (node st'))" using t1 st'(2) ki(1) v(3) by (auto simp: tables_ok_def)
  moreover have "int (length (world_group f)) \<le> ?w" using ki(3) w(2) assms(7) by linarith
  ultimately show ?thesis
    using foreign_worker_stops_handler [OF refl assms(6)] st'(1) w(1) by (simp add: workers_entry)
qed

theorem map_after_failure_is_fatal_witness:
  "\<exists>st files' st'. session demo_platform 3 2 (st :: ulfm) \<and> load_update demo_platform (demo_poll 0) (\<lambda>_. None) st = Inr (files', st') \<and>
     (\<forall>st''. rep_errhandler group_translate (\<lambda>k _ _. Comm_Handle k) (readme_failure\<lparr>world_group := [0, 1], acked := [0]\<rparr>)
       (rep_mpi_comm_world (node st')) st' \<noteq> Inr st'')"
proof -
  obtain st :: ulfm where s: "session demo_platform 3 2 st" "ckpt_restore st = RESTORE_NO" "ignore_process_failure st = 0" "rank (node st) = 1"
    by (rule demo_session)
  have e: "map_text (demo_poll 0) = Some (WriteToFile readme_map)" by (simp add: demo_poll_def)
  have n: "newcomer 1 readme_map 1 st" using s(4) by (simp add: newcomer_def readme_map_def ranks_def)
  have v: "valid_map readme_map" "old_map_ok (length (all_ranks readme_map)) st"
    using readme_sane(2) tables_ok_old_map(1) [OF session_tables [OF s(1)]] by (simp_all add: map_for_def)
  obtain nd t jl jc f files' where l: "load_update demo_platform (demo_poll 0) (\<lambda>_. None) st = Inr (files', updated nd t jl jc f st)"
    by (rule load_update_written [OF v(1) s(2) v(2) e n])
  let ?st = "updated nd t jl jc f st"
  have i: "ignore_process_failure ?st = 0" using s(3) by (simp add: updated_def)
  have "rep_errhandler (translate_ranks demo_platform) (comm_split demo_platform) (readme_failure\<lparr>world_group := [0, 1], acked := [0]\<rparr>)
      (rep_mpi_comm_world (node ?st)) ?st \<noteq> Inr st''" for st''
    by (rule map_after_failure_is_fatal [OF s(1,2) readme_sane(2) e l i]) simp
  then show ?thesis using s(1) l by (auto simp: demo_platform_def)
qed

end
