(* ===== verification/Recovery.thy ===== *)
theory Recovery
  imports Tables
begin

text \<open>
  A failure seen from the whole world: every survivor runs the error handler on its own tables.
  The theory shows that a world in which all processes agree on the workers of the jobs is one
  again after the failure, and that the communicators split from it have the right members.
\<close>

section \<open>Worlds in agreement\<close>

text \<open>The workers of all jobs are the ranks 0 to n - 1, each of them once.\<close>

definition covers :: "int list list \<Rightarrow> nat \<Rightarrow> bool" where
  "covers ws n \<longleftrightarrow> distinct (concat ws) \<and> set (concat ws) = int ` {..<n} \<and> [] \<notin> set ws \<and> n < 2147483648"

text \<open>
  Process \<open>r\<close> of such a world: its job list has these workers, its tables are large enough, it
  knows its rank and its job, and it is checkpoint master if it is the first worker of the job.
\<close>

definition in_world :: "int list list \<Rightarrow> nat \<Rightarrow> nat \<Rightarrow> 'a ulfm_scheme \<Rightarrow> bool" where
  "in_world ws n r st \<longleftrightarrow> (\<exists>js. job_list st = map Some js \<and> map workers js = ws \<and> list_all job_ok js) \<and> tables n st \<and>
     jobs_count (node st) = int (length ws) \<and> rank (node st) = int r \<and> ignore_process_failure st = 0 \<and>
     (\<exists>k < length ws. int r \<in> set (ws ! k) \<and> job_id (node st) = int k \<and>
        node_checkpoint_master (node st) = (if hd (ws ! k) = int r then YES else NO))"

definition world_ok :: "int list list \<Rightarrow> 'a ulfm_scheme list \<Rightarrow> bool" where
  "world_ok ws sts \<longleftrightarrow> covers ws (length sts) \<and> (\<forall>r < length sts. in_world ws (length sts) r (sts ! r))"

text \<open>A translation of the ranks of a world of \<open>n\<close> processes onto the ranks of one of \<open>m\<close>.\<close>

definition renames :: "int list \<Rightarrow> nat \<Rightarrow> nat \<Rightarrow> bool" where
  "renames tr n m \<longleftrightarrow> length tr = n \<and> m \<le> n \<and>
     (\<forall>r < n. tr ! r = MPI_UNDEFINED \<or> 0 \<le> tr ! r \<and> nat (tr ! r) < m) \<and>
     (\<forall>a < n. \<forall>b < n. tr ! a = tr ! b \<and> tr ! a \<noteq> MPI_UNDEFINED \<longrightarrow> a = b) \<and> (\<forall>t < m. \<exists>r < n. tr ! r = int t)"

lemma renamesD:
  assumes "renames tr n m"
  shows "length tr = n" "m \<le> n" "r < n \<Longrightarrow> tr ! r \<noteq> MPI_UNDEFINED \<Longrightarrow> 0 \<le> tr ! r \<and> nat (tr ! r) < m"
    "\<forall>a < length tr. \<forall>b < length tr. tr ! a = tr ! b \<and> tr ! a \<noteq> MPI_UNDEFINED \<longrightarrow> a = b"
    "t < m \<Longrightarrow> \<exists>r < n. tr ! r = int t"
  using assms unfolding renames_def by blast+

lemma group_translate_renames:
  assumes "distinct (world_group f)" and "distinct (shrunk_group f)" and "set (shrunk_group f) \<subseteq> set (world_group f)"
  shows "renames (world_translation group_translate f) (length (world_group f)) (length (shrunk_group f))"
proof -
  let ?g = "world_group f" and ?h = "shrunk_group f" and ?tr = "world_translation group_translate f"
  have l: "length ?tr = length ?g" by (simp add: world_translation_def group_translate_def)
  have nth: "?tr ! a = index_from 0 ?h (?g ! a)" if "a < length ?g" for a
    using that by (simp add: world_translation_def group_translate_def)
  have le: "length ?h \<le> length ?g"
    using card_mono [OF _ assms(3)] distinct_card [OF assms(1)] distinct_card [OF assms(2)] by simp
  have rng: "?tr ! a = MPI_UNDEFINED \<or> 0 \<le> ?tr ! a \<and> nat (?tr ! a) < length ?h" if "a < length ?g" for a
    using index_from_range(2,3) [of ?h "?g ! a"] nth [OF that] by auto
  have inj: "a = b" if "a < length ?g" "b < length ?g" "?tr ! a = ?tr ! b" "?tr ! a \<noteq> MPI_UNDEFINED" for a b
  proof -
    have "?g ! a = ?g ! b" using index_from_range(4) nth that by metis
    then show ?thesis using nth_eq_iff_index_eq [OF assms(1)] that by simp
  qed
  have sur: "\<exists>r < length ?g. ?tr ! r = int t" if t: "t < length ?h" for t
  proof -
    obtain r where r: "r < length ?g" "?g ! r = ?h ! t" using assms(3) t by (metis in_set_conv_nth nth_mem subsetD)
    have "?tr ! r \<noteq> MPI_UNDEFINED" using nth [OF r(1)] r(2) t by (simp add: index_from_spec MPI_UNDEFINED_def)
    then have "?h ! nat (?tr ! r) = ?h ! t" "nat (?tr ! r) < length ?h" "0 \<le> ?tr ! r"
      using index_from_range(2-4) [of ?h "?g ! r"] nth [OF r(1)] r(2) by auto
    then have "nat (?tr ! r) = t" using nth_eq_iff_index_eq [OF assms(2)] t by blast
    then show ?thesis using r(1) \<open>0 \<le> ?tr ! r\<close> by auto
  qed
  show ?thesis unfolding renames_def using l le rng inj sur by blast
qed

lemma covers_nth:
  assumes "covers ws n" and "k < length ws" and "w \<in> set (ws ! k)"
  shows "w \<in> set (concat ws)" "0 \<le> w" "nat w < n"
proof -
  show w: "w \<in> set (concat ws)" using assms(2,3) by auto
  have "set (concat ws) = int ` {..<n}" using assms(1) by (simp only: covers_def)
  with w have "w \<in> int ` {..<n}" by (simp only:)
  then show "0 \<le> w" "nat w < n" by auto
qed

lemma covers_unique:
  assumes "covers ws n" and "k < length ws" and "l < length ws" and "w \<in> set (ws ! k)" and "w \<in> set (ws ! l)"
  shows "k = l"
proof (rule ccontr)
  assume "k \<noteq> l"
  have "distinct (removeAll [] ws)" "removeAll [] ws = ws"
    using assms(1) by (auto simp: covers_def distinct_concat_iff)
  then have "ws ! k \<noteq> ws ! l" using \<open>k \<noteq> l\<close> assms(2,3) by (simp add: nth_eq_iff_index_eq)
  moreover have "ws ! k \<in> set ws" "ws ! l \<in> set ws" using assms(2,3) by simp_all
  moreover have "distinct (concat ws)" using assms(1) by (simp only: covers_def)
  ultimately have "set (ws ! k) \<inter> set (ws ! l) = {}" unfolding distinct_concat_iff by blast
  then show False using assms(4,5) by blast
qed

lemma covers_job: "covers ws n \<Longrightarrow> r < n \<Longrightarrow> \<exists>k < length ws. int r \<in> set (ws ! k)"
  by (auto simp: covers_def in_set_conv_nth [of _ ws] dest!: equalityD2) (metis UN_E image_eqI in_set_conv_nth lessThan_iff subsetD)

lemma covers_survivors:
  assumes c: "covers ws n" and r: "renames tr n m" and live: "\<forall>w \<in> set ws. survivors tr w \<noteq> []"
  shows "covers (map (survivors tr) ws) m"
proof -
  note tr = renamesD [OF r]
  have eq: "concat (map (survivors tr) ws) = survivors tr (concat ws)"
    by (induction ws) (simp_all add: survivors_def)
  have in_ws: "\<forall>w \<in> set (concat ws). 0 \<le> w \<and> nat w < length tr" using c tr(1) by (auto simp: covers_def)
  have "distinct (survivors tr (concat ws))"
    using c by (intro distinct_survivors [OF _ in_ws tr(4)]) (simp add: covers_def)
  moreover have "set (survivors tr (concat ws)) = int ` {..<m}"
  proof (intro set_eqI iffI)
    fix t
    assume "t \<in> set (survivors tr (concat ws))"
    then obtain w where "w \<in> set (concat ws)" "tr ! nat w \<noteq> MPI_UNDEFINED" "t = tr ! nat w" by (auto simp: survivors_def)
    then show "t \<in> int ` {..<m}" using tr(1,3) in_ws by (metis image_eqI lessThan_iff nat_0_le)
  next
    fix t
    assume "t \<in> int ` {..<m}"
    then obtain q where q: "t = int q" "q < m" by auto
    then obtain p where "p < n" "tr ! p = t" using tr(5) by blast
    moreover have "int p \<in> set (concat ws)" using c \<open>p < n\<close> by (auto simp: covers_def)
    moreover have "t \<noteq> MPI_UNDEFINED" using q by (simp add: MPI_UNDEFINED_def)
    ultimately show "t \<in> set (survivors tr (concat ws))" by (force simp: survivors_def)
  qed
  moreover have "[] \<notin> set (map (survivors tr) ws)" using live by auto
  ultimately show ?thesis using c tr(2) by (simp add: covers_def eq)
qed

section \<open>One survivor\<close>

lemma compact_frame:
  "compact_workers n j p i sz tr st = Inr st' \<Longrightarrow> ignore_process_failure st' = ignore_process_failure st"
  by (induction n arbitrary: j p st) (auto simp: bindE_eq_Inr_iff split: if_splits)

lemma update_jobs_frame:
  "update_jobs n i sz tr st = Inr st' \<Longrightarrow> ignore_process_failure st' = ignore_process_failure st"
  by (induction n arbitrary: i st) (auto simp: bindE_eq_Inr_iff dest!: compact_frame)

lemma update_job_list_frame:
  assumes "update_job_list sz tr st = Inr st'"
  shows "ignore_process_failure st' = ignore_process_failure st"
proof -
  obtain st2 where "update_jobs (nat (jobs_count (node st))) 0 sz tr (st\<lparr>node := (node st)\<lparr>node_checkpoint_master := NO\<rparr>\<rparr>) = Inr st2"
      "ignore_process_failure st' = ignore_process_failure st2"
    using assms by (auto simp: update_job_list_def bindE_eq_Inr_iff Let_def)
  then show ?thesis using update_jobs_frame by fastforce
qed

lemma handler_frame:
  assumes "shrinks tln f c st" and "rep_errhandler tln sp f c st = Inr st'"
  shows "ignore_process_failure st' = ignore_process_failure st"
proof -
  let ?st = "st\<lparr>last_group_failed := acked f, previous_world_group := world_group f\<rparr>"
  obtain st2 where "update_job_list (int (length (world_group f))) (world_translation tln f) ?st = Inr st2"
      "ignore_process_failure st' = ignore_process_failure st2"
    using assms by (auto simp: shrinks_def rep_errhandler_def update_comms_def bindE_eq_Inr_iff Let_def world_translation_def)
  then show ?thesis using update_job_list_frame by fastforce
qed

text \<open>No process of a world of \<open>n\<close> is on the ignore list.\<close>

definition hears :: "nat \<Rightarrow> 'a globals_scheme \<Rightarrow> bool" where
  "hears n st \<longleftrightarrow> (\<forall>w < n. rank_ignore_list st ! w \<noteq> 1)"

text \<open>What all survivors see of a failure, and that it leaves every job a worker.\<close>

definition survivable :: "translation \<Rightarrow> failure \<Rightarrow> int list list \<Rightarrow> nat \<Rightarrow> nat \<Rightarrow> bool" where
  "survivable tln f ws n m \<longleftrightarrow> error_class_proc_failed f \<and> length (world_group f) = n \<and> renames (world_translation tln f) n m \<and>
     (\<forall>w \<in> set ws. survivors (world_translation tln f) w \<noteq> [])"

lemma survivor_recovers:
  assumes c: "covers ws n" and r: "r < n" and st: "in_world ws n r st" and f: "survivable tln f ws n m"
    and alive: "world_translation tln f ! r \<noteq> MPI_UNDEFINED"
  shows "\<exists>st'. rep_errhandler tln sp f (rep_mpi_comm_world (node st)) st = Inr st' \<and>
     in_world (map (survivors (world_translation tln f)) ws) m (nat (world_translation tln f ! r)) st' \<and>
     rep_mpi_comm_world (node st') = shrunk_dup f \<and> hears m st'"
proof -
  let ?tr = "world_translation tln f"
  have ren: "renames ?tr n m" and live: "\<forall>w \<in> set ws. survivors ?tr w \<noteq> []" using f by (simp_all add: survivable_def)
  note tr = renamesD [OF ren]
  obtain js k where js: "job_list st = map Some js" "map workers js = ws" "list_all job_ok js"
      and k: "k < length ws" "int r \<in> set (ws ! k)" "job_id (node st) = int k"
      and n: "tables n st" "jobs_count (node st) = int (length ws)" "rank (node st) = int r" "ignore_process_failure st = 0"
    using st by (auto simp: in_world_def)
  have len: "length js = length ws" using js(2) by auto
  have wk: "workers (js ! i) = ws ! i" if "i < length ws" for i using js(2) that by auto
  have sh: "shrinks tln f (rep_mpi_comm_world (node st)) st" using f n(4) tr(1) by (simp add: shrinks_def survivable_def)
  have "list_all (renamable ?tr n) (workers (js ! i))" if i: "i < length ws" for i
    unfolding list_all_iff wk [OF i]
  proof
    fix w
    assume "w \<in> set (ws ! i)"
    then have "0 \<le> w" "nat w < n" using covers_nth [OF c i] by auto
    then show "renamable ?tr n w" using tr(1,2) tr(3) [of "nat w"] by (auto simp: renamable_def)
  qed
  then have wf: "list_all (wf_job ?tr (length ?tr)) js"
    using js(3) len tr(1) by (simp add: list_all_length wf_job_def job_ok_def)
  have sv: "map (\<lambda>jb. survivors ?tr (workers jb)) js = map (survivors ?tr) ws" unfolding js(2) [symmetric] by simp
  have cs: "covers (map (survivors ?tr) ws) m" by (rule covers_survivors [OF c ren live])
  then have b: "before_failure ?tr js st"
    using js(1) wf n(1-3) k(1,3) r len tr(1) unfolding before_failure_def sv by (simp add: covers_def)
  have lv: "list_all (\<lambda>jb. survivors ?tr (workers jb) \<noteq> []) js"
    using live wk len by (simp add: list_all_length)
  obtain st' js' where st': "rep_errhandler tln sp f (rep_mpi_comm_world (node st)) st = Inr st'" "job_list st' = map Some js'"
      "list_all2 (follows ?tr) js js'" "\<forall>n. tables n st \<longrightarrow> tables n st'" "jobs_count (node st') = jobs_count (node st)"
      "job_id (node st') = job_id (node st)" "rep_mpi_comm_world (node st') = shrunk_dup f" "indexed 0 (map workers js') st'" "rank (node st') = ?tr ! nat (rank (node st))"
      "node_checkpoint_master (node st') = (if hd (survivors ?tr (workers (js ! nat (job_id (node st))))) = ?tr ! nat (rank (node st)) then YES else NO)"
    using errhandler_shrinks [OF sh b lv, of sp] by auto
  have t: "0 \<le> ?tr ! r" using tr(3) [OF r alive] by simp
  have wk': "map workers js' = map (survivors ?tr) ws" using follows_workers [OF st'(3)] sv by simp
  have hear: "hears m st'"
    unfolding hears_def
  proof (intro allI impI)
    fix w
    assume "w < m"
    then obtain l where "l < length (map (survivors ?tr) ws)" "int w \<in> set (map (survivors ?tr) ws ! l)" using covers_job [OF cs] by blast
    then have "rank_ignore_list st' ! nat (int w) = 0" using st'(8) unfolding indexed_def wk' by blast
    then show "rank_ignore_list st' ! w \<noteq> 1" by simp
  qed
  note wk'
  moreover have "list_all job_ok js'"
  proof -
    have "job_ok (js' ! i)" if i: "i < length js'" for i
    proof (rule follows_job_ok)
      have l: "i < length js" using i st'(3) by (simp add: list_all2_lengthD)
      show "follows ?tr (js ! i) (js' ! i)" using st'(3) l by (simp add: list_all2_nthD)
      show "survivors ?tr (workers (js ! i)) \<noteq> []" using lv l by (simp add: list_all_length)
    qed
    then show ?thesis by (simp add: list_all_length)
  qed
  moreover have "tables m st'" using st'(4) n(1) tr(2) by (auto simp: tables_def)
  moreover have "?tr ! r \<in> set (survivors ?tr (ws ! k))" using k(2) alive by (force simp: survivors_def)
  ultimately show ?thesis
    unfolding in_world_def using st'(1,2,5-7,9,10) hear n(2-4) k t wk [OF k(1)] handler_frame [OF sh st'(1)]
    by (intro exI [of _ st']) (auto intro!: exI [of _ k])
qed

section \<open>The whole world\<close>

lemma world_survives:
  assumes w: "world_ok ws sts" and f: "survivable tln f ws (length sts) m"
  obtains sts' where "length sts' = m" "world_ok (map (survivors (world_translation tln f)) ws) sts'"
    "\<forall>t < m. rep_mpi_comm_world (node (sts' ! t)) = shrunk_dup f \<and> hears m (sts' ! t)"
    "\<And>r. r < length sts \<Longrightarrow> world_translation tln f ! r \<noteq> MPI_UNDEFINED \<Longrightarrow>
       rep_errhandler tln sp f (rep_mpi_comm_world (node (sts ! r))) (sts ! r) = Inr (sts' ! nat (world_translation tln f ! r))"
proof -
  let ?n = "length sts" and ?tr = "world_translation tln f"
  let ?h = "\<lambda>r. rep_errhandler tln sp f (rep_mpi_comm_world (node (sts ! r))) (sts ! r)"
  have c: "covers ws ?n" using w by (simp add: world_ok_def)
  have ren: "renames ?tr ?n m" using f by (simp add: survivable_def)
  note tr = renamesD [OF ren]
  have "\<exists>st'. \<forall>r < ?n. ?tr ! r = int t \<longrightarrow> ?h r = Inr st' \<and> in_world (map (survivors ?tr) ws) m t st' \<and>
      rep_mpi_comm_world (node st') = shrunk_dup f \<and> hears m st'" if t: "t < m" for t
  proof -
    obtain r where r: "r < ?n" "?tr ! r = int t" using tr(5) [OF t] by blast
    then have alive: "?tr ! r \<noteq> MPI_UNDEFINED" by (simp add: MPI_UNDEFINED_def)
    have "in_world ws ?n r (sts ! r)" using w r(1) by (simp add: world_ok_def)
    then obtain st' where "?h r = Inr st'" "in_world (map (survivors ?tr) ws) m t st'"
        "rep_mpi_comm_world (node st') = shrunk_dup f" "hears m st'"
      using survivor_recovers [OF c r(1) _ f alive] r(2) by fastforce
    moreover have "q = r" if "q < ?n" "?tr ! q = int t" for q using tr(1,4) that r alive by metis
    ultimately show ?thesis by blast
  qed
  then obtain g where g: "\<And>t r. t < m \<Longrightarrow> r < ?n \<Longrightarrow> ?tr ! r = int t \<Longrightarrow> ?h r = Inr (g t) \<and>
      in_world (map (survivors ?tr) ws) m t (g t) \<and> rep_mpi_comm_world (node (g t)) = shrunk_dup f \<and> hears m (g t)"
    by metis
  let ?sts = "map g [0..<m]"
  have "covers (map (survivors ?tr) ws) m"
    using f by (intro covers_survivors [OF c ren]) (simp add: survivable_def)
  moreover have gt: "in_world (map (survivors ?tr) ws) m t (g t) \<and> rep_mpi_comm_world (node (g t)) = shrunk_dup f \<and> hears m (g t)"
    if "t < m" for t
    using g [OF that] tr(5) [OF that] by blast
  ultimately have "world_ok (map (survivors ?tr) ws) ?sts" by (simp add: world_ok_def)
  moreover have "?h r = Inr (?sts ! nat (?tr ! r))" if "r < ?n" "?tr ! r \<noteq> MPI_UNDEFINED" for r
    using tr(3) [OF that] g [of "nat (?tr ! r)" r] that(1) by simp
  ultimately show ?thesis using gt by (intro that [of ?sts]) simp_all
qed

section \<open>The communicators of a world\<close>

text \<open>A world in agreement is placed as if its processes had read its workers from a map.\<close>

definition map_of_workers :: "int list list \<Rightarrow> JobMap" where
  "map_of_workers ws = map (\<lambda>w. \<lparr>JobID = 0, RankList = map (\<lambda>r. \<lparr>Rank_Rank = r, PrevJob = -1, StackAdd = 0\<rparr>) w, Modified = 1\<rparr>) ws"

lemma ranks_map_of_workers:
  "map ranks (map_of_workers ws) = ws" "length (map_of_workers ws) = length ws" "all_ranks (map_of_workers ws) = concat ws"
  "k < length ws \<Longrightarrow> ranks (map_of_workers ws ! k) = ws ! k"
proof -
  show "map ranks (map_of_workers ws) = ws" by (simp add: map_of_workers_def ranks_def o_def)
  then show "all_ranks (map_of_workers ws) = concat ws" by (simp add: all_ranks_def)
qed (simp_all add: map_of_workers_def ranks_def o_def)

lemma covers_valid:
  assumes "covers ws n"
  shows "valid_map (map_of_workers ws)" "length (concat ws) = n"
proof -
  have c: "distinct (concat ws)" "set (concat ws) = int ` {..<n}" "[] \<notin> set ws" "n < 2147483648"
    using assms unfolding covers_def by blast+
  have "length (concat ws) = card (int ` {..<n})" using distinct_card [OF c(1)] c(2) by simp
  then show l: "length (concat ws) = n" by (simp add: card_image)
  have "\<forall>w \<in> set (concat ws). 0 \<le> w \<and> w < int n" using c(2) by auto
  moreover have "list_all (\<lambda>j. RankList j \<noteq> [] \<and> (Modified j = 0 \<or> Modified j = 1)) (map_of_workers ws)"
    using c(3) by (auto simp: map_of_workers_def list_all_iff)
  ultimately show "valid_map (map_of_workers ws)"
    unfolding valid_map_def ranks_map_of_workers(3) l using c(1,4) by (simp add: list_all_iff)
qed

lemma world_is_placed:
  assumes "world_ok ws sts"
  shows "placed (map_of_workers ws) (map node sts)"
  unfolding placed_def ranks_map_of_workers(2,3)
proof (intro conjI allI impI)
  have c: "covers ws (length sts)" using assms by (simp add: world_ok_def)
  show "length (map node sts) = length (concat ws)" using covers_valid(2) [OF c] by simp
  fix k i
  assume k: "k < length ws" and "i < length (ranks (map_of_workers ws ! k))"
  then have i: "i < length (ws ! k)" by (simp add: ranks_map_of_workers(4))
  let ?w = "ws ! k ! i"
  have w: "?w \<in> set (ws ! k)" using i by simp
  note r = covers_nth(2,3) [OF c k w]
  have "in_world ws (length sts) (nat ?w) (sts ! nat ?w)" using assms r(2) by (simp add: world_ok_def)
  then obtain l where l: "l < length ws" "?w \<in> set (ws ! l)" "job_id (node (sts ! nat ?w)) = int l"
      "node_checkpoint_master (node (sts ! nat ?w)) = (if hd (ws ! l) = ?w then YES else NO)"
    using r(1) by (auto simp: in_world_def)
  have "l = k" using covers_unique [OF c l(1) k l(2) w] .
  moreover have "distinct (ws ! k)" using c k by (auto simp: covers_def distinct_concat_iff)
  then have "hd (ws ! k) = ?w \<longleftrightarrow> i = 0" using i by (cases "ws ! k") (auto simp: nth_Cons')
  ultimately show "let n = map node sts ! nat (ranks (map_of_workers ws ! k) ! i) in
      job_id n = int k \<and> node_checkpoint_master n = (if i = 0 then YES else NO)"
    using l(3,4) r(2) by (simp add: ranks_map_of_workers(4) [OF k])
qed

lemma world_groups:
  assumes "split_law members" and "world_ok ws sts"
  shows "members (map (\<lambda>st. active_request (node st)) sts) 0 = map (\<lambda>w. nat (hd w)) ws"
    and "k < length ws \<Longrightarrow> set (members (map (\<lambda>st. job_request (node st)) sts) (int k)) = nat ` set (ws ! k) \<and>
       hd (members (map (\<lambda>st. job_request (node st)) sts) (int k)) = nat (hd (ws ! k))"
proof -
  have v: "valid_map (map_of_workers ws)" using assms(2) covers_valid(1) unfolding world_ok_def by blast
  note p = world_is_placed [OF assms(2)]
  have m: "map (\<lambda>st. active_request (node st)) sts = map active_request (map node sts)"
    "map (\<lambda>st. job_request (node st)) sts = map job_request (map node sts)" by simp_all
  have "map (\<lambda>j. nat (hd (ranks j))) (map_of_workers ws) = map (\<lambda>w. nat (hd w)) (map ranks (map_of_workers ws))" by simp
  then show "members (map (\<lambda>st. active_request (node st)) sts) 0 = map (\<lambda>w. nat (hd w)) ws"
    unfolding m ranks_map_of_workers(1) using assms(1) active_members [OF v p] by (simp only: split_law_def)
  show "set (members (map (\<lambda>st. job_request (node st)) sts) (int k)) = nat ` set (ws ! k) \<and>
       hd (members (map (\<lambda>st. job_request (node st)) sts) (int k)) = nat (hd (ws ! k))" if k: "k < length ws"
    unfolding m using assms(1) job_members [OF v p] k ranks_map_of_workers(2,4) by (simp only: split_law_def) 
qed

end
