(* ===== verification/World.thy ===== *)
theory World
  imports Progress Recovery
begin

text \<open>
  The processes of a run side by side: the map brings them into agreement, and failures leave
  the survivors in agreement.
\<close>

section \<open>From the map\<close>

text \<open>Process \<open>r\<close> of \<open>N\<close>, ready to load a map.\<close>

definition ready_for :: "nat \<Rightarrow> nat \<Rightarrow> 'a ulfm_scheme \<Rightarrow> bool" where
  "ready_for N r st \<longleftrightarrow> rank (node st) = int r \<and> ckpt_restore st = RESTORE_NO \<and> old_map_ok N st \<and>
     N \<le> length (rank_ignore_list st) \<and> ignore_process_failure st = 0"

lemma covers_map:
  assumes "map_for N J jm"
  shows "covers (map ranks jm) N"
proof -
  have v: "valid_map jm" "length (all_ranks jm) = N" using assms by (simp_all add: map_for_def)
  have "set (all_ranks jm) = int ` {..<N}"
  proof (intro set_eqI iffI)
    fix w
    assume "w \<in> set (all_ranks jm)"
    then have "0 \<le> w" "nat w < N" using v by (auto simp: valid_map_def list_all_iff)
    then show "w \<in> int ` {..<N}" by (metis image_eqI lessThan_iff nat_0_le)
  next
    fix w
    assume "w \<in> int ` {..<N}"
    then obtain r where r: "w = int r" "r < N" by auto
    then obtain k i where ki: "k < length jm" "i < length (ranks (jm ! k))" "nat (ranks (jm ! k) ! i) = r"
      using position [OF v(1)] v(2) by metis
    then have "0 \<le> ranks (jm ! k) ! i" "ranks (jm ! k) ! i \<in> set (all_ranks jm)"
      using map_for_ranks [OF assms, of k] assms by (auto simp: map_for_def)
    then show "w \<in> set (all_ranks jm)" using ki(3) r(1) nat_0_le by metis
  qed
  moreover have "[] \<notin> set (map ranks jm)" using v(1) by (auto simp: valid_map_def list_all_iff ranks_def)
  ultimately show ?thesis using v unfolding covers_def by (simp add: valid_map_def all_ranks_def)
qed

lemma loaded_in_world:
  assumes m: "map_for N J jm" and md: "list_all (\<lambda>j. Modified j = 1) jm" and r: "r < N" "ready_for N r st"
    and run: "parse_map_file (Some (WriteToFile jm)) st = Inr st'"
  shows "in_world (map ranks jm) N r st'"
proof -
  have v: "valid_map jm" "length (all_ranks jm) = N" "length jm = J" using m by (simp_all add: map_for_def)
  have st: "rank (node st) = int r" "ckpt_restore st = RESTORE_NO" "old_map_ok N st" "N \<le> length (rank_ignore_list st)"
      "ignore_process_failure st = 0"
    using r(2) by (simp_all add: ready_for_def)
  obtain k i where ki: "k < length jm" "i < length (ranks (jm ! k))" "nat (ranks (jm ! k) ! i) = r"
    using position [OF v(1)] v(2) r(1) by metis
  have w: "ranks (jm ! k) ! i = int r" using map_for_ranks(2) [OF m, of k "ranks (jm ! k) ! i"] ki v(3) by auto
  have mk: "Modified (jm ! k) = 1" using md ki(1) by (simp add: list_all_length)
  have nc: "newcomer k jm i st" using ki w st(1) mk by (simp add: newcomer_def)
  then have ok: "tables_ok N J st'" by (intro parse_gives_tables [OF m st(2-4) _ run]) blast
  have ml: "map_loaded jm st st'" using parse_map_loads [OF v(1) st(2)] st(3) v(2) run by auto
  have nd: "node st' = role (int J) 1 k (int (length (RankList (jm ! k)))) i (node st)"
    using ml ki(1,2) w st(1) mk v(3) by (auto simp: map_loaded_def)
  let ?js = "map (\<lambda>(k, j). entry_of k j) (enumerate 0 jm)"
  have "job_list st' = map Some ?js" using ml by (auto simp: map_loaded_def)
  moreover have "map workers ?js = map ranks jm" by (rule nth_equalityI) (simp_all add: nth_enumerate_eq workers_entry)
  moreover have "list_all job_ok ?js" by (rule entries_ok [OF v(1)])
  moreover have "tables N st'" using ok by (auto simp: tables_ok_def)
  moreover have "ignore_process_failure st' = 0" using parse_map_frame [OF run] st(5) by auto
  moreover have "hd (map ranks jm ! k) = int r \<longleftrightarrow> i = 0"
  proof -
    have "distinct (ranks (jm ! k))" using v(1) ki(1) by (auto simp: valid_map_def all_ranks_def distinct_concat_iff)
    moreover have ne: "ranks (jm ! k) \<noteq> []" using ki(2) by auto
    have "hd (ranks (jm ! k)) = ranks (jm ! k) ! 0" "0 < length (ranks (jm ! k))" using hd_conv_nth [OF ne] ne by simp_all
    ultimately show ?thesis using ki(1,2) w nth_eq_iff_index_eq by (metis nth_map)
  qed
  moreover have "int r \<in> set (map ranks jm ! k)" using ki(1,2) w by (metis nth_map nth_mem)
  ultimately show ?thesis
    unfolding in_world_def using nd v(3) st(1) ki(1) by (auto simp: role_def intro!: exI [of _ ?js] exI [of _ k])
qed

lemma loaded_world:
  assumes m: "map_for N J jm" and "list_all (\<lambda>j. Modified j = 1) jm" and "length sts = N" and "length sts' = N"
    and "\<forall>r < N. ready_for N r (sts ! r) \<and> parse_map_file (Some (WriteToFile jm)) (sts ! r) = Inr (sts' ! r)"
  shows "world_ok (map ranks jm) sts'"
  unfolding world_ok_def assms(4) using covers_map [OF m] loaded_in_world [OF m assms(2)] assms(5) by blast

section \<open>Through failures\<close>

text \<open>
  C10: the world recovers together. All processes agree on the workers \<open>ws\<close> of the jobs, some of
  them die, and every job keeps a worker. Then the error handler returns on every survivor,
  and the survivors are a world in agreement again: each knows its new rank, its job and
  whether it is the first worker of it, all job lists have the same workers, namely the
  survivors of \<open>ws\<close> under their new ranks, all have the same shrunken communicator, and nobody
  is ignored. An MPI
  whose \<open>Comm_split\<close> follows the standard makes \<open>active_comm\<close> of the first survivors in the order
  of the jobs, and the communicator of each job of exactly its survivors with the first one as
  its root. As the result is again such a world, this holds for any number of failures.
\<close>

theorem world_recovers:
  assumes "world_ok ws sts" and "survivable tln f ws (length sts) m" and "split_law members"
  shows "\<exists>sts'. length sts' = m \<and> world_ok (map (survivors (world_translation tln f)) ws) sts' \<and>
     (\<forall>r < length sts. world_translation tln f ! r \<noteq> MPI_UNDEFINED \<longrightarrow>
        rep_errhandler tln sp f (rep_mpi_comm_world (node (sts ! r))) (sts ! r) = Inr (sts' ! nat (world_translation tln f ! r))) \<and>
     (\<forall>t < m. rep_mpi_comm_world (node (sts' ! t)) = shrunk_dup f \<and> hears m (sts' ! t)) \<and>
     members (map (\<lambda>st. active_request (node st)) sts') 0 = map (\<lambda>w. nat (hd (survivors (world_translation tln f) w))) ws \<and>
     (\<forall>k < length ws. let g = members (map (\<lambda>st. job_request (node st)) sts') (int k); s = survivors (world_translation tln f) (ws ! k)
        in set g = nat ` set s \<and> hd g = nat (hd s))"
proof -
  obtain sts' where w: "length sts' = m" "world_ok (map (survivors (world_translation tln f)) ws) sts'"
      "\<forall>t < m. rep_mpi_comm_world (node (sts' ! t)) = shrunk_dup f \<and> hears m (sts' ! t)"
      "\<And>r. r < length sts \<Longrightarrow> world_translation tln f ! r \<noteq> MPI_UNDEFINED \<Longrightarrow>
         rep_errhandler tln sp f (rep_mpi_comm_world (node (sts ! r))) (sts ! r) = Inr (sts' ! nat (world_translation tln f ! r))"
    using assms(1,2) by (rule world_survives [where sp = sp]) blast
  then show ?thesis
    using world_groups(1) [OF assms(3) w(2)] world_groups(2) [OF assms(3) w(2)]
    by (intro exI [of _ sts']) (simp add: o_def Let_def)
qed

text \<open>The README's world of three processes; process 2, the first worker of job 1, dies.\<close>

lemma readme_ready: "ready_for 3 r ((demo_member empty_heap (int r) 0)\<lparr>rank_ignore_list := [0, 0, 0]\<rparr>)"
  by (simp add: ready_for_def) (simp add: demo_member_defs old_map_ok_def)

lemma readme_loads:
  "\<exists>sts sts' :: ulfm list. length sts = 3 \<and> length sts' = 3 \<and>
     (\<forall>r < 3. ready_for 3 r (sts ! r) \<and> hears 3 (sts ! r) \<and> parse_map_file (Some (WriteToFile readme_map)) (sts ! r) = Inr (sts' ! r))"
proof -
  let ?st = "\<lambda>r. (demo_member empty_heap (int r) 0)\<lparr>rank_ignore_list := [0, 0, 0]\<rparr>"
  have "\<exists>st'. parse_map_file (Some (WriteToFile readme_map)) (?st r) = Inr st'" for r
    using parse_map_loads [of readme_map "?st r"] readme_ready [of r] readme_sane(2) by (auto simp: ready_for_def map_for_def)
  then obtain g where g: "\<And>r. parse_map_file (Some (WriteToFile readme_map)) (?st r) = Inr (g r)" by metis
  have "hears 3 (?st r)" for r by (simp add: hears_def less_Suc_eq numeral_3_eq_3)
  then show ?thesis using g readme_ready by (intro exI [of _ "map ?st [0..<3]"] exI [of _ "map g [0..<3]"]) simp
qed

lemma readme_ranks: "map ranks readme_map = [[0], [2, 1]]" "list_all (\<lambda>j. Modified j = 1) readme_map"
  by (simp_all add: readme_map_def ranks_def)

lemma readme_world_ok: "\<exists>sts :: ulfm list. length sts = 3 \<and> world_ok [[0], [2, 1]] sts"
proof -
  obtain sts sts' :: "ulfm list" where l: "length sts = 3" "length sts' = 3"
      "\<forall>r < 3. ready_for 3 r (sts ! r) \<and> hears 3 (sts ! r) \<and> parse_map_file (Some (WriteToFile readme_map)) (sts ! r) = Inr (sts' ! r)"
    using readme_loads by blast
  have "world_ok (map ranks readme_map) sts'"
    by (rule loaded_world [OF readme_sane(2) readme_ranks(2) l(1,2)]) (use l(3) in blast)
  then show ?thesis using l(2) readme_ranks(1) by auto
qed

lemma readme_survivable: "survivable group_translate readme_failure [[0], [2, 1]] 3 2"
proof -
  have "renames (world_translation group_translate readme_failure) 3 2"
    using group_translate_renames [of readme_failure] by (simp add: readme_failure_def numeral_2_eq_2 numeral_3_eq_3)
  then show ?thesis by (simp add: survivable_def readme_translation MPI_UNDEFINED_def) (simp add: readme_failure_def)
qed

theorem world_recovers_witness:
  "\<exists>sts sts' :: ulfm list. world_ok [[0], [2, 1]] sts \<and> length sts' = 2 \<and> world_ok [[0], [1]] sts' \<and>
     rep_errhandler group_translate (\<lambda>k _ _. Comm_Handle k) readme_failure (rep_mpi_comm_world (node (sts ! 1))) (sts ! 1) = Inr (sts' ! 1) \<and>
     mpi_members (map (\<lambda>st. active_request (node st)) sts') 0 = [0, 1]"
proof -
  obtain sts :: "ulfm list" where w: "length sts = 3" "world_ok [[0], [2, 1]] sts" using readme_world_ok by blast
  have s: "survivable group_translate readme_failure [[0], [2, 1]] (length sts) 2" using w(1) readme_survivable by simp
  have l: "split_law mpi_members" by (simp add: split_law_def mpi_members_def)
  have tr: "map (survivors (world_translation group_translate readme_failure)) [[0], [2, 1]] = [[0], [1]]"
    "world_translation group_translate readme_failure ! 1 = 1"
    "map (\<lambda>w. nat (hd (survivors (world_translation group_translate readme_failure) w))) [[0], [2, 1]] = [0, 1]"
    by (simp_all add: readme_translation MPI_UNDEFINED_def)
  obtain sts' where "length sts' = 2" "world_ok [[0], [1]] sts'"
      "\<forall>r < length sts. world_translation group_translate readme_failure ! r \<noteq> MPI_UNDEFINED \<longrightarrow>
         rep_errhandler group_translate (\<lambda>k _ _. Comm_Handle k) readme_failure (rep_mpi_comm_world (node (sts ! r))) (sts ! r) =
         Inr (sts' ! nat (world_translation group_translate readme_failure ! r))"
      "mpi_members (map (\<lambda>st. active_request (node st)) sts') 0 = [0, 1]"
    using world_recovers [OF w(2) s l, of "\<lambda>k _ _. Comm_Handle k"] unfolding tr by blast
  moreover from this(3) have "rep_errhandler group_translate (\<lambda>k _ _. Comm_Handle k) readme_failure
      (rep_mpi_comm_world (node (sts ! 1))) (sts ! 1) = Inr (sts' ! 1)"
    using w(1) tr(2) by (simp add: MPI_UNDEFINED_def)
  ultimately show ?thesis using w(2) by blast
qed

section \<open>Messages of a world\<close>

lemma world_job:
  assumes "in_world ws n r st" and "covers ws n" and "hears n st" and "k < length ws"
  obtains jb where "live_job st (int k) jb" "workers jb = ws ! k" "nat (worker_count jb) = length (ws ! k)"
proof -
  obtain js where js: "job_list st = map Some js" "map workers js = ws" "list_all job_ok js" "tables n st"
    using assms(1) by (auto simp: in_world_def)
  have k: "k < length js" using js(2) assms(4) by auto
  have w: "workers (js ! k) = ws ! k" using js(2) k by auto
  have ok: "0 < worker_count (js ! k)" "nat (worker_count (js ! k)) \<le> length (rank_list (js ! k))"
    using js(3) k by (simp_all add: list_all_length job_ok_def)
  have "0 \<le> x \<and> nat x < length (rank_ignore_list st) \<and> rank_ignore_list st ! nat x \<noteq> 1" if "x \<in> set (ws ! k)" for x
    using covers_nth [OF assms(2,4) that] assms(3) js(4) by (auto simp: hears_def tables_def)
  then have "live_job st (int k) (js ! k)" using js(1) k ok w by (simp add: live_job_def)
  moreover have "nat (worker_count (js ! k)) = length (ws ! k)" using ok(2) unfolding w [symmetric] by (simp add: workers_def)
  ultimately show ?thesis using that w by blast
qed

lemma products_agree:
  "mset (concat (map (\<lambda>x. map (\<lambda>y. f x y) ys) xs)) = mset (concat (map (\<lambda>y. map (\<lambda>x. f x y) xs) ys))"
proof (induction xs)
  case Nil
  show ?case by (induction ys) simp_all
next
  case (Cons a xs)
  have "mset (concat (map (\<lambda>y. map (\<lambda>x. f x y) (a # xs)) ys)) =
      mset (map (f a) ys) + mset (concat (map (\<lambda>y. map (\<lambda>x. f x y) xs) ys))"
    by (induction ys) simp_all
  then show ?case using Cons by simp
qed

text \<open>
  All workers of job \<open>a\<close> send the same bytes to job \<open>b\<close> and all workers of \<open>b\<close> receive from \<open>a\<close>, while
  nothing fails.
\<close>

lemma exchange:
  assumes "world_ok ws sts" and "\<forall>st \<in> set sts. hears (length sts) st" and "a < length ws" and "b < length ws"
    and "\<forall>p \<in> set (ws ! a). read_bytes (mem (sts ! nat p)) (SET_RIGHT_S_BUFFER (sts ! nat p) sbuf) sz = d"
    and "\<forall>q \<in> set (ws ! b). receive_buffer (sts ! nat q) rbuf sz"
    and "length as = length (ws ! b)" and "list_all (\<lambda>x. astatus x = MPI_SUCCESS) as"
    and "length bs = length (ws ! a)" and "list_all (\<lambda>x. astatus x = MPI_SUCCESS \<and> adata x = Some d) bs"
  shows "\<exists>msgs posts.
     (\<forall>p \<in> set (ws ! a). \<exists>s'. MPI_Send tln sp sbuf sz (int b) tag True as (sts ! nat p) = Inr (Some MPI_SUCCESS, msgs p, [], s')) \<and>
     (\<forall>q \<in> set (ws ! b). \<exists>r'. MPI_Recv tln sp rbuf sz (int a) tag True bs (sts ! nat q) = Inr (Some MPI_SUCCESS, posts q, [], r') \<and>
        read_bytes (mem r') (SET_RIGHT_R_BUFFER (sts ! nat q) rbuf) sz = d) \<and>
     mset (concat (map (\<lambda>p. map (\<lambda>(q, t, _). (p, q, t)) (msgs p)) (ws ! a))) =
     mset (concat (map (\<lambda>q. map (\<lambda>(p, t). (p, q, t)) (posts q)) (ws ! b)))"
proof -
  let ?n = "length sts"
  let ?msgs = "\<lambda>p. map (\<lambda>q. (q, SET_TAG p tag, d)) (ws ! b)" and ?posts = "\<lambda>q :: int. map (\<lambda>p. (p, SET_TAG p tag)) (ws ! a)"
  have c: "covers ws ?n" using assms(1) by (simp add: world_ok_def)
  have st: "in_world ws ?n (nat w) (sts ! nat w)" "hears ?n (sts ! nat w)" "rank (node (sts ! nat w)) = w"
    if "k < length ws" "w \<in> set (ws ! k)" for k w
  proof -
    have n: "nat w < ?n" "0 \<le> w" using covers_nth [OF c that] by auto
    then show i: "in_world ws ?n (nat w) (sts ! nat w)" and "hears ?n (sts ! nat w)" using assms(1,2) by (simp_all add: world_ok_def)
    show "rank (node (sts ! nat w)) = w" using i n(2) by (simp add: in_world_def)
  qed
  have "\<exists>s'. MPI_Send tln sp sbuf sz (int b) tag True as (sts ! nat p) = Inr (Some MPI_SUCCESS, ?msgs p, [], s')"
    if p: "p \<in> set (ws ! a)" for p
  proof -
    obtain jb where jb: "live_job (sts ! nat p) (int b) jb" "workers jb = ws ! b" "nat (worker_count jb) = length (ws ! b)"
      by (rule world_job [OF st(1) [OF assms(3) p] c st(2) [OF assms(3) p] assms(4)])
    show ?thesis
      using MPI_Send_live [OF jb(1), of as tln sp sbuf sz tag "[]"] assms(5,7,8) p jb(2,3) st(3) [OF assms(3) p] by simp
  qed
  moreover have "\<exists>r'. MPI_Recv tln sp rbuf sz (int a) tag True bs (sts ! nat q) = Inr (Some MPI_SUCCESS, ?posts q, [], r') \<and>
      read_bytes (mem r') (SET_RIGHT_R_BUFFER (sts ! nat q) rbuf) sz = d" if q: "q \<in> set (ws ! b)" for q
  proof -
    obtain jb where jb: "live_job (sts ! nat q) (int a) jb" "workers jb = ws ! a" "nat (worker_count jb) = length (ws ! a)"
      by (rule world_job [OF st(1) [OF assms(4) q] c st(2) [OF assms(4) q] assms(3)])
    have rb: "receive_buffer (sts ! nat q) rbuf sz" using assms(6) q by blast
    obtain p where "p \<in> set (ws ! a)" using c assms(3) by (metis covers_def list.set_intros(1) neq_Nil_conv nth_mem)
    then have len: "length d = sz" using assms(5) by auto
    have "read_bytes (write_bytes m (SET_RIGHT_R_BUFFER (sts ! nat q) rbuf) d) (SET_RIGHT_R_BUFFER (sts ! nat q) rbuf) sz = d" for m
      using len rb by (simp add: read_write_bytes receive_buffer_def)
    then show ?thesis
      using MPI_Recv_live [OF jb(1) rb len, of bs tln sp tag "[]"] assms(9,10) jb(2,3) by simp
  qed
  moreover have "mset (concat (map (\<lambda>p. map (\<lambda>q. (p, q, SET_TAG p tag)) (ws ! b)) (ws ! a))) =
      mset (concat (map (\<lambda>q. map (\<lambda>p. (p, q, SET_TAG p tag)) (ws ! a)) (ws ! b)))"
    by (rule products_agree)
  ultimately show ?thesis by (intro exI [of _ ?msgs] exI [of _ ?posts]) (simp add: o_def)
qed

end
