(* ===== verification/Injector.thy ===== *)
theory Injector
  imports Status_Files "HOL-Library.AList" "HOL-Library.Signed_Division"
begin

text \<open>
  The fault injector of \<open>src/manager/fault_injector\<close>: it draws the processes to kill from the
  replication map (\<open>selector/selector.go\<close>), looks up their machines and process ids in the
  file that \<open>network_stat_init\<close> wrote, and kills them over \<open>ssh\<close> (\<open>injector/injector.go\<close>). As for
  the manager, the random numbers are the lists of what the generators return, and a list that
  ends too early is \<open>Short_Input\<close>. A Go panic is the exit status 2 or names the cause.
\<close>

section \<open>Reading the map\<close>

text \<open>\<open>bufio.Reader.ReadString\<close> up to a newline, or the rest of the file without one.\<close>

definition ReadString :: "string \<Rightarrow> string \<times> string" where
  "ReadString s =
     (let line = takeWhile (\<lambda>ch. ch \<noteq> CHR 0x0A) s; rest = dropWhile (\<lambda>ch. ch \<noteq> CHR 0x0A) s
      in (line @ take 1 rest, drop 1 rest))"

text \<open>\<open>strings.Split\<close> at tabulators.\<close>

fun split_tabs :: "string \<Rightarrow> string list" where
  "split_tabs [] = [[]]"
| "split_tabs (ch # s) =
     (if ch = CHR 0x09 then [] # split_tabs s
      else case split_tabs s of [] \<Rightarrow> [[ch]] | w # ws \<Rightarrow> (ch # w) # ws)"

text \<open>\<open>strconv.Atoi\<close> with its error ignored: 0 for what is no number, the nearest \<open>int\<close> out of range.\<close>

definition Atoi :: "string \<Rightarrow> int" where
  "Atoi s =
     (let neg = (s \<noteq> [] \<and> hd s = CHR ''-'');
          ds = (if s \<noteq> [] \<and> (hd s = CHR ''-'' \<or> hd s = CHR ''+'') then tl s else s);
          v = (if neg then - int (digits_value ds) else int (digits_value ds))
      in if ds = [] \<or> \<not> list_all is_digit ds then 0 else max (- (2 ^ 63)) (min (2 ^ 63 - 1) v))"

record SelJob =
  CR :: "int list"

text \<open>The words from the fourth on are the ranks; \<open>CR\<close> is an array of two.\<close>

primrec read_CR :: "int \<Rightarrow> string list \<Rightarrow> int list \<Rightarrow> int list result" where
  "read_CR i [] cr = Inr cr"
| "read_CR i (w # ws) cr = bindE (aset cr i (Atoi w)) (read_CR (i + 1) ws)"

primrec read_jobs :: "nat \<Rightarrow> string \<Rightarrow> (int \<times> SelJob) list \<Rightarrow> (int \<times> SelJob) list result" where
  "read_jobs 0 s m = Inr m"
| "read_jobs (Suc n) s m =
     (let (line, s1) = ReadString s; lineSplit = split_tabs (filter (\<lambda>ch. ch \<noteq> CHR 0x0A) line)
      in bindE (aget lineSplit 1) (\<lambda>jobID.
         bindE (read_CR 0 (drop 3 lineSplit) [-1, -1]) (\<lambda>cr.
           read_jobs n s1 (AList.update (Atoi jobID) \<lparr>CR = cr\<rparr> m))))"

definition initReplicationMap :: "string option \<Rightarrow> (int \<times> SelJob) list result" where
  "initReplicationMap file =
     bindE (some_or (Exit_With 2) file) (\<lambda>s.
       let (line, s1) = ReadString s; lineSplit = split_tabs (filter (\<lambda>ch. ch \<noteq> CHR 0x0A) line)
       in bindE (aget lineSplit 1) (\<lambda>numJobs. read_jobs (nat (Atoi numJobs)) s1 []))"

section \<open>Selecting processes\<close>

record QueuedProcesses =
  Queued_Rank :: int
  WaitInterval :: "64 word"

datatype KillImage = KILL_COMPUTE | KILL_REPLICA | KILL_ANY

record SelectorOpts =
  ImageToKill :: KillImage
  KillEvenIfNotReplicated :: bool

record Selector =
  Intervals :: int
  RepMap :: "(int \<times> SelJob) list"
  RankQueued :: "int \<Rightarrow> bool"
  Opts :: "SelectorOpts option"

definition NewSelector :: "string option \<Rightarrow> int \<Rightarrow> int \<Rightarrow> SelectorOpts option \<Rightarrow> Selector result" where
  "NewSelector replicationMapFile duration interval opt =
     bindE (guardE (interval \<noteq> 0) (Exit_With 2)) (\<lambda>_.
     bindE (initReplicationMap replicationMapFile) (\<lambda>repMap.
       Inr \<lparr>Intervals = duration sdiv interval, RepMap = repMap, RankQueued = (\<lambda>_. False), Opts = opt\<rparr>))"

text \<open>\<open>randomRankIndex\<close>: 0 is the first worker of a job, 1 its replica; only \<open>KILL_ANY\<close> draws a number.\<close>

definition random_index :: "SelectorOpts option \<Rightarrow> int list \<Rightarrow> (int \<times> int list) result" where
  "random_index opts ds =
     (case opts of None \<Rightarrow> Inr (0, ds)
      | Some opt \<Rightarrow>
         (case ImageToKill opt of
            KILL_ANY \<Rightarrow> (case ds of [] \<Rightarrow> Inl Short_Input | d # ds1 \<Rightarrow> Inr (d, ds1))
          | KILL_REPLICA \<Rightarrow> Inr (1, ds)
          | KILL_COMPUTE \<Rightarrow> Inr (0, ds)))"

definition kill_even_if_not_replicated :: "SelectorOpts option \<Rightarrow> bool" where
  "kill_even_if_not_replicated opts = (case opts of None \<Rightarrow> False | Some opt \<Rightarrow> KillEvenIfNotReplicated opt)"

text \<open>The job has no other worker, or that one is to be killed already.\<close>

definition last_worker :: "SelJob \<Rightarrow> int \<Rightarrow> Selector \<Rightarrow> bool result" where
  "last_worker j randomRankIndex s =
     bindE (aget (CR j) (1 - randomRankIndex)) (\<lambda>other. Inr (other = -1 \<or> RankQueued s other))"

lemma random_index_shorter: "random_index opts ds = Inr (i, ds1) \<Longrightarrow> length ds1 \<le> length ds"
  by (auto simp: random_index_def split: option.splits KillImage.splits list.splits)

text \<open>The loop of \<open>getNew\<close>; no process is the error that the rank is queued already.\<close>

function getNew :: "int list \<Rightarrow> 64 word list \<Rightarrow> nat \<Rightarrow> Selector \<Rightarrow>
    (QueuedProcesses option \<times> int list \<times> 64 word list \<times> Selector) result" where
  "getNew ds es cnt s =
     bindE (guardE (RepMap s \<noteq> []) (Exit_With 2)) (\<lambda>_.
     case ds of [] \<Rightarrow> Inl Short_Input
     | randomJob # ds0 \<Rightarrow>
         bindE (random_index (Opts s) ds0) (\<lambda>(randomRankIndex, ds1).
         bindE (some_or Null_Deref (map_of (RepMap s) randomJob)) (\<lambda>j.
         bindE (aget (CR j) randomRankIndex) (\<lambda>randomRank.
           if randomRank < 0 then getNew ds1 es cnt s
           else bindE (if kill_even_if_not_replicated (Opts s) then Inr False else last_worker j randomRankIndex s) (\<lambda>skip.
             if skip then getNew ds1 es cnt s
             else if RankQueued s randomRank
             then (if cnt = 5 then Inr (None, ds1, es, s) else getNew ds1 es (cnt + 1) s)
             else case es of [] \<Rightarrow> Inl Short_Input
               | interval # es1 \<Rightarrow>
                   Inr (Some \<lparr>Queued_Rank = randomRank, WaitInterval = 1000000000 * interval\<rparr>, ds1, es1,
                        s\<lparr>RankQueued := (RankQueued s)(randomRank := True)\<rparr>))))))"
  by pat_completeness auto
termination
  by (relation "measure (\<lambda>(ds, es, cnt, s). length ds)") (auto dest: random_index_shorter)

declare getNew.simps [simp del]

primrec next_loop :: "nat \<Rightarrow> int list \<Rightarrow> 64 word list \<Rightarrow> Selector \<Rightarrow>
    (QueuedProcesses list \<times> int list \<times> 64 word list \<times> Selector) result" where
  "next_loop 0 ds es s = Inr ([], ds, es, s)"
| "next_loop (Suc i) ds es s =
     bindE (getNew ds es 0 s) (\<lambda>(q, ds1, es1, s1).
     bindE (next_loop i ds1 es1 s1) (\<lambda>(queuedArray, ds2, es2, s2).
       Inr (case q of None \<Rightarrow> queuedArray | Some p \<Rightarrow> p # queuedArray, ds2, es2, s2)))"

definition NextN :: "int \<Rightarrow> int list \<Rightarrow> 64 word list \<Rightarrow> Selector \<Rightarrow>
    (QueuedProcesses list \<times> int list \<times> 64 word list \<times> Selector) result" where
  "NextN n ds es s = next_loop (nat (if n = 0 then Intervals s else n)) ds es s"

section \<open>Killing them\<close>

text \<open>\<open>NetworkMap\<close> has the layout of the struct \<open>network_stat\<close> of the library.\<close>

type_synonym NetworkMap = network_stat

text \<open>The host name is printed up to its length, which must not exceed the array.\<close>

definition initNetworkMap :: "byte list option \<Rightarrow> (32 word \<Rightarrow> NetworkMap option) result" where
  "initNetworkMap file =
     bindE (some_or (Exit_With 2) file) (\<lambda>f.
       let stats = read_records dec_network_stat 112 (replicate 112 0) f
       in bindE (guardE (list_all (\<lambda>n. unat (hostname_len n) \<le> HOSTNAME_LEN) stats) Out_Of_Bounds) (\<lambda>_.
            Inr (fold (\<lambda>n m. m(net_rank n \<mapsto> n)) stats (\<lambda>_. None))))"

definition lookup_rank :: "(32 word \<Rightarrow> NetworkMap option) \<Rightarrow> int \<Rightarrow> NetworkMap result" where
  "lookup_rank nm r = some_or Null_Deref (nm (word_of_int r))"

text \<open>The \<open>ssh\<close> command: host and command line.\<close>

definition kill_command :: "NetworkMap \<Rightarrow> byte list \<times> string" where
  "kill_command p = (take (unat (hostname_len p)) (hostname p), ''kill -9 '' @ nat_string (unat (process_id p)))"

text \<open>The commands run, and how the injector ends; \<open>ssh\<close> tells whether a command succeeds.\<close>

primrec Start :: "(byte list \<times> string \<Rightarrow> bool) \<Rightarrow> (32 word \<Rightarrow> NetworkMap option) \<Rightarrow> QueuedProcesses list \<Rightarrow>
    (byte list \<times> string) list \<times> unit result" where
  "Start ssh nm [] = ([], Inr ())"
| "Start ssh nm (p # ps) =
     (case lookup_rank nm (Queued_Rank p) of Inl e \<Rightarrow> ([], Inl e)
      | Inr netMap \<Rightarrow>
          let c = kill_command netMap
          in if ssh c then (let (cs, r) = Start ssh nm ps in (c # cs, r)) else ([c], Inl (Exit_With 1)))"

text \<open>\<open>main\<close>, for the contents of the two files.\<close>

definition fault_injector_main :: "string option \<Rightarrow> byte list option \<Rightarrow> bool \<Rightarrow> int \<Rightarrow> int list \<Rightarrow> 64 word list \<Rightarrow>
    (byte list \<times> string \<Rightarrow> bool) \<Rightarrow> (QueuedProcesses list \<times> (byte list \<times> string) list \<times> unit result) result" where
  "fault_injector_main repFile networkMapFile killNonRep nRank ds es ssh =
     bindE (NewSelector repFile 20000000000 4000000000
       (Some \<lparr>ImageToKill = KILL_ANY, KillEvenIfNotReplicated = killNonRep\<rparr>)) (\<lambda>selec.
     bindE (NextN nRank ds es selec) (\<lambda>(a, _).
     bindE (initNetworkMap networkMapFile) (\<lambda>inject. Inr (a, Start ssh inject a))))"

section \<open>The map of the manager\<close>

text \<open>Text of one field: neither tabulator nor newline.\<close>

definition field :: "string \<Rightarrow> bool" where
  "field s \<longleftrightarrow> CHR 0x09 \<notin> set s \<and> CHR 0x0A \<notin> set s"

lemma field_int_string [simp]: "field (int_string i)"
proof -
  have "\<not> is_digit CHR 0x09" "\<not> is_digit CHR 0x0A" by (simp_all add: is_digit_def)
  then have "CHR 0x09 \<notin> set (nat_string n) \<and> CHR 0x0A \<notin> set (nat_string n)" for n
    using nat_string_digits [of n] by blast
  then show ?thesis by (simp add: field_def int_string_def)
qed

lemma split_field: "field w \<Longrightarrow> split_tabs w = [w]" "field w \<Longrightarrow> split_tabs (w @ CHR 0x09 # s) = w # split_tabs s"
  by (induction w) (auto simp: field_def)

definition fields :: "string list \<Rightarrow> string" where
  "fields ws = concat (map (\<lambda>w. tab @ w) ws)"

lemma split_fields: "field w \<Longrightarrow> list_all field ws \<Longrightarrow> split_tabs (w @ fields ws) = w # ws"
  by (induction ws arbitrary: w) (simp_all add: fields_def split_field tab_def)

lemma no_newline_fields: "list_all field ws \<Longrightarrow> CHR 0x0A \<notin> set (fields ws)"
  by (induction ws) (auto simp: fields_def field_def tab_def)

lemma read_fields:
  assumes "field w" and "list_all field ws"
  shows "ReadString (w @ fields ws @ newline @ s) = (w @ fields ws @ newline, s)"
    "filter (\<lambda>ch. ch \<noteq> CHR 0x0A) (w @ fields ws @ newline) = w @ fields ws"
proof -
  have n: "\<forall>ch \<in> set (w @ fields ws). ch \<noteq> CHR 0x0A" using assms no_newline_fields [OF assms(2)] by (auto simp: field_def)
  then have "takeWhile (\<lambda>ch. ch \<noteq> CHR 0x0A) ((w @ fields ws) @ CHR 0x0A # s) = w @ fields ws"
    "dropWhile (\<lambda>ch. ch \<noteq> CHR 0x0A) ((w @ fields ws) @ CHR 0x0A # s) = CHR 0x0A # s"
    by (simp_all add: takeWhile_append dropWhile_append)
  then show "ReadString (w @ fields ws @ newline @ s) = (w @ fields ws @ newline, s)"
    by (simp add: ReadString_def newline_def)
  show "filter (\<lambda>ch. ch \<noteq> CHR 0x0A) (w @ fields ws @ newline) = w @ fields ws"
    using n by (simp add: newline_def filter_id_conv)
qed

lemma Atoi_int_string: "fits_int i \<Longrightarrow> Atoi (int_string i) = i"
proof -
  assume f: "fits_int i"
  obtain ch r where n: "nat_string (nat \<bar>i\<bar>) = ch # r" "is_digit ch" by (rule nat_string_head)
  have d: "list_all is_digit (nat_string (nat \<bar>i\<bar>))" using nat_string_digits by (simp add: list_all_iff)
  show ?thesis
  proof (cases "i < 0")
    case True
    then have "int_string i = CHR ''-'' # nat_string (nat \<bar>i\<bar>)" by (simp add: int_string_def)
    then show ?thesis using f d True by (simp add: Atoi_def fits_int_def)
  next
    case False
    then have "int_string i = nat_string (nat \<bar>i\<bar>)" "int (digits_value (nat_string (nat \<bar>i\<bar>))) = i"
      by (simp_all add: int_string_def)
    then show ?thesis using f d digit_marks(2,3) [OF n(2)] n(1) by (simp add: Atoi_def fits_int_def)
  qed
qed

text \<open>What the selector keeps of a job of one or two workers.\<close>

definition two_workers :: "GoJob \<Rightarrow> SelJob" where
  "two_workers j = \<lparr>CR = take 2 (ranks j @ [-1, -1])\<rparr>"

definition small_jobs :: "JobMap \<Rightarrow> bool" where
  "small_jobs jm \<longleftrightarrow> list_all (\<lambda>j. length (RankList j) \<le> 2) jm"

lemma job_line_fields:
  "job_line k j = int_string (Modified j) @
     fields (int_string (int k) # int_string (int (length (RankList j))) # map int_string (ranks j)) @ newline"
  by (simp add: job_line_def fields_def ranks_def o_def)

lemma read_CR_workers:
  assumes "length rs \<le> 2" and "list_all fits_int rs"
  shows "read_CR 0 (map int_string rs) [-1, -1] = Inr (take 2 (rs @ [-1, -1]))"
  using assms by (cases rs rule: remdups_adj.cases) (auto simp: aset_def Atoi_int_string)

lemma update_fresh: "k \<notin> fst ` set m \<Longrightarrow> AList.update k v m = m @ [(k, v)]"
  by (induction m) auto

lemma read_jobs_lines:
  assumes "list_all (\<lambda>j. length (RankList j) \<le> 2 \<and> list_all fits_int (ranks j)) js" and "k + length js < 2147483648"
    and "\<forall>i \<in> fst ` set m. i < int k"
  shows "read_jobs (length js) (concat (map (\<lambda>(k, j). job_line k j) (enumerate k js)) @ s) m =
     Inr (m @ map (\<lambda>(k, j). (int k, two_workers j)) (enumerate k js))"
  using assms
proof (induction js arbitrary: k m)
  case Nil
  then show ?case by simp
next
  case (Cons j js)
  let ?ws = "int_string (int k) # int_string (int (length (RankList j))) # map int_string (ranks j)"
  let ?rest = "concat (map (\<lambda>(k, j). job_line k j) (enumerate (Suc k) js)) @ s"
  have ws: "field (int_string (Modified j))" "list_all field ?ws" by (simp_all add: list_all_iff)
  have rd: "ReadString (job_line k j @ ?rest) = (job_line k j, ?rest)"
      "split_tabs (filter (\<lambda>ch. ch \<noteq> CHR 0x0A) (job_line k j)) = int_string (Modified j) # ?ws"
    using read_fields [OF ws] split_fields [OF ws] by (simp_all add: job_line_fields)
  have cr: "read_CR 0 (drop 3 (int_string (Modified j) # ?ws)) [-1, -1] = Inr (CR (two_workers j))"
    using read_CR_workers [of "ranks j"] Cons.prems(1) by (simp add: two_workers_def ranks_def)
  have "int k \<notin> fst ` set m" using Cons.prems(3) by auto
  then have up: "AList.update (int k) \<lparr>CR = CR (two_workers j)\<rparr> m = m @ [(int k, two_workers j)]" by (simp add: update_fresh)
  have "read_jobs (length (j # js)) (job_line k j @ ?rest) m = read_jobs (length js) ?rest (m @ [(int k, two_workers j)])"
    using Cons.prems(2) up cr by (simp add: rd Atoi_int_string fits_int_def aget_def Let_def numeral_3_eq_3)
  also have "\<dots> = Inr ((m @ [(int k, two_workers j)]) @ map (\<lambda>(k, j). (int k, two_workers j)) (enumerate (Suc k) js))"
    using Cons.prems by (intro Cons.IH) auto
  finally show ?case by simp
qed

lemma selector_reads_map:
  assumes "valid_map jm" and "small_jobs jm"
  shows "initReplicationMap (Some (WriteToFile jm)) = Inr (map (\<lambda>(k, j). (int k, two_workers j)) (enumerate 0 jm))"
proof -
  let ?ws = "[int_string (int (length jm))]"
  let ?rest = "concat (map (\<lambda>(k, j). job_line k j) (enumerate 0 jm)) @ legend"
  have ws: "field (int_string (CountTotalRanks jm))" "list_all field ?ws" by simp_all
  have v: "length (all_ranks jm) < 2147483648" "list_all (\<lambda>w. 0 \<le> w \<and> w < int (length (all_ranks jm))) (all_ranks jm)"
      "list_all (\<lambda>j. RankList j \<noteq> []) jm"
    using assms(1) by (auto simp: valid_map_def list_all_iff)
  have len: "length jm < 2147483648" using length_map_ranks [OF v(3)] v(1) by simp
  have w: "WriteToFile jm = int_string (CountTotalRanks jm) @ fields ?ws @ newline @ ?rest"
    by (simp add: WriteToFile_def fields_def)
  obtain line where rd: "ReadString (WriteToFile jm) = (line, ?rest)"
      "split_tabs (filter (\<lambda>ch. ch \<noteq> CHR 0x0A) line) = int_string (CountTotalRanks jm) # ?ws"
    unfolding w using read_fields [OF ws] split_fields [OF ws] by metis
  have "list_all (\<lambda>j. length (RankList j) \<le> 2 \<and> list_all fits_int (ranks j)) jm"
    unfolding list_all_iff
  proof (intro ballI conjI)
    fix j
    assume j: "j \<in> set jm"
    show "length (RankList j) \<le> 2" using assms(2) j by (simp add: small_jobs_def list_all_iff)
    fix r
    assume "r \<in> set (ranks j)"
    then have "r \<in> set (all_ranks jm)" using j by (auto simp: all_ranks_def)
    then show "fits_int r" using v(1,2) by (auto simp: list_all_iff fits_int_def)
  qed
  from read_jobs_lines [OF this, of 0 "[]" legend] show ?thesis
    using len by (simp add: initReplicationMap_def some_or_Some rd Let_def aget_def Atoi_int_string fits_int_def)
qed

end
