(* ===== verification/Selection.thy ===== *)
theory Selection
  imports Injector
begin

text \<open>
  What the fault injector selects and kills: never the last worker of a job, and the processes
  whose records \<open>network_stat_init\<close> wrote; and when its search for a process ends.
\<close>

section \<open>The selector on a map of the manager\<close>

definition rep_map :: "JobMap \<Rightarrow> (int \<times> SelJob) list" where
  "rep_map jm = map (\<lambda>(k, j). (int k, two_workers j)) (enumerate 0 jm)"

lemma map_of_numbered:
  "map_of (map (\<lambda>(k, j). (int k, h j)) (enumerate i js)) x =
     (if int i \<le> x \<and> x < int (i + length js) then Some (h (js ! (nat x - i))) else None)"
  by (induction js arbitrary: i) (auto simp: nth_Cons' Suc_diff_Suc not_le nat_less_iff)

lemma rep_map_lookup:
  "map_of (rep_map jm) x = (if 0 \<le> x \<and> x < int (length jm) then Some (two_workers (jm ! nat x)) else None)"
  unfolding rep_map_def by (simp add: map_of_numbered)

lemma rep_map_Nil [simp]: "rep_map jm = [] \<longleftrightarrow> jm = []"
  by (simp add: rep_map_def enumerate_eq_zip)

text \<open>The two entries of a job: its first worker, and its replica or -1.\<close>

lemma two_workers_CR:
  assumes "valid_map jm" and "small_jobs jm" and "k < length jm"
  shows "CR (two_workers (jm ! k)) = [hd (ranks (jm ! k)), if length (RankList (jm ! k)) = 2 then last (ranks (jm ! k)) else -1]"
    "set (ranks (jm ! k)) = {hd (ranks (jm ! k)), last (ranks (jm ! k))}"
    "length (RankList (jm ! k)) = 2 \<Longrightarrow> hd (ranks (jm ! k)) \<noteq> last (ranks (jm ! k))"
    "length (RankList (jm ! k)) = 1 \<or> length (RankList (jm ! k)) = 2"
proof -
  have l: "length (ranks (jm ! k)) = length (RankList (jm ! k))" by (simp add: ranks_def)
  have "length (RankList (jm ! k)) \<le> 2" "RankList (jm ! k) \<noteq> []"
    using assms by (simp_all add: small_jobs_def valid_map_def list_all_length)
  then have c: "(\<exists>a. ranks (jm ! k) = [a]) \<or> (\<exists>a b. ranks (jm ! k) = [a, b])"
    unfolding l [symmetric] by (cases "ranks (jm ! k)" rule: remdups_adj.cases) (auto simp: ranks_def)
  have "distinct (ranks (jm ! k))" using assms(1,3) by (auto simp: valid_map_def all_ranks_def distinct_concat_iff)
  then show "CR (two_workers (jm ! k)) = [hd (ranks (jm ! k)), if length (RankList (jm ! k)) = 2 then last (ranks (jm ! k)) else -1]"
    "set (ranks (jm ! k)) = {hd (ranks (jm ! k)), last (ranks (jm ! k))}"
    "length (RankList (jm ! k)) = 2 \<Longrightarrow> hd (ranks (jm ! k)) \<noteq> last (ranks (jm ! k))"
    "length (RankList (jm ! k)) = 1 \<or> length (RankList (jm ! k)) = 2"
    using c unfolding two_workers_def l [symmetric] by auto
qed

lemma worker_of_one_job:
  assumes "valid_map jm" and "k < length jm" and "l < length jm" and "r \<in> set (ranks (jm ! k))" and "r \<in> set (ranks (jm ! l))"
  shows "k = l"
proof (rule ccontr)
  assume ne: "k \<noteq> l"
  have d: "distinct (concat (map ranks jm))" using assms(1) by (simp add: valid_map_def all_ranks_def)
  have "[] \<notin> set (map ranks jm)" using assms(1) by (auto simp: valid_map_def list_all_iff ranks_def)
  then have "distinct (map ranks jm)" using d by (simp add: distinct_concat_iff)
  then have "ranks (jm ! k) \<noteq> ranks (jm ! l)" using ne assms(2,3) nth_eq_iff_index_eq [of "map ranks jm" k l] by simp
  moreover have "ranks (jm ! k) \<in> set (map ranks jm)" "ranks (jm ! l) \<in> set (map ranks jm)" using assms(2,3) by simp_all
  ultimately show False using d assms(4,5) unfolding distinct_concat_iff by blast
qed

text \<open>A selector on the map that must not take the last worker, and has not yet.\<close>

definition sparing :: "JobMap \<Rightarrow> Selector \<Rightarrow> bool" where
  "sparing jm s \<longleftrightarrow> RepMap s = rep_map jm \<and> \<not> kill_even_if_not_replicated (Opts s) \<and>
     (\<forall>k < length jm. \<exists>r \<in> set (ranks (jm ! k)). \<not> RankQueued s r)"

definition taken :: "JobMap \<Rightarrow> QueuedProcesses option \<Rightarrow> Selector \<Rightarrow> Selector \<Rightarrow> bool" where
  "taken jm q s s' \<longleftrightarrow>
     (case q of None \<Rightarrow> s' = s
      | Some p \<Rightarrow> s' = s\<lparr>RankQueued := (RankQueued s)(Queued_Rank p := True)\<rparr> \<and> \<not> RankQueued s (Queued_Rank p) \<and>
          Queued_Rank p \<in> set (all_ranks jm))"

text \<open>One pass through the loop of \<open>getNew\<close> on a job \<open>k\<close> and an index \<open>i\<close> of the array.\<close>

lemma take_one:
  assumes m: "valid_map jm" "small_jobs jm" and s: "sparing jm s" and k: "k < length jm"
    and i: "aget (CR (two_workers (jm ! k))) i = Inr r" "\<not> r < 0" "last_worker (two_workers (jm ! k)) i s = Inr False"
  shows "sparing jm (s\<lparr>RankQueued := (RankQueued s)(r := True)\<rparr>)" "r \<in> set (all_ranks jm)"
proof -
  note cr = two_workers_CR [OF m k]
  obtain other where o: "other \<in> set (ranks (jm ! k))" "other \<noteq> r" "\<not> RankQueued s other" "r \<in> set (ranks (jm ! k))"
    using i cr by (auto simp: aget_Inr last_worker_def bindE_eq_Inr_iff nth_Cons' split: if_splits)
  then show "r \<in> set (all_ranks jm)" using k by (auto simp: all_ranks_def)
  have "\<exists>x \<in> set (ranks (jm ! l)). \<not> ((RankQueued s)(r := True)) x" if l: "l < length jm" for l
  proof (cases "l = k")
    case True
    then show ?thesis using o by (intro bexI [of _ other]) simp_all
  next
    case False
    obtain x where "x \<in> set (ranks (jm ! l))" "\<not> RankQueued s x" using s l by (auto simp: sparing_def)
    moreover from this have "x \<noteq> r" using worker_of_one_job [OF m(1) l k] o(4) False by blast
    ultimately show ?thesis by auto
  qed
  then show "sparing jm (s\<lparr>RankQueued := (RankQueued s)(r := True)\<rparr>)" using s by (simp add: sparing_def)
qed

definition after_draw :: "int \<Rightarrow> SelJob \<Rightarrow> int \<Rightarrow> int list \<Rightarrow> 64 word list \<Rightarrow> nat \<Rightarrow> Selector \<Rightarrow>
    (QueuedProcesses option \<times> int list \<times> 64 word list \<times> Selector) result" where
  "after_draw i j r ds es cnt s =
     (if r < 0 then getNew ds es cnt s
      else bindE (last_worker j i s) (\<lambda>skip.
        if skip then getNew ds es cnt s
        else if RankQueued s r then (if cnt = 5 then Inr (None, ds, es, s) else getNew ds es (cnt + 1) s)
        else case es of [] \<Rightarrow> Inl Short_Input
          | interval # es1 \<Rightarrow> Inr (Some \<lparr>Queued_Rank = r, WaitInterval = 1000000000 * interval\<rparr>, ds, es1,
              s\<lparr>RankQueued := (RankQueued s)(r := True)\<rparr>)))"

lemma getNew_draw:
  assumes "\<not> kill_even_if_not_replicated (Opts s)" and "random_index (Opts s) ds0 = Inr (i, ds1)"
    and "map_of (RepMap s) d = Some j" and "aget (CR j) i = Inr r"
  shows "getNew (d # ds0) es cnt s = after_draw i j r ds1 es cnt s"
proof -
  have "RepMap s \<noteq> []" using assms(3) by auto
  then show ?thesis
    using assms by (simp add: getNew.simps [of "d # ds0"] after_draw_def guardE_True some_or_Some)
qed

lemma getNew_pass:
  assumes "RepMap s = rep_map jm" and "\<not> kill_even_if_not_replicated (Opts s)" and "getNew ds es cnt s = Inr y"
  obtains k i r ds1 where "k < length jm" "aget (CR (two_workers (jm ! k))) i = Inr r" "length ds1 < length ds"
    "after_draw i (two_workers (jm ! k)) r ds1 es cnt s = Inr y"
proof -
  note run = assms(3) [unfolded getNew.simps [of ds]]
  have g: "RepMap s \<noteq> []" using run by (auto simp: guardE_def)
  then obtain d ds0 where ds: "ds = d # ds0" using run by (cases ds) (auto simp: guardE_def)
  obtain i ds1 where i: "random_index (Opts s) ds0 = Inr (i, ds1)"
    using run g ds by (cases "random_index (Opts s) ds0") (auto simp: guardE_def)
  obtain j where j: "map_of (RepMap s) d = Some j"
    using run g ds i by (cases "map_of (RepMap s) d") (auto simp: guardE_def some_or_None)
  obtain k where k: "k < length jm" "j = two_workers (jm ! k)"
    using j assms(1) by (intro that [of "nat d"]) (auto simp: rep_map_lookup split: if_splits)
  obtain r where r: "aget (CR j) i = Inr r"
    using run g ds i j by (cases "aget (CR j) i") (auto simp: guardE_def some_or_Some)
  show ?thesis
    using that [OF k(1) r [unfolded k(2)], of ds1] getNew_draw [OF assms(2) i j r] assms(3) random_index_shorter [OF i] ds k(2) by simp
qed

lemma getNew_spares:
  assumes "valid_map jm" and "small_jobs jm" and "sparing jm s" and "getNew ds es cnt s = Inr (q, ds', es', s')"
  shows "sparing jm s' \<and> taken jm q s s'"
  using assms(4)
proof (induction "length ds" arbitrary: ds cnt rule: less_induct)
  case less
  have ne: "RepMap s = rep_map jm" "\<not> kill_even_if_not_replicated (Opts s)" using assms(3) by (simp_all add: sparing_def)
  obtain k i r ds1 where k: "k < length jm" "aget (CR (two_workers (jm ! k))) i = Inr r" "length ds1 < length ds"
    and a: "after_draw i (two_workers (jm ! k)) r ds1 es cnt s = Inr (q, ds', es', s')"
    by (rule getNew_pass [OF ne less.prems])
  consider cnt' where "getNew ds1 es cnt' s = Inr (q, ds', es', s')" | "q = None" "s' = s"
    | interval where "\<not> r < 0" "last_worker (two_workers (jm ! k)) i s = Inr False" "\<not> RankQueued s r"
        "q = Some \<lparr>Queued_Rank = r, WaitInterval = 1000000000 * interval\<rparr>" "s' = s\<lparr>RankQueued := (RankQueued s)(r := True)\<rparr>"
    using a by (auto simp: after_draw_def bindE_eq_Inr_iff split: if_splits list.splits)
  then show ?case
  proof cases
    case 1
    then show ?thesis using less.hyps [OF k(3)] by blast
  next
    case 2
    then show ?thesis using assms(3) by (simp add: taken_def)
  next
    case 3
    then show ?thesis using take_one [OF assms(1-3) k(1,2)] by (simp add: taken_def)
  qed
qed


lemma next_loop_spares:
  assumes "valid_map jm" and "small_jobs jm"
  shows "sparing jm s \<Longrightarrow> next_loop n ds es s = Inr (ps, ds', es', s') \<Longrightarrow>
     sparing jm s' \<and> (\<forall>r. RankQueued s' r \<longleftrightarrow> RankQueued s r \<or> r \<in> Queued_Rank ` set ps) \<and> distinct (map Queued_Rank ps) \<and>
     (\<forall>p \<in> set ps. \<not> RankQueued s (Queued_Rank p) \<and> Queued_Rank p \<in> set (all_ranks jm))"
proof (induction n arbitrary: ds es s ps)
  case 0
  then show ?case by simp
next
  case (Suc n)
  obtain q ds1 es1 s1 qs where g: "getNew ds es 0 s = Inr (q, ds1, es1, s1)" "next_loop n ds1 es1 s1 = Inr (qs, ds', es', s')"
      and ps: "ps = (case q of None \<Rightarrow> qs | Some p \<Rightarrow> p # qs)"
    using Suc.prems(2) by (auto simp: bindE_eq_Inr_iff)
  note t = getNew_spares [OF assms Suc.prems(1) g(1)]
  note IH = Suc.IH [OF conjunct1 [OF t] g(2)]
  show ?case
  proof (cases q)
    case None
    then show ?thesis using IH t ps by (simp add: taken_def)
  next
    case (Some p)
    then have "RankQueued s1 = (RankQueued s)(Queued_Rank p := True)" using t by (simp add: taken_def)
    then show ?thesis using IH t ps Some by (auto simp: taken_def split: if_splits)
  qed
qed

text \<open>The selector that \<open>main\<close> makes.\<close>

definition main_selector :: "JobMap \<Rightarrow> bool \<Rightarrow> Selector" where
  "main_selector jm killNonRep = \<lparr>Intervals = 5, RepMap = rep_map jm, RankQueued = (\<lambda>_. False),
     Opts = Some \<lparr>ImageToKill = KILL_ANY, KillEvenIfNotReplicated = killNonRep\<rparr>\<rparr>"

lemma main_selects:
  assumes "valid_map jm" and "small_jobs jm"
  shows "fault_injector_main (Some (WriteToFile jm)) net killNonRep n ds es ssh =
     bindE (NextN n ds es (main_selector jm killNonRep)) (\<lambda>(a, _).
     bindE (initNetworkMap net) (\<lambda>inject. Inr (a, Start ssh inject a)))"
proof -
  have "(20000000000 :: int) sdiv 4000000000 = 5" by (simp add: signed_divide_int_def)
  then show ?thesis
    using selector_reads_map [OF assms]
    by (simp add: fault_injector_main_def NewSelector_def guardE_True rep_map_def main_selector_def)
qed

lemma main_selector_spares: "valid_map jm \<Longrightarrow> sparing jm (main_selector jm False)"
  by (auto simp: sparing_def main_selector_def kill_even_if_not_replicated_def valid_map_def list_all_length ranks_def
      intro!: bexI [of _ "hd (ranks (jm ! k))" for k])

lemma main_spares:
  assumes "valid_map jm" and "small_jobs jm"
    and "fault_injector_main (Some (WriteToFile jm)) net False n ds es ssh = Inr (ps, cs, res)"
  shows "distinct (map Queued_Rank ps)" "Queued_Rank ` set ps \<subseteq> set (all_ranks jm)"
    "k < length jm \<Longrightarrow> \<exists>r \<in> set (ranks (jm ! k)). r \<notin> Queued_Rank ` set ps"
proof -
  let ?s = "main_selector jm False"
  obtain ds' es' s' where "next_loop (nat (if n = 0 then Intervals ?s else n)) ds es ?s = Inr (ps, ds', es', s')"
    using assms(3) unfolding main_selects [OF assms(1,2)] by (auto simp: bindE_eq_Inr_iff NextN_def)
  note t = next_loop_spares [OF assms(1,2) main_selector_spares [OF assms(1)] this]
  show "distinct (map Queued_Rank ps)" "Queued_Rank ` set ps \<subseteq> set (all_ranks jm)" using t by auto
  show "\<exists>r \<in> set (ranks (jm ! k)). r \<notin> Queued_Rank ` set ps" if k: "k < length jm"
    using conjunct1 [OF t] k t by (auto simp: sparing_def main_selector_def)
qed

section \<open>When the search ends\<close>

lemma after_draw_any:
  assumes "sparing jm s" and "Opts s = Some \<lparr>ImageToKill = KILL_ANY, KillEvenIfNotReplicated = False\<rparr>" and "k < length jm"
    and "aget (CR (two_workers (jm ! k))) i = Inr r"
  shows "getNew (int k # i # ds) es cnt s = after_draw i (two_workers (jm ! k)) r ds es cnt s"
  using assms
  by (intro getNew_draw) (simp_all add: sparing_def random_index_def kill_even_if_not_replicated_def rep_map_lookup)

lemma getNew_returns:
  assumes m: "valid_map jm" "small_jobs jm" and s: "sparing jm s"
    and o: "Opts s = Some \<lparr>ImageToKill = KILL_ANY, KillEvenIfNotReplicated = False\<rparr>"
    and k: "k < length jm" "length (RankList (jm ! k)) = 2"
  shows "\<exists>ds es q s'. \<forall>rest rest'. getNew (ds @ rest) (es @ rest') 0 s = Inr (q, rest, rest', s')"
proof -
  note cr = two_workers_CR [OF m k(1)]
  let ?a = "hd (ranks (jm ! k))" and ?b = "last (ranks (jm ! k))" and ?j = "two_workers (jm ! k)"
  have "?a \<in> set (all_ranks jm)" "?b \<in> set (all_ranks jm)" using cr(2) k(1) by (auto simp: all_ranks_def)
  then have pos: "\<not> ?a < 0" "\<not> ?b < 0" using m(1) by (auto simp: valid_map_def list_all_iff)
  have ag: "aget (CR ?j) 0 = Inr ?a" "aget (CR ?j) 1 = Inr ?b" using cr(1) k(2) by (simp_all add: aget_def)
  have lw: "last_worker ?j 0 s = Inr (RankQueued s ?b)" "last_worker ?j 1 s = Inr (RankQueued s ?a)"
    using ag pos by (auto simp: last_worker_def)
  note draw = after_draw_any [OF s o k(1)]
  have again: "\<exists>ds es q s'. \<forall>rest rest'. getNew (ds @ rest) (es @ rest') 0 s = Inr (q, rest, rest', s')"
    if "aget (CR ?j) i = Inr r" "\<not> r < 0" "last_worker ?j i s = Inr False" "RankQueued s r" for i r
  proof -
    have "getNew (int k # i # ds) es cnt s = (if cnt = 5 then Inr (None, ds, es, s) else getNew ds es (cnt + 1) s)" for ds es cnt
      using that draw [OF that(1)] by (simp add: after_draw_def)
    then show ?thesis by (intro exI [of _ "concat (replicate 6 [int k, i])"] exI [of _ "[]"] exI [of _ None] exI [of _ s])
      (simp add: numeral_eq_Suc)
  qed
  consider "RankQueued s ?a" "\<not> RankQueued s ?b" | "\<not> RankQueued s ?a" "RankQueued s ?b" | "\<not> RankQueued s ?a" "\<not> RankQueued s ?b"
    using s k(1) cr(2) unfolding sparing_def by (metis insertE singletonD)
  then show ?thesis
  proof cases
    case 1
    then show ?thesis using again [OF ag(1) pos(1)] lw(1) by simp
  next
    case 2
    then show ?thesis using again [OF ag(2) pos(2)] lw(2) by simp
  next
    case 3
    then show ?thesis
      using draw [OF ag(1)] lw(1) pos(1)
      by (intro exI [of _ "[int k, 0]"] exI [of _ "[0]"] exI [of _ "Some \<lparr>Queued_Rank = ?a, WaitInterval = 0\<rparr>"]
          exI [of _ "s\<lparr>RankQueued := (RankQueued s)(?a := True)\<rparr>"]) (simp add: after_draw_def)
  qed
qed

lemma next_loop_returns:
  assumes m: "valid_map jm" "small_jobs jm" and k: "k < length jm" "length (RankList (jm ! k)) = 2"
  shows "sparing jm s \<Longrightarrow> Opts s = Some \<lparr>ImageToKill = KILL_ANY, KillEvenIfNotReplicated = False\<rparr> \<Longrightarrow>
     \<exists>ds es y. next_loop n ds es s = Inr y"
proof (induction n arbitrary: s)
  case 0
  then show ?case by simp
next
  case (Suc n)
  obtain ds es q s' where g: "\<forall>rest rest'. getNew (ds @ rest) (es @ rest') 0 s = Inr (q, rest, rest', s')"
    using getNew_returns [OF m Suc.prems k] by blast
  have t: "sparing jm s' \<and> taken jm q s s'" using getNew_spares [OF m Suc.prems(1)] g by blast
  then have "Opts s' = Opts s" by (cases q) (simp_all add: taken_def)
  then obtain ds1 es1 y where n: "next_loop n ds1 es1 s' = Inr y" using Suc.IH [of s'] t Suc.prems(2) by auto
  have "\<exists>y. next_loop (Suc n) (ds @ ds1) (es @ es1) s = Inr y" using g n by (cases y) simp
  then show ?case by blast
qed

lemma getNew_never:
  assumes m: "valid_map jm" "small_jobs jm" and "RepMap s = rep_map jm" "\<not> kill_even_if_not_replicated (Opts s)"
    and "\<forall>j \<in> set jm. length (RankList j) \<noteq> 2"
  shows "getNew ds es cnt s \<noteq> Inr y"
proof (induction "length ds" arbitrary: ds cnt rule: less_induct)
  case less
  show ?case
  proof
    assume g: "getNew ds es cnt s = Inr y"
    obtain k i r ds1 where k: "k < length jm" "aget (CR (two_workers (jm ! k))) i = Inr r" "length ds1 < length ds"
      and a: "after_draw i (two_workers (jm ! k)) r ds1 es cnt s = Inr y"
      by (rule getNew_pass [OF assms(3,4) g])
    have "CR (two_workers (jm ! k)) = [hd (ranks (jm ! k)), -1]" using two_workers_CR(1) [OF m k(1)] assms(5) k(1) by simp
    then have "r < 0 \<or> last_worker (two_workers (jm ! k)) i s = Inr True"
      using k(2) by (auto simp: aget_Inr last_worker_def aget_def nth_Cons' split: if_splits)
    then have "getNew ds1 es cnt s = Inr y" using a by (auto simp: after_draw_def split: if_splits)
    then show False using less [OF k(3)] by blast
  qed
qed

text \<open>
  C33: when the fault injector finds its processes. With \<open>knrep\<close> off, on a map of jobs of one or
  two workers, some random numbers bring \<open>main\<close> to the end of its selection exactly if nothing
  is to be selected (a negative number) or a job has a replica. If no job has one, the loop of
  \<open>getNew\<close> runs for ever whatever the numbers are: the passes on jobs without a replica are not
  counted.
\<close>

theorem injector_returns_iff:
  assumes "valid_map jm" and "small_jobs jm" and "initNetworkMap net = Inr nm"
  shows "(\<exists>ds es y. fault_injector_main (Some (WriteToFile jm)) net False n ds es ssh = Inr y) \<longleftrightarrow>
     n < 0 \<or> (\<exists>j \<in> set jm. length (RankList j) = 2)"
proof -
  let ?s = "main_selector jm False" and ?n = "nat (if n = 0 then 5 else n)"
  have sp: "sparing jm ?s" by (rule main_selector_spares [OF assms(1)])
  have "(\<exists>ds es y. fault_injector_main (Some (WriteToFile jm)) net False n ds es ssh = Inr y) \<longleftrightarrow>
      (\<exists>ds es y. next_loop ?n ds es ?s = Inr y)"
    unfolding main_selects [OF assms(1,2)] NextN_def using assms(3) by (force simp: bindE_eq_Inr_iff main_selector_def)
  also have "\<dots> \<longleftrightarrow> n < 0 \<or> (\<exists>j \<in> set jm. length (RankList j) = 2)"
  proof (cases "n < 0")
    case True
    then show ?thesis by simp
  next
    case False
    then have "0 < ?n" by auto
    then obtain l where l: "?n = Suc l" using gr0_conv_Suc by blast
    show ?thesis
    proof (cases "\<exists>j \<in> set jm. length (RankList j) = 2")
      case True
      then obtain k where "k < length jm" "length (RankList (jm ! k)) = 2" by (auto simp: in_set_conv_nth)
      from next_loop_returns [OF assms(1,2) this sp, of ?n] True show ?thesis by (simp add: main_selector_def)
    next
      case none: False
      have "next_loop (Suc l) ds es ?s \<noteq> Inr y" for ds es y
        using getNew_never [OF assms(1,2), of ?s] sp none by (auto simp: sparing_def bindE_eq_Inr_iff)
      then show ?thesis using none False l by simp
    qed
  qed
  finally show ?thesis .
qed

text \<open>The README's map has a replica, in job 1; a map of two jobs with a worker each has none.\<close>

lemma readme_small: "valid_map readme_map" "small_jobs readme_map"
  using readme_map_loads(1) by simp (simp add: small_jobs_def readme_map_def)

theorem injector_returns_iff_witness:
  "(\<exists>ds es y. fault_injector_main (Some (WriteToFile readme_map)) (Some []) False 1 ds es (\<lambda>_. True) = Inr y) \<and>
   \<not> (\<exists>ds es y. fault_injector_main (Some (WriteToFile (InitJobMap 2 2))) (Some []) False 1 ds es (\<lambda>_. True) = Inr y)"
proof -
  have i: "initNetworkMap (Some []) = Inr (\<lambda>_. None)"
    by (simp add: initNetworkMap_def some_or_Some read_records.simps guardE_True)
  have j: "InitJobMap 2 2 = [\<lparr>JobID = 0, RankList = [\<lparr>Rank_Rank = 0, PrevJob = -1, StackAdd = 0\<rparr>], Modified = 1\<rparr>,
      \<lparr>JobID = 1, RankList = [\<lparr>Rank_Rank = 1, PrevJob = -1, StackAdd = 0\<rparr>], Modified = 1\<rparr>]"
    by (simp add: InitJobMap_def NewJob_def InsertRank_def upt_rec numeral_2_eq_2)
  have v: "valid_map (InitJobMap 2 2)" "small_jobs (InitJobMap 2 2)"
    by (simp_all add: j valid_map_def small_jobs_def all_ranks_def ranks_def)
  have "\<exists>j \<in> set readme_map. length (RankList j) = 2" by (simp add: readme_map_def)
  moreover have "\<not> (\<exists>j \<in> set (InitJobMap 2 2). length (RankList j) = 2)" by (simp add: j)
  ultimately show ?thesis
    using injector_returns_iff [OF readme_small i, of 1 "\<lambda>_. True"] injector_returns_iff [OF v i, of 1 "\<lambda>_. True"] by simp
qed

section \<open>From \<open>network_stat_init\<close> to the kill command\<close>

text \<open>
  The processes \<open>sts\<close> write their records in this order; \<open>host\<close>, \<open>pid\<close> and \<open>junk\<close> give the machine,
  the process id and the old content of the buffer of each rank.
\<close>

primrec all_network_stats :: "string \<Rightarrow> (int \<Rightarrow> byte list) \<Rightarrow> (int \<Rightarrow> 32 word) \<Rightarrow> (int \<Rightarrow> byte list) \<Rightarrow>
    'a process_scheme list \<Rightarrow> files \<Rightarrow> files result" where
  "all_network_stats name host pid junk [] files = Inr files"
| "all_network_stats name host pid junk (st # sts) files =
     (let r = rank (node st) in bindE (network_stat_init name (host r) (pid r) (junk r) files st)
       (all_network_stats name host pid junk sts))"

definition stat_of :: "(int \<Rightarrow> byte list) \<Rightarrow> (int \<Rightarrow> 32 word) \<Rightarrow> (int \<Rightarrow> byte list) \<Rightarrow> int \<Rightarrow> network_stat" where
  "stat_of host pid junk r = \<lparr>net_rank = word_of_int r, process_id = pid r, hostname_len = word_of_nat (length (host r)),
     hostname = host r @ 0 # drop (length (host r) + 1) (junk r)\<rparr>"

text \<open>A host name that fits, and a buffer of the right size.\<close>

definition named :: "(int \<Rightarrow> byte list) \<Rightarrow> (int \<Rightarrow> byte list) \<Rightarrow> bool" where
  "named host junk \<longleftrightarrow> (\<forall>r. length (host r) < HOSTNAME_LEN \<and> length (junk r) = HOSTNAME_LEN)"

definition file_bytes :: "string \<Rightarrow> files \<Rightarrow> byte list" where
  "file_bytes name files = (case files name of None \<Rightarrow> [] | Some f \<Rightarrow> f)"

lemma all_stats_written:
  assumes "named host junk" and "\<forall>st \<in> set sts. 0 \<le> rank (node st)" and "sts \<noteq> []"
  shows "\<exists>files'. all_network_stats name host pid junk sts files = Inr files' \<and> files' name =
     Some (network_slots.write_slots (map (\<lambda>st. (nat (rank (node st)), stat_of host pid junk (rank (node st)))) sts) (file_bytes name files))"
  using assms(2,3)
proof (induction sts arbitrary: files)
  case Nil
  then show ?case by simp
next
  case (Cons st sts)
  let ?r = "rank (node st)"
  let ?f = "write_at (112 * nat ?r) (enc_network_stat (stat_of host pid junk ?r)) (file_bytes name files)"
  have i: "network_stat_init name (host ?r) (pid ?r) (junk ?r) files st = Inr (files(name \<mapsto> ?f))"
    using assms(1) Cons.prems(1)
    by (simp add: network_stat_init_def named_def guardE_True file_write_at_def file_bytes_def stat_of_def Let_def nat_mult_distrib)
  show ?case
  proof (cases "sts = []")
    case True
    then show ?thesis using i by (simp add: Let_def network_slots.write_slots_def)
  next
    case False
    have fb: "file_bytes name (files(name \<mapsto> x)) = x" for x by (simp add: file_bytes_def)
    from False obtain files' where "all_network_stats name host pid junk sts (files(name \<mapsto> ?f)) = Inr files'"
        "files' name = Some (network_slots.write_slots (map (\<lambda>st. (nat (rank (node st)), stat_of host pid junk (rank (node st)))) sts) ?f)"
      using Cons.IH [of "files(name \<mapsto> ?f)"] Cons.prems(1) unfolding fb by (auto simp del: fun_upd_apply)
    then show ?thesis using i by (simp add: Let_def network_slots.write_slots_def del: fun_upd_apply)
  qed
qed

lemma stat_of_ok:
  assumes "named host junk"
  shows "length (hostname (stat_of host pid junk r)) = HOSTNAME_LEN" "unat (hostname_len (stat_of host pid junk r)) \<le> HOSTNAME_LEN"
    "kill_command (stat_of host pid junk r) = (host r, ''kill -9 '' @ nat_string (unat (pid r)))"
proof -
  have l: "length (host r) < 100" "length (junk r) = 100" using assms by (simp_all add: named_def HOSTNAME_LEN_def)
  then have u: "unat (word_of_nat (length (host r)) :: 32 word) = length (host r)" by (simp add: unat_of_nat)
  show "length (hostname (stat_of host pid junk r)) = HOSTNAME_LEN" "unat (hostname_len (stat_of host pid junk r)) \<le> HOSTNAME_LEN"
    "kill_command (stat_of host pid junk r) = (host r, ''kill -9 '' @ nat_string (unat (pid r)))"
    using l u by (simp_all add: stat_of_def HOSTNAME_LEN_def kill_command_def)
qed

lemma network_map_of_stats:
  assumes "named host junk" and "0 < n" "n < 2147483648" and "length (file_bytes name files) \<le> 112 * n"
    and "distinct (map (\<lambda>st. rank (node st)) sts)" and "(\<lambda>st. rank (node st)) ` set sts = int ` {0..<n}"
  shows "\<exists>files' nm. all_network_stats name host pid junk sts files = Inr files' \<and> initNetworkMap (files' name) = Inr nm \<and>
     (\<forall>k < n. nm (word_of_int (int k)) = Some (stat_of host pid junk (int k)))"
proof -
  let ?rec = "\<lambda>st. stat_of host pid junk (rank (node st))"
  let ?f = "network_slots.write_slots (map (\<lambda>st. (nat (rank (node st)), ?rec st)) sts) (file_bytes name files)"
  have pos: "\<forall>st \<in> set sts. 0 \<le> rank (node st)" using assms(6) by (metis (mono_tags, lifting) imageE image_eqI of_nat_0_le_iff)
  have "sts \<noteq> []" using assms(2,6) by auto
  then obtain files' where f: "all_network_stats name host pid junk sts files = Inr files'" "files' name = Some ?f"
    using all_stats_written [OF assms(1) pos] by blast
  obtain proc where proc: "\<forall>k < n. proc k \<in> set sts \<and> rank (node (proc k)) = int k"
      and rd: "read_records dec_network_stat 112 (replicate 112 0) ?f = map (\<lambda>k. ?rec (proc k)) [0..<n]"
    by (rule network_slots.read_all_slots [where rec = ?rec, OF _ assms(5,6,4,2)]) (use stat_of_ok(1) [OF assms(1)] in simp)
  have r: "read_records dec_network_stat 112 (replicate 112 0) ?f = map (\<lambda>k. stat_of host pid junk (int k)) [0..<n]"
    unfolding rd using proc by simp
  let ?nm = "fold (\<lambda>n m. m(net_rank n \<mapsto> n)) (map (\<lambda>k. stat_of host pid junk (int k)) [0..<n]) (\<lambda>_. None)"
  have "?nm (word_of_int (int k)) = Some (stat_of host pid junk (int k))" if "k < n" for k
    unfolding fold_map using table_of_records [OF that assms(3), of "\<lambda>k. net_rank (stat_of host pid junk (int k))"
        "\<lambda>k. Some (stat_of host pid junk (int k))" "\<lambda>_. None"]
    by (simp add: comp_def stat_of_def del: of_int_of_nat_eq)
  moreover have "initNetworkMap (files' name) = Inr ?nm"
    using stat_of_ok(2) [OF assms(1)] by (simp add: f(2) initNetworkMap_def some_or_Some r guardE_True list_all_iff)
  ultimately show ?thesis using f(1) by blast
qed

lemma Start_kills:
  assumes "named host junk" and "\<forall>k < n. nm (word_of_int (int k)) = Some (stat_of host pid junk (int k))"
    and "\<forall>p \<in> set ps. 0 \<le> Queued_Rank p \<and> Queued_Rank p < int n" and "\<forall>c. ssh c"
  shows "Start ssh nm ps = (map (\<lambda>p. (host (Queued_Rank p), ''kill -9 '' @ nat_string (unat (pid (Queued_Rank p))))) ps, Inr ())"
  using assms(3)
proof (induction ps)
  case Nil
  then show ?case by simp
next
  case (Cons p ps)
  obtain k where "Queued_Rank p = int k" "k < n" using Cons.prems nonneg_int_cases by (metis list.set_intros(1) of_nat_less_iff)
  then have "lookup_rank nm (Queued_Rank p) = Inr (stat_of host pid junk (Queued_Rank p))"
    using assms(2) by (simp add: lookup_rank_def some_or_Some del: of_int_of_nat_eq)
  moreover have "Start ssh nm ps = (map (\<lambda>p. (host (Queued_Rank p), ''kill -9 '' @ nat_string (unat (pid (Queued_Rank p))))) ps, Inr ())"
    using Cons.prems by (intro Cons.IH) simp
  ultimately show ?case using stat_of_ok(3) [OF assms(1)] assms(4) by (simp add: Let_def)
qed

text \<open>
  C12: the fault injector kills the processes it selected. All processes of a world of \<open>n\<close> ranks,
  whose host names fit, write their records with \<open>network_stat_init\<close>, in any order and over any
  older, shorter file. Then the injector finds all of them: for a selection of these ranks and
  a working \<open>ssh\<close> it runs exactly one \<open>kill -9\<close> per selected process, in the order of the
  selection, on the machine and with the process id of that process, and ends normally.
\<close>

theorem injector_kills_selected:
  assumes "named host junk" and "0 < n" "n < 2147483648" and "length (file_bytes name files) \<le> 112 * n"
    and "distinct (map (\<lambda>st. rank (node st)) sts)" and "(\<lambda>st. rank (node st)) ` set sts = int ` {0..<n}"
    and "\<forall>p \<in> set ps. 0 \<le> Queued_Rank p \<and> Queued_Rank p < int n" and "\<forall>c. ssh c"
  shows "\<exists>files' nm. all_network_stats name host pid junk sts files = Inr files' \<and> initNetworkMap (files' name) = Inr nm \<and>
     Start ssh nm ps = (map (\<lambda>p. (host (Queued_Rank p), ''kill -9 '' @ nat_string (unat (pid (Queued_Rank p))))) ps, Inr ())"
proof -
  obtain files' nm where "all_network_stats name host pid junk sts files = Inr files'" "initNetworkMap (files' name) = Inr nm"
      "\<forall>k < n. nm (word_of_int (int k)) = Some (stat_of host pid junk (int k))"
    using network_map_of_stats [OF assms(1-6)] by blast
  then show ?thesis using Start_kills [OF assms(1) _ assms(7,8)] by blast
qed

text \<open>Two processes on the machine \<open>n1\<close> with the process ids 1000 and 1001; the second is selected.\<close>

theorem injector_kills_selected_witness:
  "\<exists>files' nm. all_network_stats ''./network.stat'' (\<lambda>_. [110, 49]) (\<lambda>r. 1000 + word_of_int r) (\<lambda>_. replicate 100 7)
       [demo_globals 1, demo_globals 0] (\<lambda>_. None) = Inr files' \<and> initNetworkMap (files' ''./network.stat'') = Inr nm \<and>
     Start (\<lambda>_. True) nm [\<lparr>Queued_Rank = 1, WaitInterval = 0\<rparr>] = ([([110, 49], ''kill -9 '' @ nat_string 1001)], Inr ())"
proof -
  have d: "rank (node (demo_globals r)) = r" for r by (simp add: demo_globals_def process.defs demo_process_def heap.defs)
  have img: "(\<lambda>st. rank (node st)) ` set [demo_globals 1, demo_globals 0] = int ` {0..<2}"
    by (auto simp: d image_iff intro: bexI [of _ 0] bexI [of _ 1])
  have "\<exists>files' nm. all_network_stats ''./network.stat'' (\<lambda>_. [110, 49]) (\<lambda>r. 1000 + word_of_int r) (\<lambda>_. replicate 100 7)
       [demo_globals 1, demo_globals 0] (\<lambda>_. None) = Inr files' \<and> initNetworkMap (files' ''./network.stat'') = Inr nm \<and>
     Start (\<lambda>_. True) nm [\<lparr>Queued_Rank = 1, WaitInterval = 0\<rparr>] =
       (map (\<lambda>p. ([110, 49], ''kill -9 '' @ nat_string (unat (1000 + word_of_int (Queued_Rank p) :: 32 word))))
         [\<lparr>Queued_Rank = 1, WaitInterval = 0\<rparr>], Inr ())"
    by (rule injector_kills_selected [OF _ _ _ _ _ img]) (simp_all add: named_def HOSTNAME_LEN_def file_bytes_def d)
  then show ?thesis by simp
qed

end
