(* ===== verification/Injected.thy ===== *)
theory Injected
  imports World Selection
begin

text \<open>
  The fault injector against the library: the processes it kills never bring the run down.
\<close>

text \<open>
  C11: injected faults are survived. The processes of a world agree on the jobs of a map of the
  manager whose jobs have one or two workers; the fault injector, with \<open>knrep\<close> off, reads the
  same map and selects the processes \<open>ps\<close>, whatever its random numbers are. If the processes
  that are dead when a failure is seen are among these, the error handler returns on every
  process that is not, no job is lost, and the survivors are again a world in agreement.
\<close>

theorem injected_faults_are_survived:
  assumes "valid_map jm" and "small_jobs jm" and "world_ok (map ranks jm) sts"
    and "fault_injector_main (Some (WriteToFile jm)) net False n ds es ssh = Inr (ps, cs, res)"
    and "error_class_proc_failed f" and "length (world_group f) = length sts" and "renames (world_translation tln f) (length sts) m"
    and "\<forall>r < length sts. world_translation tln f ! r = MPI_UNDEFINED \<longrightarrow> int r \<in> Queued_Rank ` set ps"
  shows "\<exists>sts'. length sts' = m \<and> world_ok (map (\<lambda>j. survivors (world_translation tln f) (ranks j)) jm) sts' \<and>
     (\<forall>j \<in> set jm. survivors (world_translation tln f) (ranks j) \<noteq> []) \<and>
     (\<forall>r < length sts. int r \<notin> Queued_Rank ` set ps \<longrightarrow>
        rep_errhandler tln sp f (rep_mpi_comm_world (node (sts ! r))) (sts ! r) = Inr (sts' ! nat (world_translation tln f ! r)))"
proof -
  let ?tr = "world_translation tln f"
  have c: "covers (map ranks jm) (length sts)" using assms(3) by (simp add: world_ok_def)
  have live: "survivors ?tr (ranks (jm ! k)) \<noteq> []" if k: "k < length jm" for k
  proof -
    obtain r where r: "r \<in> set (ranks (jm ! k))" "r \<notin> Queued_Rank ` set ps" using main_spares(3) [OF assms(1,2,4) k] by blast
    then have "0 \<le> r" "nat r < length sts" using covers_nth(2,3) [OF c, of k r] k by simp_all
    then have "?tr ! nat r \<noteq> MPI_UNDEFINED" using assms(8) r(2) by (metis int_nat_eq)
    then show ?thesis using r(1) by (auto simp: survivors_def filter_empty_conv)
  qed
  then have a: "\<forall>j \<in> set jm. survivors ?tr (ranks j) \<noteq> []" by (metis in_set_conv_nth)
  then have "survivable tln f (map ranks jm) (length sts) m" using assms(5-7) by (simp add: survivable_def)
  then obtain sts' where "length sts' = m" "world_ok (map (survivors ?tr) (map ranks jm)) sts'"
      "\<And>r. r < length sts \<Longrightarrow> ?tr ! r \<noteq> MPI_UNDEFINED \<Longrightarrow>
         rep_errhandler tln sp f (rep_mpi_comm_world (node (sts ! r))) (sts ! r) = Inr (sts' ! nat (?tr ! r))"
    by (rule world_survives [OF assms(3), where sp = sp]) blast
  then show ?thesis using a assms(8) by (intro exI [of _ sts']) (auto simp: o_def)
qed

text \<open>The README's run: the injector draws job 1 and its first worker, process 2, and kills it.\<close>

lemma readme_injection:
  "NextN 1 [1, 0] [3] (main_selector readme_map False) =
     Inr ([\<lparr>Queued_Rank = 2, WaitInterval = 3000000000\<rparr>], [], [],
       (main_selector readme_map False)\<lparr>RankQueued := (\<lambda>_. False)(2 := True)\<rparr>)"
proof -
  let ?s = "main_selector readme_map False"
  have j: "CR (two_workers (readme_map ! 1)) = [2, 1]" "length readme_map = 2" by (simp_all add: readme_map_def two_workers_def ranks_def)
  have "getNew (int 1 # 0 # []) [3] 0 ?s = after_draw 0 (two_workers (readme_map ! 1)) 2 [] [3] 0 ?s"
    by (rule after_draw_any [OF main_selector_spares [OF readme_small(1)]]) (use j in \<open>simp_all add: aget_def main_selector_def\<close>)
  moreover have "last_worker (two_workers (readme_map ! 1)) 0 ?s = Inr False"
    unfolding last_worker_def j(1) by (simp add: aget_def main_selector_def)
  ultimately show ?thesis by (simp add: NextN_def after_draw_def main_selector_def)
qed

theorem injected_faults_are_survived_witness:
  "\<exists>net (sts :: ulfm list) sts'.
     fault_injector_main (Some (WriteToFile readme_map)) net False 1 [1, 0] [3] (\<lambda>_. True) =
       Inr ([\<lparr>Queued_Rank = 2, WaitInterval = 3000000000\<rparr>], [([110, 49], ''kill -9 '' @ nat_string 1002)], Inr ()) \<and>
     world_ok [[0], [2, 1]] sts \<and> length sts' = 2 \<and> world_ok [[0], [1]] sts' \<and>
     rep_errhandler group_translate any_split readme_failure (rep_mpi_comm_world (node (sts ! 0))) (sts ! 0) = Inr (sts' ! 0) \<and>
     rep_errhandler group_translate any_split readme_failure (rep_mpi_comm_world (node (sts ! 1))) (sts ! 1) = Inr (sts' ! 1)"
proof -
  let ?host = "\<lambda>_ :: int. [110, 49] :: byte list" and ?pid = "\<lambda>r. 1000 + word_of_int r :: 32 word"
    and ?junk = "\<lambda>_ :: int. replicate 100 7 :: byte list" and ?p = "\<lparr>Queued_Rank = 2, WaitInterval = 3000000000\<rparr>"
  have d: "rank (node (demo_globals r)) = r" for r by (simp add: demo_globals_def process.defs demo_process_def heap.defs)
  have img: "(\<lambda>st. rank (node st)) ` set [demo_globals 2, demo_globals 0, demo_globals 1] = int ` {0..<3}"
    by (auto simp: d image_iff atLeast0LessThan lessThan_Suc numeral_3_eq_3)
  have nm: "named ?host ?junk" by (simp add: named_def HOSTNAME_LEN_def)
  obtain files' nm where net: "initNetworkMap (files' ''net'') = Inr nm" "\<forall>k < 3. nm (word_of_int (int k)) = Some (stat_of ?host ?pid ?junk (int k))"
    using network_map_of_stats [OF nm _ _ _ _ img, of "''net''" "\<lambda>_. None" ?pid] by (auto simp: file_bytes_def d)
  have "Start (\<lambda>_. True) nm [?p] = (map (\<lambda>p. (?host (Queued_Rank p), ''kill -9 '' @ nat_string (unat (?pid (Queued_Rank p))))) [?p], Inr ())"
    by (rule Start_kills [OF nm net(2)]) simp_all
  then have m: "fault_injector_main (Some (WriteToFile readme_map)) (files' ''net'') False 1 [1, 0] [3] (\<lambda>_. True) =
      Inr ([?p], [([110, 49], ''kill -9 '' @ nat_string 1002)], Inr ())"
    unfolding main_selects [OF readme_small] readme_injection by (simp add: net(1) del: Start.simps)
  obtain sts :: "ulfm list" where w: "length sts = 3" "world_ok [[0], [2, 1]] sts" using readme_world_ok by blast
  have r: "map ranks readme_map = [[0], [2, 1]]" "renames (world_translation group_translate readme_failure) 3 2"
    using readme_survivable by (simp_all add: readme_ranks survivable_def)
  have q: "\<forall>r < 3. world_translation group_translate readme_failure ! r = MPI_UNDEFINED \<longrightarrow> int r \<in> Queued_Rank ` set [?p]"
    by (simp add: readme_translation less_Suc_eq numeral_3_eq_3 MPI_UNDEFINED_def)
  have "\<exists>sts'. length sts' = 2 \<and>
     world_ok (map (\<lambda>j. survivors (world_translation group_translate readme_failure) (ranks j)) readme_map) sts' \<and>
     (\<forall>j \<in> set readme_map. survivors (world_translation group_translate readme_failure) (ranks j) \<noteq> []) \<and>
     (\<forall>r < length sts. int r \<notin> Queued_Rank ` set [?p] \<longrightarrow>
        rep_errhandler group_translate any_split readme_failure (rep_mpi_comm_world (node (sts ! r))) (sts ! r) =
        Inr (sts' ! nat (world_translation group_translate readme_failure ! r)))"
    by (rule injected_faults_are_survived [OF readme_small _ m]) (use w r q in \<open>simp_all add: readme_failure_def\<close>)
  then obtain sts' where s: "length sts' = 2"
      "world_ok (map (\<lambda>j. survivors (world_translation group_translate readme_failure) (ranks j)) readme_map) sts'"
      "\<And>r. r < 3 \<Longrightarrow> r \<noteq> 2 \<Longrightarrow> rep_errhandler group_translate any_split readme_failure (rep_mpi_comm_world (node (sts ! r))) (sts ! r) =
        Inr (sts' ! nat (world_translation group_translate readme_failure ! r))"
    using w(1) by auto
  have "map (\<lambda>j. survivors (world_translation group_translate readme_failure) (ranks j)) readme_map = [[0], [1]]"
    by (simp add: readme_map_def ranks_def survivors_def readme_translation MPI_UNDEFINED_def)
  then show ?thesis
    using m w(2) s(1,2) s(3) [of 0] s(3) [of 1] by (auto simp: readme_translation)
qed

end
