(* ===== verification/Logging.thy ===== *)
theory Logging
  imports Decimal Segments
begin

text \<open>
  \<open>src/misc/log.c\<close>: the two functions behind the macros \<open>log_e\<close>, \<open>log_i\<close>, \<open>debug_log_e\<close> and
  \<open>debug_log_i\<close>. They print the line into a buffer of 200 characters and hand it to \<open>vfprintf\<close> as
  a format. The theory says which lines fit into the buffer, and shows one of the library that
  does not.
\<close>

section \<open>The functions\<close>

definition KRED :: string where "KRED = CHR 0x1B # ''[31m''"
definition KGRN :: string where "KGRN = CHR 0x1B # ''[32m''"
definition KCYN :: string where "KCYN = CHR 0x1B # ''[36m''"
definition KNRM :: string where "KNRM = CHR 0x1B # ''[0m''"

text \<open>
  \<open>sprintf\<close> stores the characters and a terminating zero; more than 200 of them leave the
  buffer. \<open>vprint\<close> is what \<open>vfprintf\<close> prints for a format and the arguments of the call.
\<close>

definition log_e :: "(string \<Rightarrow> 'o) \<Rightarrow> string \<Rightarrow> int \<Rightarrow> string \<Rightarrow> 'a process_scheme \<Rightarrow> 'o result" where
  "log_e vprint module line message st =
     (let buffer = KRED @ ''ERROR: '' @ KCYN @ ''[Rank: '' @ int_string (static_rank (node st)) @ '']'' @ KNRM @
            '' | Message: '' @ message @ '' | Module: '' @ module @ '' | '' @ KCYN @ ''Line: '' @ int_string line @ KNRM @ [CHR 0x0A]
      in bindE (guardE (length buffer + 1 \<le> 200) Out_Of_Bounds) (\<lambda>_. Inr (vprint buffer)))"

definition log_i :: "(string \<Rightarrow> 'o) \<Rightarrow> string \<Rightarrow> int \<Rightarrow> string \<Rightarrow> 'a process_scheme \<Rightarrow> 'o result" where
  "log_i vprint module line message st =
     (let buffer = KGRN @ ''INFO: '' @ KCYN @ ''[Rank: '' @ int_string (static_rank (node st)) @ '']'' @ KNRM @
            '' | Message: '' @ message @ '' | Module: '' @ module @ '' | '' @ KCYN @ ''Line: '' @ int_string line @ KNRM @ [CHR 0x0A]
      in bindE (guardE (length buffer + 1 \<le> 200) Out_Of_Bounds) (\<lambda>_. Inr (vprint buffer)))"

section \<open>Lines that fit\<close>

lemma length_nat_string: "length (nat_string n) \<le> Suc k \<longleftrightarrow> n < 10 ^ Suc k"
proof (induction k arbitrary: n)
  case 0
  have "length (nat_string (n div 10)) > 0" by simp
  then show ?case by (simp add: nat_string.simps [of n] del: length_greater_0_conv)
next
  case (Suc k)
  have "n div 10 < 10 ^ Suc k \<longleftrightarrow> n < 10 ^ Suc (Suc k)" by (simp add: div_less_iff_less_mult)
  then show ?case
    using Suc [of "n div 10"] one_le_power [of "10::nat" k] by (auto simp: nat_string.simps [of n])
qed

text \<open>The room for message, file name, line number and rank together.\<close>

lemma log_fits:
  "(\<exists>y. log_e vprint module line message st = Inr y) \<longleftrightarrow>
     length message + length module + length (int_string line) + length (int_string (static_rank (node st))) \<le> 128"
  "(\<exists>y. log_i vprint module line message st = Inr y) \<longleftrightarrow>
     length message + length module + length (int_string line) + length (int_string (static_rank (node st))) \<le> 129"
  by (auto simp: log_e_def log_i_def Let_def KRED_def KGRN_def KCYN_def KNRM_def guardE_def)

text \<open>
  The text that \<open>parse_map_file\<close> logs in a build with \<open>DEBUG\<close> (\<open>comm.c\<close>, line 141), and the one
  about different stack addresses (\<open>stackseg.c\<close>, line 82).
\<close>

definition rep_file_update_message :: string where
  "rep_file_update_message =
     ''[Rep File Update] MyJobId: %d | Job ID: %d | Worker Count: %d | Worker 1: %d | Worker 2: %d | Checkpoint: %d''"

definition stack_mismatch_message :: string where
  "stack_mismatch_message = ''Compute and Replica Process Do not have same memory map. Stack High address differs''"

text \<open>
  C34: log lines overflow their buffer. In the build the README describes (directory \<open>build\<close>,
  so that the compiler sees \<open>../src/mpi/comm.c\<close>) with \<open>DEBUG\<close>, the line that \<open>parse_map_file\<close> prints
  for every job fits into the 200 characters exactly on the processes 0 to 9; from process 10
  on \<open>sprintf\<close> writes beyond the buffer. The longest error message of the library fits on every
  process whose rank has at most 14 digits, so on all of them.
\<close>

theorem log_line_overflows:
  "(log_i vprint ''../src/mpi/comm.c'' 141 rep_file_update_message (st\<lparr>node := (node st)\<lparr>static_rank := int r\<rparr>\<rparr>) = Inl Out_Of_Bounds \<longleftrightarrow> 10 \<le> r) \<and>
   ((\<exists>y. log_e vprint ''../src/replication/stackseg.c'' 82 stack_mismatch_message (st\<lparr>node := (node st)\<lparr>static_rank := int r\<rparr>\<rparr>) = Inr y)
     \<longleftrightarrow> r < 10 ^ 14)"
proof -
  have l: "length (int_string 141) = 3" "length (int_string 82) = 2"
    by (simp_all add: int_string_def nat_string.simps)
  let ?st = "st\<lparr>node := (node st)\<lparr>static_rank := int r\<rparr>\<rparr>"
  have r: "int_string (static_rank (node ?st)) = nat_string r" by (simp add: int_string_def)
  have d: "log_i vprint m k t ?st = Inl Out_Of_Bounds \<longleftrightarrow> \<not> (\<exists>y. log_i vprint m k t ?st = Inr y)" for m k t
    by (simp add: log_i_def Let_def guardE_def)
  have "length ''../src/mpi/comm.c'' = 17" "length rep_file_update_message = 108" by (simp_all add: rep_file_update_message_def)
  then have i: "log_i vprint ''../src/mpi/comm.c'' 141 rep_file_update_message ?st = Inl Out_Of_Bounds \<longleftrightarrow> 10 \<le> r"
    unfolding d log_fits r l using length_nat_string [of r 0] by auto
  have "length ''../src/replication/stackseg.c'' = 29" "length stack_mismatch_message = 83" by (simp_all add: stack_mismatch_message_def)
  then have "(\<exists>y. log_e vprint ''../src/replication/stackseg.c'' 82 stack_mismatch_message ?st = Inr y) \<longleftrightarrow> r < 10 ^ 14"
    unfolding log_fits r l using length_nat_string [of r 13] by auto
  with i show ?thesis by blast
qed

end
