(* ===== verification/Runs.thy ===== *)
theory Runs
  imports World
begin

text \<open>
  Runs of all processes together: a map is loaded, processes compute, send and receive, and any
  number of failures is survived. Every world such a run reaches is in agreement, and no message
  between its jobs is lost.
\<close>

section \<open>The runs\<close>

text \<open>
  \<open>world_run ws sts\<close>: a run has reached the states \<open>sts\<close>, with the workers \<open>ws\<close>. The steps are
  the load of the first map by all processes, a failure that leaves every job a worker, seen by
  all survivors in their error handler, one \<open>MPI_Send\<close> or \<open>MPI_Recv\<close> of one process during which
  nothing fails, and any computation of one process on its memory.
\<close>

inductive world_run :: "translation \<Rightarrow> splitter \<Rightarrow> int list list \<Rightarrow> 'a ulfm_scheme list \<Rightarrow> bool" for tln sp where
  load: "map_for (length sts') J jm \<Longrightarrow> list_all (\<lambda>j. Modified j = 1) jm \<Longrightarrow> length sts = length sts' \<Longrightarrow>
    \<forall>r < length sts'. ready_for (length sts') r (sts ! r) \<and> hears (length sts') (sts ! r) \<and>
      parse_map_file (Some (WriteToFile jm)) (sts ! r) = Inr (sts' ! r) \<Longrightarrow>
    world_run tln sp (map ranks jm) sts'"
| failure: "world_run tln sp ws sts \<Longrightarrow> survivable tln f ws (length sts) (length sts') \<Longrightarrow>
    \<forall>r < length sts. world_translation tln f ! r \<noteq> MPI_UNDEFINED \<longrightarrow>
      rep_errhandler tln sp f (rep_mpi_comm_world (node (sts ! r))) (sts ! r) = Inr (sts' ! nat (world_translation tln f ! r)) \<Longrightarrow>
    world_run tln sp (map (survivors (world_translation tln f)) ws) sts'"
| send: "world_run tln sp ws sts \<Longrightarrow> p < length sts \<Longrightarrow> b < length ws \<Longrightarrow> length as = length (ws ! b) \<Longrightarrow>
    list_all (\<lambda>x. astatus x = MPI_SUCCESS) as \<Longrightarrow>
    MPI_Send tln sp buf sz (int b) tag True as (sts ! p) = Inr (rc, msgs, rest, st') \<Longrightarrow> world_run tln sp ws (sts[p := st'])"
| recv: "world_run tln sp ws sts \<Longrightarrow> q < length sts \<Longrightarrow> a < length ws \<Longrightarrow> receive_buffer (sts ! q) buf (length d) \<Longrightarrow>
    length bs = length (ws ! a) \<Longrightarrow> list_all (\<lambda>x. astatus x = MPI_SUCCESS \<and> adata x = Some d) bs \<Longrightarrow>
    MPI_Recv tln sp buf (length d) (int a) tag True bs (sts ! q) = Inr (rc, posts, rest, st') \<Longrightarrow> world_run tln sp ws (sts[q := st'])"
| compute: "world_run tln sp ws sts \<Longrightarrow> p < length sts \<Longrightarrow> world_run tln sp ws (sts[p := (sts ! p)\<lparr>mem := m\<rparr>])"

section \<open>Agreement in every reachable world\<close>

lemma in_world_frame:
  "in_world ws n r st \<Longrightarrow> in_world ws n r (st\<lparr>mem := m, ignore_process_failure := 0\<rparr>)"
  "in_world ws n r st \<Longrightarrow> in_world ws n r (st\<lparr>ignore_process_failure := 0\<rparr>)"
  "in_world ws n r st \<Longrightarrow> in_world ws n r (st\<lparr>mem := m\<rparr>)"
  by (simp_all add: in_world_def tables_def)

lemma hears_frame [simp]:
  "hears n (st\<lparr>mem := m, ignore_process_failure := 0\<rparr>) = hears n st" "hears n (st\<lparr>ignore_process_failure := 0\<rparr>) = hears n st"
  "hears n (st\<lparr>mem := m\<rparr>) = hears n st"
  by (simp_all add: hears_def)

definition agreed :: "int list list \<Rightarrow> 'a ulfm_scheme list \<Rightarrow> bool" where
  "agreed ws sts \<longleftrightarrow> world_ok ws sts \<and> (\<forall>st \<in> set sts. hears (length sts) st)"

lemma agreed_update:
  assumes "agreed ws sts" and "p < length sts" and "in_world ws (length sts) p st'" and "hears (length sts) st'"
  shows "agreed ws (sts[p := st'])"
  using assms by (auto simp: agreed_def world_ok_def nth_list_update dest!: set_update_subset_insert [THEN subsetD])

lemma agreed_nth: "agreed ws sts \<Longrightarrow> p < length sts \<Longrightarrow> in_world ws (length sts) p (sts ! p) \<and> hears (length sts) (sts ! p)"
  by (simp add: agreed_def world_ok_def)

lemma agreed_covers: "agreed ws sts \<Longrightarrow> covers ws (length sts)"
  by (simp add: agreed_def world_ok_def)

lemma agreed_failure:
  assumes a: "agreed ws sts" and s: "survivable tln f ws (length sts) m" and l: "length sts' = m"
    and h: "\<forall>r < length sts. world_translation tln f ! r \<noteq> MPI_UNDEFINED \<longrightarrow>
      rep_errhandler tln sp f (rep_mpi_comm_world (node (sts ! r))) (sts ! r) = Inr (sts' ! nat (world_translation tln f ! r))"
  shows "agreed (map (survivors (world_translation tln f)) ws) sts'"
proof -
  let ?tr = "world_translation tln f"
  have w: "world_ok ws sts" using a by (simp add: agreed_def)
  obtain sts1 where s1: "length sts1 = m" "world_ok (map (survivors ?tr) ws) sts1" "\<forall>t < m. rep_mpi_comm_world (node (sts1 ! t)) = shrunk_dup f \<and> hears m (sts1 ! t)"
      "\<And>r. r < length sts \<Longrightarrow> ?tr ! r \<noteq> MPI_UNDEFINED \<Longrightarrow>
         rep_errhandler tln sp f (rep_mpi_comm_world (node (sts ! r))) (sts ! r) = Inr (sts1 ! nat (?tr ! r))"
    by (rule world_survives [OF w s, where sp = sp]) blast
  have "sts' = sts1"
  proof (rule nth_equalityI)
    fix t
    assume "t < length sts'"
    then obtain r where r: "r < length sts" "?tr ! r = int t" using s l by (auto simp: survivable_def renames_def)
    moreover from r(2) have "?tr ! r \<noteq> MPI_UNDEFINED" by (simp add: MPI_UNDEFINED_def)
    ultimately show "sts' ! t = sts1 ! t" using h s1(4) [of r] by auto
  qed (simp add: l s1(1))
  then show ?thesis using s1(1-3) by (auto simp: agreed_def in_set_conv_nth)
qed

lemma world_run_agreed: "world_run tln sp ws sts \<Longrightarrow> agreed ws sts"
proof (induction rule: world_run.induct)
  case (load sts' J jm sts)
  have "hears (length sts') (sts' ! r)" if r: "r < length sts'" for r
  proof -
    have "parse_map_file (Some (WriteToFile jm)) (sts ! r) = Inr (sts' ! r)" "hears (length sts') (sts ! r)"
      using load.hyps(4) r by simp_all
    then show ?thesis using parse_map_frame [of "Some (WriteToFile jm)" "sts ! r" "sts' ! r"] by (auto simp: hears_def)
  qed
  moreover have "world_ok (map ranks jm) sts'"
    by (rule loaded_world [OF load.hyps(1-3) refl]) (use load.hyps(4) in blast)
  ultimately show ?case by (auto simp: agreed_def in_set_conv_nth)
next
  case (failure ws sts f sts')
  then show ?case by (intro agreed_failure) auto
next
  case (send ws sts p b as buf sz tag rc msgs rest st')
  note i = agreed_nth [OF send.IH send.hyps(2)]
  obtain jb where jb: "live_job (sts ! p) (int b) jb" "nat (worker_count jb) = length (ws ! b)"
    using world_job [OF _ agreed_covers [OF send.IH] _ send.hyps(3)] i by metis
  then have "st' = (sts ! p)\<lparr>ignore_process_failure := 0\<rparr>"
    using MPI_Send_live [OF jb(1), of as tln sp buf sz tag "[]"] send.hyps(4-6) by simp
  then show ?case using i in_world_frame(2) by (intro agreed_update [OF send.IH send.hyps(2)]) auto
next
  case (recv ws sts q a buf d bs tag rc posts rest st')
  note i = agreed_nth [OF recv.IH recv.hyps(2)]
  obtain jb where jb: "live_job (sts ! q) (int a) jb" "nat (worker_count jb) = length (ws ! a)"
    using world_job [OF _ agreed_covers [OF recv.IH] _ recv.hyps(3)] i by metis
  then have "st' = (sts ! q)\<lparr>mem := write_bytes (mem (sts ! q)) (SET_RIGHT_R_BUFFER (sts ! q) buf) d, ignore_process_failure := 0\<rparr>"
    using MPI_Recv_live [OF jb(1) recv.hyps(4) refl, of bs tln sp tag "[]"] recv.hyps(5-7) by simp
  then show ?case using i in_world_frame(1) by (intro agreed_update [OF recv.IH recv.hyps(2)]) auto
next
  case (compute ws sts p m)
  then show ?case using agreed_nth [OF compute.IH compute.hyps(2)] in_world_frame(3)
    by (intro agreed_update) auto
qed

section \<open>Messages in every reachable world\<close>

text \<open>
  C19: no message is lost. In whatever world a run has reached, after any number of messages and
  failures, all workers of job \<open>a\<close> send the same bytes to job \<open>b\<close> and all workers of \<open>b\<close> receive
  from \<open>a\<close>, while nothing fails. Then every call returns success, every receiver has the bytes in
  its buffer, and the messages sent (from, to, tag) are exactly the receives posted, each once.
\<close>

theorem world_exchanges:
  assumes "world_run tln sp ws sts" and "a < length ws" and "b < length ws"
    and "\<forall>p \<in> set (ws ! a). read_bytes (mem (sts ! nat p)) (SET_RIGHT_S_BUFFER (sts ! nat p) sbuf) sz = d"
    and "\<forall>q \<in> set (ws ! b). receive_buffer (sts ! nat q) rbuf sz"
    and "length as = length (ws ! b)" and "list_all (\<lambda>x. astatus x = MPI_SUCCESS) as"
    and "length bs = length (ws ! a)" and "list_all (\<lambda>x. astatus x = MPI_SUCCESS \<and> adata x = Some d) bs"
  shows "\<exists>msgs posts.
     (\<forall>p \<in> set (ws ! a). \<exists>s'. MPI_Send tln sp sbuf sz (int b) tag True as (sts ! nat p) = Inr (Some MPI_SUCCESS, msgs p, [], s')) \<and>
     (\<forall>q \<in> set (ws ! b). \<exists>r'. MPI_Recv tln sp rbuf sz (int a) tag True bs (sts ! nat q) = Inr (Some MPI_SUCCESS, posts q, [], r') \<and>
        read_bytes (mem r') (SET_RIGHT_R_BUFFER (sts ! nat q) rbuf) sz = d) \<and>
     mset (concat (map (\<lambda>p. map (\<lambda>(q, t, _). (p, q, t)) (msgs p)) (ws ! a))) =
     mset (concat (map (\<lambda>q. map (\<lambda>(p, t). (p, q, t)) (posts q)) (ws ! b)))"
proof -
  have "world_ok ws sts" "\<forall>st \<in> set sts. hears (length sts) st" using world_run_agreed [OF assms(1)] by (simp_all add: agreed_def)
  from exchange [OF this assms(2-9)] show ?thesis .
qed

text \<open>
  The README's world after the death of process 2: job 0 sends to the worker that job 1 has left.
\<close>

lemma readme_run:
  obtains sts :: "ulfm list" where "length sts = 2" "world_run group_translate any_split [[0], [1]] sts" "receive_buffer (sts ! 1) 64 2"
proof -
  obtain sts sts' :: "ulfm list" where l: "length sts = 3" "length sts' = 3"
      "\<forall>r < 3. ready_for 3 r (sts ! r) \<and> hears 3 (sts ! r) \<and> parse_map_file (Some (WriteToFile readme_map)) (sts ! r) = Inr (sts' ! r)"
    using readme_loads by blast
  have "world_run group_translate any_split (map ranks readme_map) sts'"
    by (rule world_run.load [where J = 2 and sts = sts]) (use l readme_sane(2) readme_ranks(2) in simp_all)
  then have run: "world_run group_translate any_split [[0], [2, 1]] sts'" unfolding readme_ranks(1) .
  then have ok: "world_ok [[0], [2, 1]] sts'" using world_run_agreed by (auto simp: agreed_def)
  have s: "survivable group_translate readme_failure [[0], [2, 1]] (length sts') 2" using l(2) readme_survivable by simp
  obtain sts2 where s2: "length sts2 = 2" "\<And>r. r < length sts' \<Longrightarrow> world_translation group_translate readme_failure ! r \<noteq> MPI_UNDEFINED \<Longrightarrow>
      rep_errhandler group_translate any_split readme_failure (rep_mpi_comm_world (node (sts' ! r))) (sts' ! r) =
      Inr (sts2 ! nat (world_translation group_translate readme_failure ! r))"
    by (rule world_survives [OF ok s, where sp = any_split]) blast
  have "world_run group_translate any_split (map (survivors (world_translation group_translate readme_failure)) [[0], [2, 1]]) sts2"
    by (rule world_run.failure [OF run]) (use s s2 in simp_all)
  moreover have "map (survivors (world_translation group_translate readme_failure)) [[0], [2, 1]] = [[0], [1]]"
    by (simp add: survivors_def readme_translation MPI_UNDEFINED_def)
  ultimately have r2: "world_run group_translate any_split [[0], [1]] sts2" by simp
  let ?m = "write_bytes (\<lambda>_. 0) 64 (enc_addr 4096)"
  have "receive_buffer ((sts2 ! 1)\<lparr>mem := ?m\<rparr>) 64 2"
    by (simp add: receive_buffer_def SET_RIGHT_R_BUFFER_def load_addr_def read_write_bytes enc_simps apart_def)
  then show ?thesis using that [of "sts2[1 := (sts2 ! 1)\<lparr>mem := ?m\<rparr>]"] world_run.compute [OF r2, of 1 ?m] s2(1) by simp
qed

theorem world_exchanges_witness:
  "\<exists>(sts :: ulfm list) d msgs posts s' r'. world_run group_translate any_split [[0], [1]] sts \<and> length d = 2 \<and>
     MPI_Send group_translate any_split 64 2 1 7 True [quiet_answer None] (sts ! 0) = Inr (Some MPI_SUCCESS, msgs, [], s') \<and>
     MPI_Recv group_translate any_split 64 2 0 7 True [quiet_answer (Some d)] (sts ! 1) = Inr (Some MPI_SUCCESS, posts, [], r') \<and>
     read_bytes (mem r') (SET_RIGHT_R_BUFFER (sts ! 1) 64) 2 = d \<and>
     mset (map (\<lambda>(q, t, _). (0, q, t)) msgs) = mset (map (\<lambda>(p, t). (p, 1, t)) posts)"
proof -
  obtain sts :: "ulfm list" where w: "length sts = 2" "world_run group_translate any_split [[0], [1]] sts" "receive_buffer (sts ! 1) 64 2"
    by (rule readme_run)
  let ?d = "read_bytes (mem (sts ! 0)) (SET_RIGHT_S_BUFFER (sts ! 0) 64) 2" and ?ws = "[[0], [1]] :: int list list"
  have "\<exists>msgs posts.
     (\<forall>p \<in> set (?ws ! 0). \<exists>s'. MPI_Send group_translate any_split 64 2 (int 1) 7 True [quiet_answer None] (sts ! nat p) =
        Inr (Some MPI_SUCCESS, msgs p, [], s')) \<and>
     (\<forall>q \<in> set (?ws ! 1). \<exists>r'. MPI_Recv group_translate any_split 64 2 (int 0) 7 True [quiet_answer (Some ?d)] (sts ! nat q) =
        Inr (Some MPI_SUCCESS, posts q, [], r') \<and> read_bytes (mem r') (SET_RIGHT_R_BUFFER (sts ! nat q) 64) 2 = ?d) \<and>
     mset (concat (map (\<lambda>p. map (\<lambda>(q, t, _). (p, q, t)) (msgs p)) (?ws ! 0))) =
     mset (concat (map (\<lambda>q. map (\<lambda>(p, t). (p, q, t)) (posts q)) (?ws ! 1)))"
    by (rule world_exchanges [OF w(2)]) (simp_all add: w(3) w(3) [simplified] quiet_answer_def MPI_SUCCESS_def)
  then obtain msgs posts s' r' where
      "MPI_Send group_translate any_split 64 2 1 7 True [quiet_answer None] (sts ! 0) = Inr (Some MPI_SUCCESS, msgs 0, [], s')"
      "MPI_Recv group_translate any_split 64 2 0 7 True [quiet_answer (Some ?d)] (sts ! 1) = Inr (Some MPI_SUCCESS, posts 1, [], r')"
      "read_bytes (mem r') (SET_RIGHT_R_BUFFER (sts ! 1) 64) 2 = ?d"
      "mset (map (\<lambda>(q, t, _). (0, q, t)) (msgs 0)) = mset (map (\<lambda>(p, t). (p, 1, t)) (posts 1))"
    by auto
  moreover have "length ?d = 2" by simp
  ultimately show ?thesis using w(2) by blast
qed

end
