(* ===== verification/Endings.thy ===== *)
theory Endings
  imports Collectives
begin

text \<open>
  The collective operations come to an end. Their loops repeat while the library reports
  failures or other processes ask for a repetition; the theory bounds the number of library
  calls by the number of such answers.
\<close>

section \<open>Calls ask for no further answers\<close>

lemma call_on_answers: "call_on tln sp comm a st \<noteq> Inl Short_Input"
  by (simp add: call_on_def handler_answers)

lemma agree_answers: "MPI_Comm_agree tln sp flag a st \<noteq> Inl Short_Input"
  by (auto simp: MPI_Comm_agree_def bindE_Inl_iff handler_answers call_on_answers)

section \<open>What the remaining answers are worth\<close>

text \<open>
  The answers that make a loop repeat: errors, and agreements in which another process did not
  pass \<open>v\<close> (1, or -1 in \<open>MPI_Reduce\<close>). A pass of a loop that is repeated consumes one of these or a
  pending shrink, which a failure has left behind; \<open>credit\<close> charges them in advance.
\<close>

definition bads :: "int \<Rightarrow> answer list \<Rightarrow> nat" where
  "bads v tr = length (filter (\<lambda>a. astatus a \<noteq> MPI_SUCCESS \<or> aflag a \<noteq> v) tr)"

definition credit :: "int \<Rightarrow> answer list \<Rightarrow> 'a ulfm_scheme \<Rightarrow> int" where
  "credit v tr st = int (length tr) - 7 * int (bads v tr) - (if process_shrinking_pending st = 0 then 0 else 3)"

lemma credit_Nil: "credit v [] st \<le> 0"
  by (simp add: credit_def bads_def)

lemma credit_call:
  assumes "call_on tln sp comm a st = Inr st1"
  shows "credit v (a # tr) st - 1 \<le> credit v tr st1" "astatus a \<noteq> MPI_SUCCESS \<Longrightarrow> credit v (a # tr) st + 3 \<le> credit v tr st1"
  using assms by (auto simp: call_on_def credit_def bads_def)

lemma credit_agree:
  assumes "MPI_Comm_agree tln sp flag a st = Inr (s, flag1, st1)"
  shows "s = MPI_SUCCESS \<Longrightarrow> credit v (a # tr) st - 1 \<le> credit v tr st1"
    "s = MPI_SUCCESS \<Longrightarrow> flag = v \<Longrightarrow> flag1 \<noteq> v \<Longrightarrow> credit v (a # tr) st + 3 \<le> credit v tr st1"
    "s \<noteq> MPI_SUCCESS \<Longrightarrow> credit v (a # tr) st + 2 \<le> credit v tr st1"
    "s \<noteq> MPI_SUCCESS \<Longrightarrow> flag = v \<Longrightarrow> flag1 \<noteq> v \<Longrightarrow> credit v (a # tr) st + 3 \<le> credit v tr st1"
  using assms
  by (auto simp: MPI_Comm_agree_def call_on_def credit_def bads_def bindE_eq_Inr_iff MPI_SUCCESS_def split: if_splits)

lemma agree_loop_ends:
  "agree_loop tln sp flag tr st = Inr (flag1, tr1, st1) \<Longrightarrow>
     credit v tr st - 1 \<le> credit v tr1 st1 \<and> (flag = v \<and> flag1 \<noteq> v \<longrightarrow> credit v tr st + 1 \<le> credit v tr1 st1)"
  "1 \<le> credit v tr st \<Longrightarrow> agree_loop tln sp flag tr st \<noteq> Inl Short_Input"
proof (induction tr arbitrary: flag st)
  case Nil
  case 1
  then show ?case by simp
next
  case Nil
  case 2
  then show ?case using credit_Nil [of v st] by simp
next
  case (Cons a tr)
  case 1
  then obtain s flag' st' where a: "MPI_Comm_agree tln sp flag a st = Inr (s, flag', st')"
      "(if s \<noteq> MPI_SUCCESS then agree_loop tln sp flag' tr st' else Inr (flag', tr, st')) = Inr (flag1, tr1, st1)"
    by (auto simp: bindE_eq_Inr_iff)
  note c = credit_agree [OF a(1), of v tr]
  show ?case
  proof (cases "s = MPI_SUCCESS")
    case True
    then show ?thesis using a(2) c(1,2) by auto
  next
    case False
    then have l: "agree_loop tln sp flag' tr st' = Inr (flag1, tr1, st1)" using a(2) by simp
    show ?thesis using Cons.IH(1) [OF l] c(3) [OF False] c(4) [OF False] by (cases "flag' = v") auto
  qed
next
  case (Cons a tr)
  case 2
  show ?case
  proof
    assume "agree_loop tln sp flag (a # tr) st = Inl Short_Input"
    then obtain s flag' st' where a: "MPI_Comm_agree tln sp flag a st = Inr (s, flag', st')"
        "s \<noteq> MPI_SUCCESS" "agree_loop tln sp flag' tr st' = Inl Short_Input"
      by (auto simp: bindE_Inl_iff agree_answers split: if_splits)
    then show False using Cons.IH(2) credit_agree(3) [OF a(1,2), of v tr] 2 by simp
  qed
qed

lemma do_comm_agree_ends:
  "do_comm_agree tln sp flag bkup tr st = Inr (flag1, bkup1, tr1, st1) \<Longrightarrow>
     credit v tr st - 1 \<le> credit v tr1 st1 \<and> (flag = v \<and> flag1 \<noteq> v \<longrightarrow> credit v tr st + 1 \<le> credit v tr1 st1)"
  "1 \<le> credit v tr st \<Longrightarrow> do_comm_agree tln sp flag bkup tr st \<noteq> Inl Short_Input"
proof (induction tr arbitrary: flag bkup st)
  case Nil
  case 1
  then show ?case by simp
next
  case Nil
  case 2
  then show ?case using credit_Nil [of v st] by simp
next
  case (Cons a tr)
  case 1
  then obtain s flag' st' where a: "MPI_Comm_agree tln sp flag a st = Inr (s, flag', st')"
      "(if s \<noteq> MPI_SUCCESS
        then (if bkup \<noteq> node_checkpoint_master (node st')
              then do_comm_agree tln sp (static_rank (node st')) (node_checkpoint_master (node st')) tr st'
              else do_comm_agree tln sp flag' bkup tr st')
        else Inr (flag', bkup, tr, st')) = Inr (flag1, bkup1, tr1, st1)"
    by (auto simp: bindE_eq_Inr_iff)
  note c = credit_agree [OF a(1), of v tr]
  show ?case
  proof (cases "s = MPI_SUCCESS")
    case True
    then show ?thesis using a(2) c(1,2) by auto
  next
    case False
    then obtain flag2 bkup2 where "do_comm_agree tln sp flag2 bkup2 tr st' = Inr (flag1, bkup1, tr1, st1)"
      using a(2) by (auto split: if_splits)
    from Cons.IH(1) [OF this] show ?thesis using c(3) [OF False] by auto
  qed
next
  case (Cons a tr)
  case 2
  show ?case
  proof
    assume "do_comm_agree tln sp flag bkup (a # tr) st = Inl Short_Input"
    then obtain s flag' st' flag2 bkup2 where a: "MPI_Comm_agree tln sp flag a st = Inr (s, flag', st')"
        "s \<noteq> MPI_SUCCESS" "do_comm_agree tln sp flag2 bkup2 tr st' = Inl Short_Input"
      by (auto simp: bindE_Inl_iff agree_answers split: if_splits)
    then show False using Cons.IH(2) credit_agree(3) [OF a(1,2), of v tr] 2 by simp
  qed
qed

section \<open>The loops\<close>

text \<open>One call and the agreement after it: at most two of the credit, none if the pass is repeated.\<close>

lemma pass_ends:
  assumes c: "call_on tln sp comm a st = Inr st0"
  shows "2 \<le> credit 1 (a # tr) st \<Longrightarrow> agree_loop tln sp (if astatus a = MPI_SUCCESS then 1 else 0) tr st0 \<noteq> Inl Short_Input"
    and "agree_loop tln sp (if astatus a = MPI_SUCCESS then 1 else 0) tr st0 = Inr (flag, tr1, st1) \<Longrightarrow>
      credit 1 (a # tr) st - 2 \<le> credit 1 tr1 st1 \<and> (flag = 0 \<longrightarrow> credit 1 (a # tr) st \<le> credit 1 tr1 st1)"
proof -
  note k = credit_call [OF c, of 1 tr]
  show "agree_loop tln sp (if astatus a = MPI_SUCCESS then 1 else 0) tr st0 \<noteq> Inl Short_Input" if "2 \<le> credit 1 (a # tr) st"
    using k(1) that by (intro agree_loop_ends(2) [where v = 1]) simp
  assume g: "agree_loop tln sp (if astatus a = MPI_SUCCESS then 1 else 0) tr st0 = Inr (flag, tr1, st1)"
  show "credit 1 (a # tr) st - 2 \<le> credit 1 tr1 st1 \<and> (flag = 0 \<longrightarrow> credit 1 (a # tr) st \<le> credit 1 tr1 st1)"
    using k agree_loop_ends(1) [OF g, of 1] by (cases "astatus a = MPI_SUCCESS") auto
qed

lemma bcast_loop_ends:
  "bcast_loop tln sp bytes rbuf tr st = Inr (flag, ms, b, tr1, st1) \<Longrightarrow> credit 1 tr st - 2 \<le> credit 1 tr1 st1"
  "2 \<le> credit 1 tr st \<Longrightarrow> bcast_loop tln sp bytes rbuf tr st \<noteq> Inl Short_Input"
proof (induction "length tr" arbitrary: rbuf tr st rule: less_induct)
  case less
  case 1
  then obtain a tr0 where tr: "tr = a # tr0" by (cases tr) auto
  obtain st0 flag1 tr2 st2 where s: "call_on tln sp world_job_comm a st = Inr st0"
      "agree_loop tln sp (if astatus a = MPI_SUCCESS then 1 else 0) tr0 st0 = Inr (flag1, tr2, st2)"
    and r: "(if flag1 = 0
       then bindE (is_failed_node_world_job_comm_root tln st2) (\<lambda>r.
              if r \<noteq> 0 then Inr (0, astatus a, put (bytes (node st)) a rbuf, tr2, st2)
              else bcast_loop tln sp bytes (put (bytes (node st)) a rbuf) tr2 st2)
       else Inr (flag1, astatus a, put (bytes (node st)) a rbuf, tr2, st2)) = Inr (flag, ms, b, tr1, st1)"
    using 1 unfolding tr by (auto simp: bindE_eq_Inr_iff Let_def)
  have "length tr2 < length tr" using agree_loop_shorter [OF s(2)] tr by simp
  note IH = less(1) [OF this, of "put (bytes (node st)) a rbuf" st2]
  show ?case
    using pass_ends(2) [OF s] r IH unfolding tr by (auto simp: bindE_eq_Inr_iff split: if_splits)
next
  case less
  case 2
  then obtain a tr0 where tr: "tr = a # tr0" using credit_Nil [of 1 st] by (cases tr) auto
  show ?case
  proof
    assume e: "bcast_loop tln sp bytes rbuf tr st = Inl Short_Input"
    obtain st0 where c: "call_on tln sp world_job_comm a st = Inr st0"
      using e unfolding tr by (cases "call_on tln sp world_job_comm a st") (auto simp: Let_def call_on_answers)
    note ne = pass_ends(1) [OF c, of tr0] 2 [unfolded tr]
    obtain flag1 tr2 st2 where g: "agree_loop tln sp (if astatus a = MPI_SUCCESS then 1 else 0) tr0 st0 = Inr (flag1, tr2, st2)"
      using e ne c unfolding tr
      by (cases "agree_loop tln sp (if astatus a = MPI_SUCCESS then 1 else 0) tr0 st0") (auto simp: Let_def)
    have "length tr2 < length tr" using agree_loop_shorter [OF g] tr by simp
    note IH = less(2) [OF this, of st2 "put (bytes (node st)) a rbuf"]
    show False
      using e c g IH pass_ends(2) [OF c g] 2 unfolding tr
      by (auto simp: Let_def bindE_Inl_iff root_test_answers split: if_splits)
  qed
qed

text \<open>The main call, which only some processes make.\<close>

lemma main_call_ends:
  "1 \<le> credit v tr st \<Longrightarrow>
    (if c then (case tr of [] \<Rightarrow> Inl Short_Input
      | a # tr1 \<Rightarrow> bindE (call_on tln sp comm a st) (\<lambda>st0. Inr (astatus a, g a, tr1, st0))) else Inr (ms0, b0, tr, st)) \<noteq> Inl Short_Input"
  "(if c then (case tr of [] \<Rightarrow> Inl Short_Input
      | a # tr1 \<Rightarrow> bindE (call_on tln sp comm a st) (\<lambda>st0. Inr (astatus a, g a, tr1, st0))) else Inr (ms0, b0, tr, st)) = Inr (ms, b, tr2, st2) \<Longrightarrow>
    credit v tr st - 1 \<le> credit v tr2 st2 \<and> (c \<and> ms \<noteq> MPI_SUCCESS \<longrightarrow> credit v tr st + 3 \<le> credit v tr2 st2) \<and>
    (\<not> c \<longrightarrow> ms = ms0 \<and> credit v tr2 st2 = credit v tr st)"
  using credit_Nil [of v st] credit_call [of tln sp comm _ st st2 v tr2]
  by (auto simp: bindE_Inl_iff bindE_eq_Inr_iff call_on_answers split: list.splits if_splits)

lemma collective_loop_ends:
  "4 * (int NO_TRIALS - 1 - int t) \<le> credit 1 tr st \<Longrightarrow>
     collective_loop tln sp reset main bytes t ms rbuf tr st \<noteq> Inl Short_Input"
proof (induction "NO_TRIALS - t" arbitrary: t ms rbuf tr st rule: less_induct)
  case less
  show ?case
  proof
    assume e: "collective_loop tln sp reset main bytes t ms rbuf tr st = Inl Short_Input"
    note run = e [unfolded collective_loop.simps [of tln sp reset main bytes t ms rbuf tr st]]
    have t: "\<not> NO_TRIALS \<le> t + 1" using run by auto
    then have c: "4 \<le> credit 1 tr st" "4 * (int NO_TRIALS - 1 - int (t + 1)) \<le> credit 1 tr st - 4" using less.prems by simp_all
    let ?m = "if active_comm (node st) \<noteq> MPI_COMM_NULL
      then (case tr of [] \<Rightarrow> Inl Short_Input
            | a # tr1 \<Rightarrow> bindE (call_on tln sp active_comm a st) (\<lambda>st0. Inr (astatus a, put (main (node st)) a rbuf, tr1, st0)))
      else Inr (if reset then MPI_SUCCESS else ms, rbuf, tr, st)"
    have IH: "collective_loop tln sp reset main bytes (t + 1) ms' b tr' st' \<noteq> Inl Short_Input"
      if "credit 1 tr st - 4 \<le> credit 1 tr' st'" for ms' b tr' and st' :: "'a ulfm_scheme"
      using t c(2) that by (intro less(1)) auto
    have "?m \<noteq> Inl Short_Input" using c(1) by (intro main_call_ends(1) [where v = 1]) simp
    then obtain ms1 b1 tr1 st0 where m: "?m = Inr (ms1, b1, tr1, st0)" using run t by (cases ?m) auto
    have c1: "credit 1 tr st - 1 \<le> credit 1 tr1 st0" using main_call_ends(2) [OF m, of 1] by blast
    let ?a = "agree_loop tln sp (if ms1 = MPI_SUCCESS then 1 else 0) tr1 st0"
    have "?a \<noteq> Inl Short_Input" using c1 c(1) by (intro agree_loop_ends(2) [where v = 1]) simp
    then obtain flag tr2 st1 where a: "?a = Inr (flag, tr2, st1)" using run t m by (cases ?a) auto
    have c2: "credit 1 tr st - 2 \<le> credit 1 tr2 st1" using agree_loop_ends(1) [OF a, of 1] c1 by simp
    show False
    proof (cases "flag = 0")
      case True
      then show ?thesis using run t m a IH [of tr2 st1] c2 by simp
    next
      case False
      have "bcast_loop tln sp bytes b1 tr2 st1 \<noteq> Inl Short_Input" using c2 c(1) by (intro bcast_loop_ends(2)) simp
      then obtain flag1 ms2 b2 tr3 st2 where b: "bcast_loop tln sp bytes b1 tr2 st1 = Inr (flag1, ms2, b2, tr3, st2)"
        using run t m a False by (cases "bcast_loop tln sp bytes b1 tr2 st1") auto
      have "credit 1 tr st - 4 \<le> credit 1 tr3 st2" using bcast_loop_ends(1) [OF b] c2 by simp
      then show ?thesis using run t m a b False IH [of tr3 st2] by (simp split: if_splits)
    qed
  qed
qed

lemma bcast_trials_ends:
  "2 * (int NO_TRIALS - 1 - int t) \<le> credit 1 tr st \<Longrightarrow> bcast_trials tln sp n root t buf tr st \<noteq> Inl Short_Input"
proof (induction "NO_TRIALS - t" arbitrary: t buf tr st rule: less_induct)
  case less
  show ?case
  proof
    assume e: "bcast_trials tln sp n root t buf tr st = Inl Short_Input"
    note run = e [unfolded bcast_trials.simps [of tln sp n root t buf tr st]]
    have t: "\<not> NO_TRIALS \<le> t + 1" using run by auto
    then have c: "2 \<le> credit 1 tr st" "2 * (int NO_TRIALS - 1 - int (t + 1)) \<le> credit 1 tr st - 2" using less.prems by simp_all
    then obtain a tr1 where tr: "tr = a # tr1" using credit_Nil [of 1 st] by (cases tr) auto
    obtain st0 where s: "call_on tln sp rep_mpi_comm_world a st = Inr st0"
      using run t unfolding tr by (cases "call_on tln sp rep_mpi_comm_world a st") (auto simp: bindE_Inl_iff access_answers call_on_answers)
    let ?a = "agree_loop tln sp (if astatus a = MPI_SUCCESS then 1 else 0) tr1 st0"
    have "?a \<noteq> Inl Short_Input" using pass_ends(1) [OF s] c(1) tr by simp
    then obtain flag tr2 st1 where g: "?a = Inr (flag, tr2, st1)"
      using run t s unfolding tr by (cases ?a) (auto simp: bindE_Inl_iff access_answers)
    have "bcast_trials tln sp n root (t + 1) b tr2 st1 \<noteq> Inl Short_Input" for b
      using t c(2) pass_ends(2) [OF s g] tr by (intro less(1)) auto
    then show False using run t s g unfolding tr by (auto simp: bindE_Inl_iff access_answers split: if_splits)
  qed
qed

text \<open>The same in \<open>MPI_Reduce\<close>, whose agreements are on -1.\<close>

lemma reduce_pass:
  fixes st :: "'a ulfm_scheme"
  assumes "reduce_bcast_loop tln sp n root flag0 bkup rbuf tr st = x" and "x \<noteq> Inl Short_Input \<or> 2 \<le> credit (-1) tr st"
  obtains (stops) e where "x = Inl e" "e \<noteq> Short_Input"
  | (goes) flag1 ms1 bk1 b1 tr2 and st2 :: "'a ulfm_scheme" where "length tr2 < length tr" "credit (-1) tr st - 2 \<le> credit (-1) tr2 st2"
      "flag1 \<noteq> -1 \<longrightarrow> credit (-1) tr st \<le> credit (-1) tr2 st2"
      "(if flag1 \<noteq> -1
      then bindE (is_failed_node_world_job_comm_root tln st2) (\<lambda>r.
             if r \<noteq> 0 then Inr (flag1, ms1, bk1, b1, tr2, st2)
             else reduce_bcast_loop tln sp n root flag1 bk1 b1 tr2 st2)
      else Inr (flag1, ms1, bk1, b1, tr2, st2)) = x"
proof -
  let ?m = "if job_id (node st) = root
    then (case tr of [] \<Rightarrow> Inl Short_Input
          | a # tr1 \<Rightarrow> bindE (call_on tln sp world_job_comm a st) (\<lambda>st0. Inr (astatus a, put n a rbuf, tr1, st0)))
    else Inr (MPI_SUCCESS, rbuf, tr, st)"
  let ?a = "\<lambda>ms1 tr1 st0. do_comm_agree tln sp (if ms1 = MPI_SUCCESS then -1 else flag0) bkup tr1 st0"
  note run = assms(1) [unfolded reduce_bcast_loop.simps [of tln sp n root flag0 bkup rbuf tr st]]
  show ?thesis
  proof (cases ?m)
    case (Inl e)
    then have "x = Inl e" using run by simp
    moreover have "2 \<le> credit (-1) tr st \<Longrightarrow> ?m \<noteq> Inl Short_Input" by (intro main_call_ends(1) [where v = "-1"]) simp
    ultimately show ?thesis using assms(2) Inl stops by auto
  next
    case (Inr y)
    then obtain ms1 b1 tr1 st0 where m: "?m = Inr (ms1, b1, tr1, st0)" by (cases y) auto
    have c: "credit (-1) tr st - 1 \<le> credit (-1) tr1 st0" using main_call_ends(2) [OF m, of "-1"] by blast
    show ?thesis
    proof (cases "?a ms1 tr1 st0")
      case (Inl e)
      then have "x = Inl e" using run m by simp
      moreover have "2 \<le> credit (-1) tr st \<Longrightarrow> ?a ms1 tr1 st0 \<noteq> Inl Short_Input"
        using c by (intro do_comm_agree_ends(2) [where v = "-1"]) simp
      ultimately show ?thesis using assms(2) Inl stops by auto
    next
      case (Inr z)
      then obtain flag1 bk1 tr2 st2 where a: "?a ms1 tr1 st0 = Inr (flag1, bk1, tr2, st2)" by (cases z) auto
      have "length tr2 < length tr"
        using do_comm_agree_shorter [OF a] m by (auto simp: bindE_eq_Inr_iff split: if_splits list.splits)
      moreover have "credit (-1) tr st - 2 \<le> credit (-1) tr2 st2 \<and> (flag1 \<noteq> -1 \<longrightarrow> credit (-1) tr st \<le> credit (-1) tr2 st2)"
        using main_call_ends(2) [OF m, of "-1"] do_comm_agree_ends(1) [OF a, of "-1"]
        by (cases "ms1 = MPI_SUCCESS"; cases "job_id (node st) = root") auto
      moreover have "(if flag1 \<noteq> -1
      then bindE (is_failed_node_world_job_comm_root tln st2) (\<lambda>r.
             if r \<noteq> 0 then Inr (flag1, ms1, bk1, b1, tr2, st2)
             else reduce_bcast_loop tln sp n root flag1 bk1 b1 tr2 st2)
      else Inr (flag1, ms1, bk1, b1, tr2, st2)) = x"
        using run m a by simp
      ultimately show ?thesis using goes by blast
    qed
  qed
qed

lemma reduce_bcast_loop_ends:
  "reduce_bcast_loop tln sp n root flag0 bkup rbuf tr st = Inr (flag, ms, bk, b, tr1, st1) \<Longrightarrow> credit (-1) tr st - 2 \<le> credit (-1) tr1 st1"
  "2 \<le> credit (-1) tr st \<Longrightarrow> reduce_bcast_loop tln sp n root flag0 bkup rbuf tr st \<noteq> Inl Short_Input"
proof (induction "length tr" arbitrary: flag0 bkup rbuf tr st rule: less_induct)
  case less
  case 1
  show ?case
  proof (rule reduce_pass [OF 1], simp)
    fix flag1 ms1 bk1 b1 tr2 and st2 :: "'a ulfm_scheme"
    assume p: "length tr2 < length tr" "credit (-1) tr st - 2 \<le> credit (-1) tr2 st2"
      "flag1 \<noteq> -1 \<longrightarrow> credit (-1) tr st \<le> credit (-1) tr2 st2"
      "(if flag1 \<noteq> -1
      then bindE (is_failed_node_world_job_comm_root tln st2) (\<lambda>r.
             if r \<noteq> 0 then Inr (flag1, ms1, bk1, b1, tr2, st2)
             else reduce_bcast_loop tln sp n root flag1 bk1 b1 tr2 st2)
      else Inr (flag1, ms1, bk1, b1, tr2, st2)) = Inr (flag, ms, bk, b, tr1, st1)"
    show ?thesis using p(2-4) less(1) [OF p(1), of flag1 bk1 b1 st2] by (auto simp: bindE_eq_Inr_iff split: if_splits)
  qed simp
next
  case less
  case 2
  show ?case
  proof
    assume e: "reduce_bcast_loop tln sp n root flag0 bkup rbuf tr st = Inl Short_Input"
    show False
    proof (rule reduce_pass [OF e])
      fix flag1 ms1 bk1 b1 tr2 and st2 :: "'a ulfm_scheme"
      assume p: "length tr2 < length tr" "flag1 \<noteq> -1 \<longrightarrow> credit (-1) tr st \<le> credit (-1) tr2 st2"
        "(if flag1 \<noteq> -1
      then bindE (is_failed_node_world_job_comm_root tln st2) (\<lambda>r.
             if r \<noteq> 0 then Inr (flag1, ms1, bk1, b1, tr2, st2)
             else reduce_bcast_loop tln sp n root flag1 bk1 b1 tr2 st2)
      else Inr (flag1, ms1, bk1, b1, tr2, st2)) = Inl Short_Input"
      show False using p(2,3) less(2) [OF p(1), of st2 flag1 bk1 b1] 2 by (auto simp: bindE_Inl_iff root_test_answers split: if_splits)
    qed (use 2 in simp_all)
  qed
qed

lemma reduce_loop_ends:
  "4 * (int NO_TRIALS - 1 - int t) \<le> credit (-1) tr st \<Longrightarrow> reduce_loop tln sp n root t flag0 ms bkup rbuf tr st \<noteq> Inl Short_Input"
proof (induction "NO_TRIALS - t" arbitrary: t flag0 ms bkup rbuf tr st rule: less_induct)
  case less
  show ?case
  proof
    assume e: "reduce_loop tln sp n root t flag0 ms bkup rbuf tr st = Inl Short_Input"
    note run = e [unfolded reduce_loop.simps [of tln sp n root t flag0 ms bkup rbuf tr st]]
    have t: "\<not> NO_TRIALS \<le> t + 1" using run by auto
    then have c: "4 \<le> credit (-1) tr st" "4 * (int NO_TRIALS - 1 - int (t + 1)) \<le> credit (-1) tr st - 4" using less.prems by simp_all
    let ?m = "if active_comm (node st) \<noteq> MPI_COMM_NULL
      then (case tr of [] \<Rightarrow> Inl Short_Input
            | a # tr1 \<Rightarrow> bindE (call_on tln sp active_comm a st) (\<lambda>st0. Inr (astatus a, put n a rbuf, tr1, st0)))
      else Inr (ms, rbuf, tr, st)"
    have IH: "reduce_loop tln sp n root (t + 1) flag' ms' bk b tr' st' \<noteq> Inl Short_Input"
      if "credit (-1) tr st - 4 \<le> credit (-1) tr' st'" for flag' ms' bk b tr' and st' :: "'a ulfm_scheme"
      using t c(2) that by (intro less(1)) auto
    have "?m \<noteq> Inl Short_Input" using c(1) by (intro main_call_ends(1) [where v = "-1"]) simp
    then obtain ms1 b1 tr1 st0 where m: "?m = Inr (ms1, b1, tr1, st0)" using run t by (cases ?m) auto
    have c1: "credit (-1) tr st - 1 \<le> credit (-1) tr1 st0" using main_call_ends(2) [OF m, of "-1"] by blast
    let ?a = "do_comm_agree tln sp (if ms1 = MPI_SUCCESS then -1 else flag0) bkup tr1 st0"
    have "?a \<noteq> Inl Short_Input" using c1 c(1) by (intro do_comm_agree_ends(2) [where v = "-1"]) simp
    then obtain flag1 bk1 tr2 st1 where a: "?a = Inr (flag1, bk1, tr2, st1)" using run t m by (cases ?a) auto
    have c2: "credit (-1) tr st - 2 \<le> credit (-1) tr2 st1" using do_comm_agree_ends(1) [OF a, of "-1"] c1 by simp
    show False
    proof (cases "flag1 = -1")
      case False
      then show ?thesis using run t m a IH [of tr2 st1] c2 by simp
    next
      case True
      let ?b = "reduce_bcast_loop tln sp n root flag1 bk1 b1 tr2 st1"
      have "?b \<noteq> Inl Short_Input" using c2 c(1) by (intro reduce_bcast_loop_ends(2)) simp
      then obtain flag2 ms2 bk2 b2 tr3 st2 where b: "?b = Inr (flag2, ms2, bk2, b2, tr3, st2)"
        using run t m a True by (cases ?b) auto
      have "credit (-1) tr st - 4 \<le> credit (-1) tr3 st2" using reduce_bcast_loop_ends(1) [OF b] c2 by simp
      then show ?thesis using run t m a b True IH [of tr3 st2] by (simp split: if_splits)
    qed
  qed
qed

text \<open>
  C22: every collective operation ends. Among the answers of the library only errors and
  agreements in which another process asks for a repetition prolong it: if \<open>b\<close> of them are of this
  kind, the operation is over after at most \<open>39 + 7 b\<close> calls of the library. It has then returned
  or ended with an error (abort 10 after nine trials); it never goes on waiting for answers.
\<close>

theorem collectives_end:
  assumes "poll st \<noteq> Inl Short_Input" and "39 + 7 * bads 1 tr \<le> length tr"
  shows "MPI_Scatter poll tln sp n on_world rbuf tr st \<noteq> Inl Short_Input \<and>
     MPI_Gather poll tln sp n on_world rbuf tr st \<noteq> Inl Short_Input \<and>
     MPI_Allgather poll tln sp n on_world rbuf tr st \<noteq> Inl Short_Input \<and>
     MPI_Allreduce poll tln sp n on_world rbuf tr st \<noteq> Inl Short_Input \<and>
     MPI_Bcast poll tln sp n root on_world rbuf tr st \<noteq> Inl Short_Input \<and>
     (39 + 7 * bads (-1) tr' \<le> length tr' \<longrightarrow> MPI_Reduce poll tln sp n root on_world flag0 rbuf tr' st \<noteq> Inl Short_Input)"
proof -
  have c: "36 \<le> credit 1 tr s" for s :: "'a ulfm_scheme" using assms(2) by (simp add: credit_def)
  have "collective_loop tln sp reset main bytes 0 ms rbuf tr s \<noteq> Inl Short_Input" for reset main bytes ms and s :: "'a ulfm_scheme"
    using c [of s] by (intro collective_loop_ends) (simp add: NO_TRIALS_def)
  then have "collective poll tln sp reset main bytes on_world rbuf tr st \<noteq> Inl Short_Input" for reset main bytes
    using assms(1) by (auto simp: collective_def bindE_Inl_iff access_answers)
  moreover have "bcast_trials tln sp n root 0 rbuf tr s \<noteq> Inl Short_Input" for s :: "'a ulfm_scheme"
    using c [of s] by (intro bcast_trials_ends) (simp add: NO_TRIALS_def)
  then have "MPI_Bcast poll tln sp n root on_world rbuf tr st \<noteq> Inl Short_Input"
    using assms(1) by (auto simp: MPI_Bcast_def bindE_Inl_iff access_answers)
  moreover have "MPI_Reduce poll tln sp n root on_world flag0 rbuf tr' st \<noteq> Inl Short_Input" if "39 + 7 * bads (-1) tr' \<le> length tr'"
  proof -
    have "reduce_loop tln sp n root 0 flag0 ms bk rbuf tr' s \<noteq> Inl Short_Input" for ms bk and s :: "'a ulfm_scheme"
      using that by (intro reduce_loop_ends) (simp add: NO_TRIALS_def credit_def)
    then show ?thesis using assms(1) by (auto simp: MPI_Reduce_def bindE_Inl_iff access_answers)
  qed
  ultimately show ?thesis by (simp add: MPI_Scatter_def MPI_Gather_def MPI_Allgather_def MPI_Allreduce_def)
qed

text \<open>One failed call and sixty answers without a failure.\<close>

theorem collectives_end_witness:
  "MPI_Gather Inr group_translate any_split 1 True [0, 0]
     ((quiet_answer None)\<lparr>astatus := 75\<rparr> # replicate 60 (quiet_answer None)) readme_world \<noteq> Inl Short_Input"
proof -
  have b: "bads 1 ((quiet_answer None)\<lparr>astatus := 75\<rparr> # replicate 60 (quiet_answer None)) = 1"
    by (simp add: bads_def MPI_SUCCESS_def quiet_answer_def)
  show ?thesis
    using collectives_end [of Inr readme_world "(quiet_answer None)\<lparr>astatus := 75\<rparr> # replicate 60 (quiet_answer None)"
        group_translate any_split 1 True "[0, 0]"] by (simp add: b)
qed

end
