(* ===== verification/Spec2Isabelle.thy ===== *)
theory Spec2Isabelle
  imports Redistribute Fortran Injected Logging Runs Endings
begin

text \<open>
  EntangledMPI replicates MPI processes. A parallel program of \<open>n\<close> jobs runs on more than \<open>n\<close>
  processes; the workers of one job are copies of each other. A separate manager writes a file
  \<open>replication.map\<close> that assigns processes (ranks) to jobs and rewrites it from time to time.
  The library wraps the MPI functions of the program: at a collective call every process polls
  the file, and when the map has changed, the first worker of a changed job copies its whole
  image (data segments, stack, heap, registers) to the new workers of the job. If a process
  dies, the MPI error handler shrinks the world and the surviving workers go on. The first
  worker of every job also writes checkpoint files, from which a later run can start.

  \<^bold>\<open>Parts and theories\<close> (paths below \<open>src/\<close>)

  \<^item> \<open>Prelude\<close>: error values, the error monad, checked arrays, encodings of integers (locale
    \<open>codec\<close>, interpreted for four and eight bytes). \<open>Memory\<close>: a 64-bit byte-addressed memory,
    \<open>malloc\<close> and \<open>free\<close> over the list of live blocks, files, and one \<open>PMPI_Bcast\<close> as seen by
    one process. \<open>Shared\<close>: \<open>shared.h\<close>.
  \<^item> \<open>Registers\<close>: the mangled registers of a \<open>jmp_buf\<close> and \<open>readProcMapFile\<close> of
    \<open>replication/rep.c\<close>.
  \<^item> \<open>Heapseg\<close>, \<open>Heap_Transfer\<close>: \<open>replication/heapseg.c\<close>. The registry of allocations is the
    doubly linked list of the code in an explicit store (\<open>cells\<close>), with the predicate that
    relates it to a list of records; \<open>rep_malloc\<close>, \<open>rep_free\<close>, \<open>rep_clear_discontiguous\<close>,
    \<open>rep_assign_malloc_context\<close>, \<open>rep_append\<close>; then the transfer of all blocks.
  \<^item> \<open>Segments\<close>: \<open>replication/dataseg.c\<close>, \<open>replication/stackseg.c\<close>, \<open>init_rep\<close> and
    \<open>transfer_framework_data\<close> of \<open>replication/rep.c\<close>. A stage of a transfer is a function from
    the buffers delivered to a process to the buffers it broadcasts (\<open>phase\<close>); a pair lemma
    runs the sender and feeds its buffers to the receiver.
  \<^item> \<open>Full_Context\<close>: \<open>checkpoint/full_context.c\<close>, writer and reader of the checkpoint file.
  \<^item> \<open>Decimal\<close>, \<open>Manager\<close>, \<open>Redistribute\<close>: \<open>manager/manager/manager.go\<close>; decimal printing and
    scanning, the job map and its text, \<open>Choose\<close>, \<open>Assign\<close> and the loop of \<open>main\<close> (an
    inductive step relation with the random numbers and the read file as labels).
  \<^item> \<open>Comm\<close>: \<open>mpi/comm.c\<close>: \<open>init_node\<close>, \<open>parse_map_file\<close> with its \<open>fscanf\<close> loop, \<open>update_comms\<close>,
    \<open>create_migration_comm\<close>.
  \<^item> \<open>Ulfm\<close>: \<open>mpi/ulfm.c\<close>: the error handler, \<open>update_job_list\<close> with its in-place compaction,
    the test whether a job lost its root.
  \<^item> \<open>Collectives\<close>: the collective operations of \<open>mpi/init.c\<close> with their loops of trials; how a run
    of them must have ended (\<open>agreed_end\<close>), and what a death during the broadcast inside a job
    (\<open>dies_in_bcast\<close>) makes of them.
  \<^item> \<open>P2P\<close>, \<open>Requests\<close>: \<open>MPI_Send\<close>, \<open>MPI_Recv\<close>, \<open>MPI_Irecv\<close>, \<open>MPI_Wait\<close> of \<open>mpi/init.c\<close> and the
    aggregate requests of \<open>mpi/async.c\<close>.
  \<^item> \<open>Status_Files\<close>: \<open>misc/file.c\<close>, \<open>misc/network.c\<close> and \<open>InitStackData\<close> of the manager; records
    at offsets given by the rank (locale \<open>slot_file\<close>, interpreted for both files).
  \<^item> \<open>Update\<close>: \<open>is_file_update_set\<close> of \<open>replication/rep.c\<close> and \<open>MPI_Init\<close>, which put these parts
    together.
  \<^item> \<open>Finalize\<close>: \<open>MPI_Finalize\<close> of \<open>mpi/init.c\<close>. \<open>Fortran\<close>: \<open>fortran/mpi.c\<close>.
  \<^item> \<open>Tables\<close>, \<open>Calls\<close>, \<open>Frames\<close>, \<open>Sessions\<close>, \<open>Progress\<close>: the runs of one process. \<open>Tables\<close> is the
    well-formedness of \<open>job_list\<close>, \<open>rank_2_job\<close> and \<open>rank_ignore_list\<close> (\<open>tables_ok\<close>) and what the
    error handler needs and keeps of it; \<open>Calls\<close> a locale \<open>failure_invariant\<close> in which every
    operation keeps a property that the error handler keeps; \<open>Frames\<close> what transfers and
    checkpoints leave alone; \<open>Sessions\<close> the runs of a process (\<open>session\<close>: \<open>MPI_Init\<close>, then any
    calls and steps of the application, an inductive relation), with the locale interpreted for
    \<open>tables_ok\<close>; \<open>Progress\<close> the theorems about all reachable states.
  \<^item> \<open>Recovery\<close>, \<open>World\<close>: all processes side by side. \<open>world_ok\<close> says that they agree on the workers
    of the jobs and that each knows its place; a map establishes it and a failure keeps it for
    the survivors, whose new communicators have the right members. \<open>Runs\<close>: the runs of a whole
    world (\<open>world_run\<close>, an inductive relation whose steps are the load of a map, failures, messages
    and computation); in every world they reach, the messages that one job sends to another are
    exactly those the other one receives.
  \<^item> \<open>Endings\<close>: the loops of the collective operations end after a number of library calls that is
    bounded by the number of failures and requests for repetition.
  \<^item> \<open>Injector\<close>, \<open>Selection\<close>, \<open>Injected\<close>: \<open>manager/fault_injector\<close>. \<open>Injector\<close> holds the selector (the
    reader of the map, the random choice of processes to kill), the reader of \<open>network.stat\<close> and
    the kill commands; \<open>Selection\<close> what is selected, when the selection ends, and which machines
    and process ids are hit; \<open>Injected\<close> that the library recovers from every injected fault.
  \<^item> \<open>Logging\<close>: \<open>misc/log.c\<close>, the length of the lines against the buffer.

  \<^bold>\<open>State and errors\<close>

  The globals of the library are one record that grows with the layers: \<open>memory\<close>, \<open>heap\<close>,
  \<open>process\<close>, \<open>globals\<close>, \<open>ulfm\<close>, \<open>fortran\<close>. An operation takes and returns it, and is written
  for every extension, so the lower layers apply to the upper states as they are. A run that
  ends early is a value of \<open>c_error\<close>: an exit status, an abort code, a failed assertion, a short
  file or message, or an undefined behaviour of C, named.

  \<^bold>\<open>What comes from outside\<close>

  The MPI library, the C library and the kernel are arguments: \<open>malloc\<close> (an \<open>allocator\<close>, whose
  blocks count only when \<open>fresh_block\<close> holds), the answers of MPI calls (\<open>answer\<close>,
  \<open>wait_answer\<close>: result, failure seen by the error handler, agreed flag, delivered bytes),
  \<open>MPI_Comm_split\<close> (\<open>splitter\<close>, with the law \<open>split_law\<close> where a theorem needs the groups), the
  translation of ranks between groups, the modification time and text of the map file, the
  registers that \<open>setjmp\<close> saves. \<open>longjmp\<close> is the second phase \<open>setjmp_1\<close> of the poll with the
  registers in \<open>ctx\<close>.

  \<^bold>\<open>Lemma groups\<close>

  Replication: \<open>transfer_pair\<close> (heap), \<open>init_rep_pair\<close>, \<open>update_replicates\<close> go from one stage to
  a whole poll and end in the relation that the receiver is a copy of the sender up to the
  addresses of its own blocks. Checkpoints: \<open>init_ckpt_saves\<close>, \<open>checkpoint_pair\<close>,
  \<open>restart_resumes\<close>. Maps: \<open>parse_map_loads\<close> (printing and scanning), \<open>manager_main_keeps\<close> (the
  invariant of the manager), \<open>manager_maps_load\<close>. Failures: the compaction as a filter of the
  surviving workers, the recovery of the communicators, and what the collective loops return
  with and without failures (\<open>bcast_loop_agreed\<close>, \<open>collective_loop_agreed\<close>, \<open>failed_trial\<close>); \<open>credit\<close> counts the answers a loop may still consume. Messages:
  \<open>send_loop_live\<close>, \<open>recv_loop_live\<close>, \<open>MPI_Irecv_live\<close>, \<open>irecv_wait_state\<close> describe the exact state after
  an operation on a job of live workers; the pairing of sends and receives, the equivalence of
  the blocking and the nonblocking receive and the Fortran round trip follow. Runs:
  \<open>handler_keeps_tables\<close>, \<open>poll_tables\<close> and \<open>MPI_Init_tables\<close> give \<open>session_tables\<close>, the type of every
  reachable state; with \<open>handler_ignoring_total\<close> point-to-point calls return in all of them.
  Worlds: \<open>loaded_world\<close>, \<open>world_survives\<close>, \<open>world_groups\<close> and \<open>world_run_agreed\<close>; \<open>world_job\<close> gives
  \<open>live_job\<close> for every pair of process and job, from which the exchange of messages follows.
  Files: \<open>read_all_slots\<close> (all records are found again in the order of the ranks). Faults:
  \<open>selector_reads_map\<close> (the selector reads what the manager wrote), \<open>getNew_pass\<close> (one draw),
  \<open>getNew_spares\<close> and \<open>next_loop_spares\<close> (no job loses its last worker), \<open>network_map_of_stats\<close>.
  Theorems whose comment names a defect prove what the code does in a case in which it differs
  from what it means to do.

  \<^bold>\<open>Bounds and fuel\<close>

  Walks along the linked list take a fuel argument; every theorem about them assumes fuel above
  the length of the list and shows that the walk then ends, so no statement holds because of
  too little fuel. The loops of trials end after \<open>NO_TRIALS\<close>, the attempts of a wait after six
  (\<open>wait_loop_consumes\<close>, \<open>wait_loop_answers\<close>).
  A loop that waits for an answer of MPI, or for a random number, runs on the list of answers;
  when the list ends the result is \<open>Short_Input\<close>, so \<open>returns for no list\<close> is \<open>does not return\<close>.
  Integers of 32 and 64 bits are words where the code relies on their width (stack sizes,
  counters of allocations, casts of lengths to \<open>int\<close>) and \<open>int\<close> with a range check where a
  number is scanned.

  \<^bold>\<open>Not modelled\<close>

  The reading of the wall clock and the rounding of \<open>double\<close> (\<open>MPI_Finalize\<close> takes its arithmetic
  as an argument), what \<open>vfprintf\<close> prints, console output, the content of the buffer for swallowed
  messages, the send buffers of the reductions and of scatter and gather (the result comes from
  the library), the code that is commented out, the Go random number generators (their numbers
  are arguments), the example programs and the build files. The lines of the C files that no
  definition covers are includes, prototypes, comments, timers, log calls and debug output. The
  logging calls inside the other functions are left out; what may go wrong in one is shown in
  \<open>Logging\<close>. Of the blocks of an aggregate request only the temporary buffer is in the list of live
  blocks: the structure, \<open>node_rank\<close>, \<open>req_array\<close> and the array of statuses of a wait are values.
  \<open>MPI_Finalize\<close> frees two of the blocks of \<open>MPI_Init\<close>; that the job list and \<open>rank_2_job\<close> are never
  freed at the end has no counterpart in the model. A run of the error handler is one step: a
  further death inside the MPI calls it makes itself is not modelled. The bounds that
  \<open>readProcMapFile\<close> computes are locals of the function, which nobody else reads; \<open>maps_loop\<close>
  exposes them. Collective operations are modelled per process over the answers of the library:
  that all processes get matching answers is a promise of MPI and is not derived here.
\<close>

end
